(* ===== verification/Prelude.thy ===== *)
theory Prelude
  imports Complex_Main "HOL-Library.Word"
begin

text \<open>
  Shared vocabulary of the development: machine widths of the Go integer types the code uses,
  the shape of a fallible Go call, the lemma collections of the components, and the facts on lists,
  maps and words that more than one component needs. A Go string or byte slice read as text is the
  HOL type \<open>string\<close>, whose characters are bytes; a Go byte slice read as numbers is a list of
  8-bit words. A pair (value, error) is a sum with the error on the left, or an option where no
  caller looks at which error it was.
\<close>

unbundle bit_operations_syntax

type_synonym u8 = "8 word"
type_synonym u16 = "16 word"
type_synonym u32 = "32 word"
type_synonym u64 = "64 word"
type_synonym u128 = "128 word"
type_synonym bytes = "u8 list"

named_theorems go_text "facts on the string functions of the Go library"
named_theorems net_addr "facts on addresses, prefixes and host:port pairs"
named_theorems rule_match "facts on ports, transports and rule selection"
named_theorems map_agree "facts on association lists that represent Go maps"

section \<open>Fallible calls\<close>

definition is_ok :: "'e + 'a \<Rightarrow> bool" where
  "is_ok r = (case r of Inl _ \<Rightarrow> False | Inr _ \<Rightarrow> True)"

definition and_then :: "'e + 'a \<Rightarrow> ('a \<Rightarrow> 'e + 'b) \<Rightarrow> 'e + 'b" where
  "and_then r f = (case r of Inl e \<Rightarrow> Inl e | Inr x \<Rightarrow> f x)"

lemma and_then_simps [simp]:
  "and_then (Inl e) f = Inl e"
  "and_then (Inr x) f = f x"
  by (simp_all add: and_then_def)

lemma and_then_Inr_iff: "and_then r f = Inr y \<longleftrightarrow> (\<exists>x. r = Inr x \<and> f x = Inr y)"
  by (cases r) auto

lemma is_ok_simps [simp]: "is_ok (Inr x)" "\<not> is_ok (Inl e)"
  by (simp_all add: is_ok_def)

lemma is_ok_iff: "is_ok r \<longleftrightarrow> (\<exists>x. r = Inr x)"
  by (cases r) auto

section \<open>Lists\<close>

lemma remove1_distinct_set: "distinct xs \<Longrightarrow> set (remove1 x xs) = set xs - {x}"
  by simp

lemma last_butlast_split: "xs \<noteq> [] \<Longrightarrow> xs = butlast xs @ [last xs]"
  by simp

lemma distinct_butlast_last: "distinct xs \<Longrightarrow> xs \<noteq> [] \<Longrightarrow> last xs \<notin> set (butlast xs)"
  by (metis append_butlast_last_id distinct_append disjoint_iff list.set_intros(1))

lemma set_butlast_distinct:
  "distinct xs \<Longrightarrow> xs \<noteq> [] \<Longrightarrow> set (butlast xs) = set xs - {last xs}"
  by (metis append_butlast_last_id distinct_butlast_last insert_Diff_single
      list.simps(15) Diff_insert_absorb Un_insert_right append_Nil2 empty_set set_append)

lemma replicate_numeral_Cons: "replicate (numeral k) x = x # replicate (pred_numeral k) x"
  by (simp add: numeral_eq_Suc)

lemma find_Some_iff_set: "(\<exists>x. find P xs = Some x) \<longleftrightarrow> (\<exists>x \<in> set xs. P x)"
  by (induction xs) auto

section \<open>Words\<close>

lemma drop_bit_xor_eq_0_iff:
  fixes a b :: "'a::len word"
  shows "drop_bit n (a XOR b) = 0 \<longleftrightarrow> drop_bit n a = drop_bit n b"
proof -
  have "drop_bit n (a XOR b) = drop_bit n a XOR drop_bit n b"
    by (simp add: drop_bit_xor)
  moreover have "(x XOR y = 0) = (x = y)" for x y :: "'a word"
  proof
    assume "x XOR y = 0"
    then have "(x XOR y) XOR y = 0 XOR y" by (rule arg_cong)
    then show "x = y" by (simp add: xor.assoc)
  qed simp
  ultimately show ?thesis by simp
qed

lemma drop_bit_eq_mono:
  fixes a b :: "'a::len word"
  assumes "drop_bit m a = drop_bit m b" and "m \<le> n"
  shows "drop_bit n a = drop_bit n b"
proof -
  have split: "drop_bit n x = drop_bit (n - m) (drop_bit m x)" for x :: "'a word"
    using assms(2) by (simp add: drop_bit_drop_bit)
  have "drop_bit (n - m) (drop_bit m a) = drop_bit (n - m) (drop_bit m b)"
    by (rule arg_cong [OF assms(1)])
  then show ?thesis by (simp only: split [symmetric])
qed

lemma drop_push_drop_bit [simp]:
  fixes w :: "'a::len word"
  shows "drop_bit n (push_bit n (drop_bit n w)) = drop_bit n w"
  by (rule bit_word_eqI) (auto simp: bit_simps dest: bit_imp_le_length)

lemma unat_drop_bit: "unat (drop_bit n w) = unat w div 2 ^ n"
  by (rule trans [OF unat_drop_bit_eq drop_bit_eq_div])

lemma push_drop_eq_iff:
  fixes w c :: "'a::len word"
  assumes "k \<le> n"
  shows "push_bit k (drop_bit n w) = c
    \<longleftrightarrow> drop_bit n w = drop_bit k c \<and> push_bit k (drop_bit k c) = c"
proof -
  have "drop_bit k (push_bit k (drop_bit n w)) = drop_bit n w"
    by (rule bit_word_eqI) (use assms in \<open>auto simp: bit_simps dest: bit_imp_le_length\<close>)
  then show ?thesis by metis
qed

lemma and_high_mask:
  fixes w :: "'a::len word"
  assumes "LENGTH('a) \<le> n + m + k"
  shows "drop_bit n w AND push_bit m (mask k) = push_bit m (drop_bit (n + m) w)"
  by (rule bit_word_eqI) (use assms in \<open>auto simp: bit_simps dest: bit_imp_le_length\<close>)

lemma split_high_low:
  fixes w a b :: "'a::len word"
  assumes "drop_bit k (push_bit k a + b) = a" and "take_bit k (push_bit k a + b) = b"
  shows "drop_bit (k + n) w = a \<and> take_bit k (drop_bit n w) = b
    \<longleftrightarrow> drop_bit n w = push_bit k a + b"
proof -
  have "drop_bit k x = a \<and> take_bit k x = b \<longleftrightarrow> x = push_bit k a + b" for x
    using assms bits_ident [of k x] by auto
  moreover have "drop_bit (k + n) w = drop_bit k (drop_bit n w)"
    by (simp add: drop_bit_drop_bit)
  ultimately show ?thesis by metis
qed

end
