(* ===== verification/Stream_Codec.thy ===== *)
theory Stream_Codec
  imports Prelude
begin

text \<open>
  Byte streams as the framing code reads them, and the contract every frame format of the program
  has. A reader is the bytes that will arrive and the error that follows them (\<open>StreamEOF\<close> after an
  orderly close); bufio's buffering and blocking change neither. The locale \<open>stream_codec\<close> states what
  a client of a framing relies on: a frame written in front of any stream is read back and exactly it
  is consumed. It is interpreted on the QUIC varint, on the DATAGRAM capsule and on the QEMU frame.
\<close>

datatype stream_error = StreamEOF | UnexpectedEOF | StreamBroken

record reader =
  unread :: bytes
  ended :: stream_error

definition feed :: "bytes \<Rightarrow> reader \<Rightarrow> reader" where
  "feed bs r = r\<lparr>unread := bs @ unread r\<rparr>"

text \<open>\<open>io.ByteReader.ReadByte\<close> and \<open>io.ReadFull\<close>.\<close>

definition read_byte :: "reader \<Rightarrow> stream_error + (u8 \<times> reader)" where
  "read_byte r =
     (case unread r of [] \<Rightarrow> Inl (ended r) | b # bs \<Rightarrow> Inr (b, r\<lparr>unread := bs\<rparr>))"

definition partial_error :: "stream_error \<Rightarrow> stream_error" where
  "partial_error e = (if e = StreamEOF then UnexpectedEOF else e)"

definition read_full :: "nat \<Rightarrow> reader \<Rightarrow> stream_error + (bytes \<times> reader)" where
  "read_full n r =
     (if n \<le> length (unread r) then
        Inr (take n (unread r), r\<lparr>unread := drop n (unread r)\<rparr>)
      else Inl (if unread r = [] then ended r else partial_error (ended r)))"

lemma feed_simps [simp]:
  "feed [] r = r"
  "feed as (feed bs r) = feed (as @ bs) r"
  "unread (feed bs r) = bs @ unread r"
  "ended (feed bs r) = ended r"
  by (simp_all add: feed_def)

lemma read_byte_feed [simp]: "read_byte (feed (b # bs) r) = Inr (b, feed bs r)"
  by (simp add: read_byte_def feed_def)

lemma read_full_feed [simp]: "length bs = n \<Longrightarrow> read_full n (feed bs r) = Inr (bs, r)"
  by (simp add: read_full_def feed_def)

lemma read_full_feed_append:
  "length bs = n \<Longrightarrow> read_full n (feed (bs @ cs) r) = Inr (bs, feed cs r)"
  using read_full_feed [of bs n "feed cs r"] by simp

lemma read_byteD:
  "read_byte r = Inr (b, r') \<Longrightarrow> length (unread r) = Suc (length (unread r'))"
  by (auto simp: read_byte_def split: list.splits)

lemma read_fullD:
  "read_full n r = Inr (bs, r')
    \<Longrightarrow> length bs = n \<and> length (unread r) = n + length (unread r') \<and> r = feed bs r'"
  by (cases r) (auto simp: read_full_def feed_def split: if_splits)

lemma read_full_short:
  "length (unread r) < n \<Longrightarrow> \<exists>e. read_full n r = Inl e"
  by (simp add: read_full_def)

section \<open>The contract of a framing\<close>

text \<open>Reading a fixed number of frames one after the other.\<close>

fun read_many :: "(reader \<Rightarrow> 'e + ('a \<times> reader)) \<Rightarrow> nat \<Rightarrow> reader \<Rightarrow> 'e + ('a list \<times> reader)" where
  "read_many get 0 r = Inr ([], r)"
| "read_many get (Suc n) r =
     and_then (get r) (\<lambda>(x, r1). and_then (read_many get n r1) (\<lambda>(xs, r2). Inr (x # xs, r2)))"

locale stream_codec =
  fixes put :: "'a \<Rightarrow> bytes"
    and get :: "reader \<Rightarrow> 'e + ('a \<times> reader)"
    and fits :: "'a \<Rightarrow> bool"
  assumes get_put: "fits x \<Longrightarrow> get (feed (put x) r) = Inr (x, r)"
    and put_not_empty: "fits x \<Longrightarrow> put x \<noteq> []"
begin

lemma get_put_append: "fits x \<Longrightarrow> get (feed (put x @ bs) r) = Inr (x, feed bs r)"
  using get_put [of x "feed bs r"] by simp

lemma put_inj: "fits x \<Longrightarrow> fits y \<Longrightarrow> put x = put y \<Longrightarrow> x = y"
  by (metis get_put Inr_inject Pair_inject)

lemma read_many_put:
  "list_all fits xs \<Longrightarrow> read_many get (length xs) (feed (concat (map put xs)) r) = Inr (xs, r)"
  by (induction xs) (simp_all add: get_put_append)

lemma put_prefix_free:
  assumes "fits x" and "fits y" and "put x @ as = put y @ bs"
  shows "x = y \<and> as = bs"
proof -
  let ?r = "\<lparr>unread = [], ended = StreamEOF\<rparr>"
  from assms have "Inr (x, feed as ?r) = (Inr (y, feed bs ?r) :: 'e + 'a \<times> reader)"
    by (metis get_put_append)
  then show ?thesis by (simp add: feed_def)
qed

lemma stream_unambiguous:
  "list_all fits xs \<Longrightarrow> list_all fits ys \<Longrightarrow> concat (map put xs) = concat (map put ys) \<Longrightarrow> xs = ys"
proof (induction xs arbitrary: ys)
  case Nil
  then show ?case by (cases ys) (auto simp: put_not_empty)
next
  case (Cons x xs)
  show ?case
  proof (cases ys)
    case Nil
    with Cons.prems show ?thesis by (simp add: put_not_empty)
  next
    case (Cons y zs)
    with Cons.prems have "put x @ concat (map put xs) = put y @ concat (map put zs)"
      "fits x" "fits y" "list_all fits xs" "list_all fits zs" by simp_all
    with put_prefix_free Cons.IH Cons show ?thesis by metis
  qed
qed

end

end
