(* ===== verification/Capsule.thy ===== *)
theory Capsule
  imports Stream_Codec
begin

text \<open>
  The capsule codec of sdk/pkg/tun2connect/capsule.go: QUIC variable-length integers and DATAGRAM
  capsules with context ID 0. A panic of the writer is \<open>None\<close>; the reader's errors are
  \<open>capsule_error\<close>. The write mutex makes one call one write, so a stream of writes is the
  concatenation of the encodings in the order in which the lock was taken.
\<close>

section \<open>Variable-length integers\<close>

fun be_bytes :: "nat \<Rightarrow> 'a::len word \<Rightarrow> bytes" where
  "be_bytes 0 w = []"
| "be_bytes (Suc k) w = ucast (drop_bit (8 * k) w) # be_bytes k w"

definition append_varint :: "bytes \<Rightarrow> u64 \<Rightarrow> bytes option" where
  "append_varint b v =
     (if v < 2 ^ 6 then Some (b @ [ucast v])
      else if v < 2 ^ 14 then Some (b @ be_bytes 2 (ucast v OR 0x4000 :: u16))
      else if v < 2 ^ 30 then Some (b @ be_bytes 4 (ucast v OR 0x80000000 :: u32))
      else if v < 2 ^ 62 then Some (b @ be_bytes 8 (v OR 0xC000000000000000))
      else None)"

fun read_varint_rest :: "nat \<Rightarrow> u64 \<Rightarrow> reader \<Rightarrow> stream_error + (u64 \<times> reader)" where
  "read_varint_rest 0 v r = Inr (v, r)"
| "read_varint_rest (Suc n) v r =
     (case read_byte r of
        Inl e \<Rightarrow> Inl (partial_error e)
      | Inr (b, r1) \<Rightarrow> read_varint_rest n (push_bit 8 v OR ucast b) r1)"

definition read_varint :: "reader \<Rightarrow> stream_error + (u64 \<times> reader)" where
  "read_varint r =
     (case read_byte r of
        Inl e \<Rightarrow> Inl e
      | Inr (b0, r1) \<Rightarrow>
          read_varint_rest (2 ^ unat (drop_bit 6 b0) - 1) (ucast (b0 AND 0x3F)) r1)"

section \<open>Datagram capsules\<close>

definition capsule_type_datagram :: u64 where
  "capsule_type_datagram = 0"

definition max_capsule_payload :: u64 where
  "max_capsule_payload = push_bit 16 1"

datatype capsule_error =
    CapsuleRead stream_error
  | CapsuleTooLong u64
  | MalformedDatagram

text \<open>\<open>write_datagram\<close> is the buffer handed to the single \<open>Write\<close> call; a Go slice length fits in 63 bits.\<close>

definition write_datagram :: "bytes \<Rightarrow> bytes option" where
  "write_datagram p =
     (case append_varint [] capsule_type_datagram of
        None \<Rightarrow> None
      | Some b1 \<Rightarrow>
          (case append_varint b1 (of_nat (length p) + 1) of
             None \<Rightarrow> None
           | Some b2 \<Rightarrow> map_option (\<lambda>b3. b3 @ p) (append_varint b2 0)))"

definition read_capsule :: "reader \<Rightarrow> capsule_error + ((u64 \<times> bytes) \<times> reader)" where
  "read_capsule r =
     (case read_varint r of
        Inl e \<Rightarrow> Inl (CapsuleRead e)
      | Inr (ctype, r1) \<Rightarrow>
          (case read_varint r1 of
             Inl e \<Rightarrow> Inl (CapsuleRead e)
           | Inr (clen, r2) \<Rightarrow>
               if clen > max_capsule_payload then Inl (CapsuleTooLong clen)
               else
                 (case read_full (unat clen) r2 of
                    Inl e \<Rightarrow> Inl (CapsuleRead e)
                  | Inr (value, r3) \<Rightarrow> Inr ((ctype, value), r3))))"

text \<open>
  What the loop body does with one capsule: the payload of a datagram with context 0, \<open>None\<close> for a
  capsule or context it skips, or the error for a value that holds no context ID.
\<close>

definition datagram_payload :: "u64 \<Rightarrow> bytes \<Rightarrow> capsule_error + bytes option" where
  "datagram_payload ctype value =
     (if ctype \<noteq> capsule_type_datagram then Inr None
      else
        (case read_varint \<lparr>unread = value, ended = StreamEOF\<rparr> of
           Inl _ \<Rightarrow> Inl MalformedDatagram
         | Inr (ctx_id, rd) \<Rightarrow>
             if ctx_id \<noteq> 0 then Inr None
             else Inr (Some (drop (length value - length (unread rd)) value))))"

lemma read_varint_rest_consumes:
  "read_varint_rest n v r = Inr (w, r') \<Longrightarrow> length (unread r) = n + length (unread r')"
  by (induction n arbitrary: v r) (auto dest: read_byteD split: sum.splits)

lemma read_varint_consumes:
  "read_varint r = Inr (w, r') \<Longrightarrow> length (unread r') < length (unread r)"
  by (auto simp: read_varint_def dest!: read_byteD read_varint_rest_consumes split: sum.splits)

lemma read_capsule_consumes:
  "read_capsule r = Inr (c, r') \<Longrightarrow> length (unread r') < length (unread r)"
  by (auto simp: read_capsule_def dest!: read_varint_consumes read_fullD split: sum.splits if_splits)

function read_datagram :: "reader \<Rightarrow> capsule_error + (bytes \<times> reader)" where
  "read_datagram r =
     (case read_capsule r of
        Inl e \<Rightarrow> Inl e
      | Inr ((ctype, value), r') \<Rightarrow>
          (case datagram_payload ctype value of
             Inl e \<Rightarrow> Inl e
           | Inr None \<Rightarrow> read_datagram r'
           | Inr (Some p) \<Rightarrow> Inr (p, r')))"
  by auto

termination read_datagram
  by (relation "measure (\<lambda>r. length (unread r))") (auto dest: read_capsule_consumes)

declare read_datagram.simps [simp del]

section \<open>Varints read back\<close>

lemma length_be_bytes [simp]: "length (be_bytes k w) = k"
  by (induction k) simp_all

lemma read_varint_rest_be_bytes:
  fixes w :: "'a::len word"
  assumes "LENGTH('a) \<le> 64"
  shows "read_varint_rest k v (feed (be_bytes k w) r)
    = Inr (push_bit (8 * k) v OR take_bit (8 * k) (ucast w), r)"
proof (induction k arbitrary: v)
  case 0
  show ?case by simp
next
  case (Suc k)
  have "push_bit (8 * k) (push_bit 8 v OR ucast (ucast (drop_bit (8 * k) w) :: u8))
      OR take_bit (8 * k) (ucast w)
    = push_bit (8 * Suc k) v OR take_bit (8 * Suc k) (ucast w :: u64)"
    by (rule bit_word_eqI) (use assms in \<open>auto simp: bit_simps add.commute [of 8]\<close>)
  with Suc show ?case by simp
qed

text \<open>
  A first byte whose top bits select \<open>k\<close> further bytes, in front of a word that carries the value
  below the two tag bits.
\<close>

lemma read_varint_tagged:
  fixes w :: "'a::len word" and v :: u64
  assumes "LENGTH('a) \<le> 64" and "8 * k + 8 = LENGTH('a)"
    and "drop_bit 6 (ucast (drop_bit (8 * k) w) :: u8) = t" and "k = 2 ^ unat t - 1"
    and "take_bit (8 * k + 6) (ucast w) = v"
  shows "read_varint (feed (be_bytes (Suc k) w) r) = Inr (v, r)"
proof -
  have "push_bit (8 * k) (ucast ((ucast (drop_bit (8 * k) w) :: u8) AND 0x3F))
      OR take_bit (8 * k) (ucast w) = take_bit (8 * k + 6) (ucast w :: u64)"
  proof -
    have "x AND 0x3F = take_bit 6 x" for x :: u8
      by (simp add: take_bit_eq_mask mask_eq_decr_exp)
    then show ?thesis
      by (simp only:) (rule bit_word_eqI, use assms(1,2) in \<open>auto simp: bit_simps\<close>)
  qed
  then have "read_varint_rest k (ucast ((ucast (drop_bit (8 * k) w) :: u8) AND 0x3F))
      (feed (be_bytes k w) r) = Inr (v, r)"
    by (simp only: read_varint_rest_be_bytes [OF assms(1)] assms(5))
  moreover have "read_varint (feed (be_bytes (Suc k) w) r)
      = read_varint_rest (2 ^ unat (drop_bit 6 (ucast (drop_bit (8 * k) w) :: u8)) - 1)
          (ucast ((ucast (drop_bit (8 * k) w) :: u8) AND 0x3F)) (feed (be_bytes k w) r)"
    by (simp add: read_varint_def)
  ultimately show ?thesis by (simp only: assms(3) assms(4) [symmetric])
qed

lemma below_power_take_bit:
  fixes v :: "'a::len word"
  assumes "v < 2 ^ n" and "n < LENGTH('a)"
  shows "take_bit n v = v"
  using assms by (simp add: less_mask_eq take_bit_eq_mask flip: mask_eq_iff_w2p)

lemma append_varint_append: "append_varint b v = map_option ((@) b) (append_varint [] v)"
  by (simp add: append_varint_def)

lemma tag_bits:
  fixes w :: "'a::len word" and v :: u64 and t :: u8
  assumes "LENGTH('a) \<le> 64" and "8 * k + 8 = LENGTH('a)" and "drop_bit 2 t = 0"
    and "take_bit (8 * k + 6) v = v" and "w = ucast v OR push_bit (8 * k + 6) (ucast t)"
  shows "drop_bit 6 (ucast (drop_bit (8 * k) w) :: u8) = t"
    and "take_bit (8 * k + 6) (ucast w) = v"
proof -
  have v: "bit v i \<Longrightarrow> i < 8 * k + 6" for i
    using assms(4) by (metis bit_take_bit_iff)
  have t: "i < 2" if "bit t i" for i
  proof (rule ccontr)
    assume "\<not> i < 2"
    then obtain j where "i = 2 + j" by (metis le_Suc_ex not_less)
    with that have "bit (drop_bit 2 t) j" by (simp add: bit_drop_bit_eq)
    with assms(3) show False by simp
  qed
  show "drop_bit 6 (ucast (drop_bit (8 * k) w) :: u8) = t"
    unfolding assms(5)
    by (rule bit_word_eqI) (use assms(1,2) in \<open>auto simp: bit_simps dest: v t\<close>)
  show "take_bit (8 * k + 6) (ucast w) = v"
    unfolding assms(5)
    by (rule bit_word_eqI) (use assms(1,2) in \<open>auto simp: bit_simps dest: v t\<close>)
qed

lemma read_varint_value:
  fixes w :: "'a::len word" and v :: u64 and t :: u8
  assumes "8 * k + 8 = LENGTH('a)" and "LENGTH('a) \<le> 64" and "drop_bit 2 t = 0"
    and "k = 2 ^ unat t - 1" and "v < 2 ^ (8 * k + 6)"
    and "w = ucast v OR push_bit (8 * k + 6) (ucast t)"
  shows "read_varint (feed (be_bytes (Suc k) w) r) = Inr (v, r)"
proof -
  have v: "take_bit (8 * k + 6) v = v"
    using assms(1,2,5) by (simp add: below_power_take_bit)
  show ?thesis
    using read_varint_tagged [OF assms(2,1)
        tag_bits(1) [OF assms(2,1,3) v assms(6)] assms(4) tag_bits(2) [OF assms(2,1,3) v assms(6)]] .
qed

lemma read_append_varint:
  assumes "append_varint [] v = Some b"
  shows "read_varint (feed b r) = Inr (v, r)"
proof -
  consider "v < 2 ^ 6" | "\<not> v < 2 ^ 6" "v < 2 ^ 14" | "\<not> v < 2 ^ 6" "\<not> v < 2 ^ 14" "v < 2 ^ 30"
    | "\<not> v < 2 ^ 6" "\<not> v < 2 ^ 14" "\<not> v < 2 ^ 30" "v < 2 ^ 62"
    using assms unfolding append_varint_def by (metis option.distinct(1))
  then show ?thesis
  proof cases
    case 1
    then have "b = be_bytes (Suc 0) (ucast v :: u8)"
      using assms by (simp add: append_varint_def)
    with 1 show ?thesis
      using read_varint_value [of 0 0 v "ucast v :: u8" r] by simp
  next
    case 2
    then have b: "b = be_bytes (Suc 1) (ucast v OR 0x4000 :: u16)"
      using assms unfolding append_varint_def by (simp add: numeral_2_eq_2)
    show ?thesis unfolding b
      by (rule read_varint_value [where t = 1]) (use 2 in simp_all)
  next
    case 3
    then have b: "b = be_bytes (Suc 3) (ucast v OR 0x80000000 :: u32)"
      using assms unfolding append_varint_def by (simp del: be_bytes.simps)
    show ?thesis unfolding b
      by (rule read_varint_value [where t = 2]) (use 3 in simp_all)
  next
    case 4
    then have b: "b = be_bytes (Suc 7) (v OR 0xC000000000000000)"
      using assms unfolding append_varint_def by (simp del: be_bytes.simps)
    show ?thesis unfolding b
      by (rule read_varint_value [where t = 3]) (use 4 in simp_all)
  qed
qed

lemma be_bytes_numeral [simp]:
  "be_bytes (numeral k) w = ucast (drop_bit (8 * pred_numeral k) w) # be_bytes (pred_numeral k) w"
  by (simp add: numeral_eq_Suc)

lemma append_varint_cases:
  assumes "append_varint [] v = Some b"
  shows "v < 2 ^ 62 \<and> length b \<in> {1, 2, 4, 8}"
proof -
  have "(2 :: u64) ^ 6 \<le> 2 ^ 62" "(2 :: u64) ^ 14 \<le> 2 ^ 62" "(2 :: u64) ^ 30 \<le> 2 ^ 62"
    by simp_all
  with assms show ?thesis
    unfolding append_varint_def
    by (auto simp del: be_bytes.simps be_bytes_numeral split: if_splits intro: less_le_trans)
qed

lemma append_varint_defined: "v < 2 ^ 62 \<longleftrightarrow> append_varint [] v \<noteq> None"
proof
  show "v < 2 ^ 62 \<Longrightarrow> append_varint [] v \<noteq> None"
    unfolding append_varint_def by (metis option.distinct(1))
qed (use append_varint_cases [of v] in auto)

text \<open>The varint codec as the writer and reader of one integer below \<open>2 ^ 62\<close>.\<close>

definition put_varint :: "u64 \<Rightarrow> bytes" where
  "put_varint v = (case append_varint [] v of None \<Rightarrow> [] | Some b \<Rightarrow> b)"

definition varint_fits :: "u64 \<Rightarrow> bool" where
  "varint_fits v = (v < 2 ^ 62)"

lemma append_varint_put: "varint_fits v \<Longrightarrow> append_varint b v = Some (b @ put_varint v)"
  using append_varint_defined [of v]
  by (auto simp: append_varint_append [of b] put_varint_def varint_fits_def)

interpretation varint: stream_codec put_varint read_varint varint_fits
proof unfold_locales
  fix v r
  assume "varint_fits v"
  then obtain b where b: "append_varint [] v = Some b"
    using append_varint_defined [of v] by (auto simp: varint_fits_def)
  then show "read_varint (feed (put_varint v) r) = Inr (v, r)"
    by (simp add: put_varint_def read_append_varint)
next
  fix v
  assume "varint_fits v"
  then obtain b where b: "append_varint [] v = Some b"
    using append_varint_defined [of v] by (auto simp: varint_fits_def)
  with append_varint_cases [OF b] show "put_varint v \<noteq> []"
    by (auto simp: put_varint_def)
qed

section \<open>Capsules read back\<close>

text \<open>A capsule of any type, as a peer may send it.\<close>

definition put_capsule :: "u64 \<times> bytes \<Rightarrow> bytes" where
  "put_capsule c = put_varint (fst c) @ put_varint (of_nat (length (snd c))) @ snd c"

definition capsule_fits :: "u64 \<times> bytes \<Rightarrow> bool" where
  "capsule_fits c = (varint_fits (fst c) \<and> length (snd c) \<le> 65536)"

lemma of_nat_le_payload:
  "n \<le> 65536 \<Longrightarrow> (of_nat n :: u64) \<le> 65536 \<and> unat (of_nat n :: u64) = n"
  by (simp add: word_le_nat_alt unat_of_nat)

lemma max_capsule_payload_eq: "max_capsule_payload = 65536"
  by (simp add: max_capsule_payload_def)

interpretation capsule: stream_codec put_capsule read_capsule capsule_fits
proof unfold_locales
  fix c :: "u64 \<times> bytes" and r
  assume fits: "capsule_fits c"
  have len: "(of_nat (length (snd c)) :: u64) \<le> 65536"
    "unat (of_nat (length (snd c)) :: u64) = length (snd c)"
    using fits of_nat_le_payload by (auto simp: capsule_fits_def)
  then have "varint_fits (of_nat (length (snd c)))"
    by (simp add: varint_fits_def order.strict_trans1)
  with fits len show "read_capsule (feed (put_capsule c) r) = Inr (c, r)"
    by (simp add: read_capsule_def put_capsule_def capsule_fits_def varint.get_put_append
        max_capsule_payload_eq not_less)
next
  fix c
  assume "capsule_fits c"
  then show "put_capsule c \<noteq> []"
    by (auto simp: put_capsule_def capsule_fits_def varint.put_not_empty)
qed

section \<open>Datagrams\<close>

lemma put_varint_zero [simp]: "put_varint 0 = [0]"
  by (simp add: put_varint_def append_varint_def)

lemma varint_fits_zero [simp]: "varint_fits 0"
  by (simp add: varint_fits_def)

definition datagram_fits :: "bytes \<Rightarrow> bool" where
  "datagram_fits p = (length p \<le> 65535)"

lemma write_datagram_capsule:
  assumes "length p < 2 ^ 62 - 1"
  shows "write_datagram p = Some (put_capsule (0, 0 # p))"
proof -
  have "unat (of_nat (Suc (length p)) :: u64) = Suc (length p)"
    using assms by (simp only: unat_of_nat) simp
  then have "varint_fits (of_nat (Suc (length p)))"
    unfolding varint_fits_def word_less_nat_alt using assms by simp
  then show ?thesis
    by (simp add: write_datagram_def capsule_type_datagram_def put_capsule_def append_varint_put
        add.commute)
qed

lemma read_varint_from_value: "varint_fits v \<Longrightarrow>
  read_varint \<lparr>unread = put_varint v @ bs, ended = e\<rparr> = Inr (v, \<lparr>unread = bs, ended = e\<rparr>)"
  using varint.get_put [of v "\<lparr>unread = bs, ended = e\<rparr>"] by (simp add: feed_def)

lemma datagram_payload_context:
  assumes "varint_fits ctx"
  shows "datagram_payload 0 (put_varint ctx @ p) = Inr (if ctx = 0 then Some p else None)"
  using assms
  by (simp add: datagram_payload_def capsule_type_datagram_def read_varint_from_value)

text \<open>A capsule the reader passes over: of another type, or a datagram of another context.\<close>

definition skipped :: "u64 \<times> bytes \<Rightarrow> bool" where
  "skipped c = (capsule_fits c \<and> datagram_payload (fst c) (snd c) = Inr None)"

lemma read_datagram_skip: "skipped c \<Longrightarrow>
  read_datagram (feed (put_capsule c @ bs) r) = read_datagram (feed bs r)"
  by (subst read_datagram.simps)
     (cases c, simp add: skipped_def capsule.get_put_append)

lemma read_datagram_skips: "list_all skipped cs \<Longrightarrow>
  read_datagram (feed (concat (map put_capsule cs) @ bs) r) = read_datagram (feed bs r)"
  by (induction cs) (simp_all add: read_datagram_skip)

lemma write_datagram_fits:
  "datagram_fits p \<Longrightarrow> write_datagram p = Some (put_capsule (0, 0 # p)) \<and> capsule_fits (0, 0 # p)"
  by (simp add: write_datagram_capsule datagram_fits_def capsule_fits_def)

lemma read_written_datagram:
  "datagram_fits p \<Longrightarrow> read_datagram (feed (put_capsule (0, 0 # p)) r) = Inr (p, r)"
  using datagram_payload_context [of 0 p]
  by (subst read_datagram.simps) (simp add: write_datagram_fits capsule.get_put)

interpretation datagram: stream_codec "\<lambda>p. put_capsule (0, 0 # p)" read_datagram datagram_fits
  by unfold_locales
    (simp_all add: read_written_datagram write_datagram_fits capsule.put_not_empty)

lemma map_write_datagram:
  "list_all datagram_fits ps \<Longrightarrow> map write_datagram ps = map Some ws
    \<Longrightarrow> ws = map (\<lambda>p. put_capsule (0, 0 # p)) ps"
proof (induction ps arbitrary: ws)
  case (Cons p ps)
  then show ?case by (cases ws) (auto simp: write_datagram_fits)
qed simp

text \<open>
  Datagrams of up to 65535 bytes written one after the other are read back in the same order, each
  exactly as it was, and reading them consumes exactly the bytes that were written.
\<close>

lemma datagrams_read_back:
  assumes "list_all datagram_fits ps" and "map write_datagram ps = map Some ws"
  shows "read_many read_datagram (length ps) (feed (concat ws) r) = Inr (ps, r)"
  using datagram.read_many_put [OF assms(1)] map_write_datagram [OF assms] by simp

lemma datagrams_read_back_witness:
  "\<exists>ws. map write_datagram [[1, 2], [], [3]] = map Some ws
     \<and> read_many read_datagram 3 \<lparr>unread = concat ws, ended = StreamEOF\<rparr>
       = Inr ([[1, 2], [], [3]], \<lparr>unread = [], ended = StreamEOF\<rparr>)"
proof -
  let ?ps = "[[1, 2], [], [3]] :: bytes list"
  let ?ws = "map (\<lambda>p. put_capsule (0, 0 # p)) ?ps"
  have fits: "list_all datagram_fits ?ps" by (simp add: datagram_fits_def)
  then have w: "map write_datagram ?ps = map Some ?ws" by (simp add: write_datagram_fits)
  have "length ?ps = 3" by simp
  with datagrams_read_back [OF fits w, of "\<lparr>unread = [], ended = StreamEOF\<rparr>"]
  have "read_many read_datagram 3 \<lparr>unread = concat ?ws, ended = StreamEOF\<rparr>
       = Inr (?ps, \<lparr>unread = [], ended = StreamEOF\<rparr>)"
    by (simp only: feed_def) simp
  with w show ?thesis by blast
qed

text \<open>
  Capsules of unknown type and datagrams of an unknown context, any number of them and of any
  content within the size limit, are dropped without disturbing the framing: the next datagram is
  returned as if they had not been sent.
\<close>

lemma unknown_capsules_dropped:
  assumes "list_all skipped cs" and "write_datagram p = Some w" and "datagram_fits p"
  shows "read_datagram (feed (concat (map put_capsule cs) @ w) r) = Inr (p, r)"
proof -
  from assms(2,3) have "w = put_capsule (0, 0 # p)" by (simp add: write_datagram_fits)
  with assms show ?thesis by (simp add: read_datagram_skips read_written_datagram)
qed

lemma read_byte_feedD: "read_byte r = Inr (b, r') \<Longrightarrow> r = feed [b] r'"
  by (cases r) (auto simp: read_byte_def feed_def split: list.splits)

lemma read_varint_restD: "read_varint_rest n v r = Inr (w, r') \<Longrightarrow> \<exists>bs. length bs = n \<and> r = feed bs r'"
proof (induction n arbitrary: v r)
  case (Suc n)
  then obtain b r1 where "read_byte r = Inr (b, r1)"
    and "read_varint_rest n (push_bit 8 v OR ucast b) r1 = Inr (w, r')"
    by (auto split: sum.splits)
  with Suc.IH obtain bs where "length bs = n" "r1 = feed bs r'" by blast
  with read_byte_feedD [OF \<open>read_byte r = _\<close>] show ?case
    by (intro exI [of _ "b # bs"]) simp
qed (auto intro: exI [of _ "[]"])

lemma read_varintD: "read_varint r = Inr (w, r') \<Longrightarrow> \<exists>bs. bs \<noteq> [] \<and> r = feed bs r'"
  by (auto simp: read_varint_def dest!: read_byte_feedD read_varint_restD split: sum.splits)

lemma read_capsuleD:
  assumes "read_capsule r = Inr ((ctype, value), r')"
  shows "\<exists>hdr. r = feed (hdr @ value) r' \<and> 2 \<le> length hdr \<and> length value \<le> 65536"
proof -
  from assms obtain r1 clen r2 where 1: "read_varint r = Inr (ctype, r1)"
    "read_varint r1 = Inr (clen, r2)" "clen \<le> 65536" "read_full (unat clen) r2 = Inr (value, r')"
    by (auto simp: read_capsule_def max_capsule_payload_eq not_less split: sum.splits if_splits)
  from read_varintD [OF 1(1)] read_varintD [OF 1(2)] read_fullD [OF 1(4)] obtain as bs where
    "as \<noteq> []" "bs \<noteq> []" "r = feed ((as @ bs) @ value) r'" "length value = unat clen" by auto
  moreover from this(1,2) have "2 \<le> length (as @ bs)" by (cases as; cases bs) auto
  moreover have "unat clen \<le> 65536" using 1(3) by (simp add: word_le_nat_alt)
  ultimately show ?thesis by metis
qed

lemma datagram_payloadD:
  assumes "datagram_payload ctype value = Inr (Some p)"
  shows "\<exists>ctx. ctx \<noteq> [] \<and> value = ctx @ p"
proof -
  from assms obtain rd where "read_varint \<lparr>unread = value, ended = StreamEOF\<rparr> = Inr (0, rd)"
    and p: "p = drop (length value - length (unread rd)) value"
    by (auto simp: datagram_payload_def split: sum.splits if_splits)
  from read_varintD [OF this(1)] obtain bs where
    "bs \<noteq> []" "\<lparr>unread = value, ended = StreamEOF\<rparr> = feed bs rd" by blast
  then have "value = bs @ unread rd"
    by (cases rd) (simp add: feed_def)
  with p \<open>bs \<noteq> []\<close> show ?thesis by simp
qed

lemma read_datagramD:
  assumes "read_datagram r = Inr (p, r')"
  shows "length p \<le> 65535 \<and> (\<exists>hdr. r = feed (hdr @ p) r' \<and> 3 \<le> length hdr)"
  using assms
proof (induction r rule: read_datagram.induct)
  case (1 r)
  then obtain ctype body r1 where c: "read_capsule r = Inr ((ctype, body), r1)"
    by (subst (asm) (2) read_datagram.simps) (auto split: sum.splits)
  from read_capsuleD [OF c] obtain hdr where
    h: "r = feed (hdr @ body) r1" "2 \<le> length hdr" "length body \<le> 65536" by blast
  consider (skip) "datagram_payload ctype body = Inr None" "read_datagram r1 = Inr (p, r')"
    | (got) "datagram_payload ctype body = Inr (Some p)" "r1 = r'"
    using "1.prems" c by (subst (asm) read_datagram.simps) (auto split: sum.splits option.splits)
  then show ?case
  proof cases
    case skip
    from "1.IH" [OF c refl refl skip(1) refl skip(2)] obtain hdr1 where
      "length p \<le> 65535" "r1 = feed (hdr1 @ p) r'" "3 \<le> length hdr1" by blast
    with h show ?thesis by (intro conjI exI [of _ "hdr @ body @ hdr1"]) simp_all
  next
    case got
    from datagram_payloadD [OF got(1)] obtain ctx where "ctx \<noteq> []" "body = ctx @ p" by blast
    moreover from this(1) have "1 \<le> length ctx" by (cases ctx) auto
    ultimately show ?thesis
      using h got(2) by (intro conjI exI [of _ "hdr @ ctx"]) simp_all
  qed
qed

text \<open>
  Whatever bytes a peer sends, a payload the reader returns has at most 65535 bytes, stands in the
  stream as it is, directly before the bytes that remain unread, and is preceded by at least a type, a
  length and a context; the reader invents nothing and never holds more than the limit.
\<close>

lemma datagram_payload_from_stream:
  assumes "read_datagram r = Inr (p, r')"
  shows "length p \<le> 65535 \<and> (\<exists>hdr. r = feed (hdr @ p) r' \<and> 3 \<le> length hdr)"
  using assms by (rule read_datagramD)

text \<open>
  The two size limits do not agree: a datagram of 65536 bytes or more is written without an error,
  and the reader of this same codec then refuses the capsule because of its length. Up to 65535
  bytes, which covers every UDP payload, they do agree.
\<close>

lemma oversized_datagram_refused:
  assumes "65536 \<le> length p" and "length p < 2 ^ 62 - 1"
  shows "\<exists>w. write_datagram p = Some w
    \<and> read_datagram (feed w r) = Inl (CapsuleTooLong (of_nat (length p) + 1))"
proof -
  let ?n = "of_nat (Suc (length p)) :: u64"
  have n: "unat ?n = Suc (length p)"
    using assms(2) by (simp only: unat_of_nat) simp
  have "varint_fits ?n"
    unfolding varint_fits_def word_less_nat_alt n using assms(2) by simp
  moreover have "65536 < ?n"
    unfolding word_less_nat_alt n using assms(1) by simp
  ultimately have "read_capsule (feed (put_capsule (0, 0 # p)) r) = Inl (CapsuleTooLong ?n)"
    using varint.get_put_append [of 0 "put_varint ?n @ 0 # p" r]
      varint.get_put_append [of ?n "0 # p" r]
    by (simp add: read_capsule_def put_capsule_def max_capsule_payload_eq)
  then show ?thesis
    using write_datagram_capsule [OF assms(2)]
    by (subst read_datagram.simps) (simp add: add.commute)
qed

lemma oversized_datagram_refused_witness:
  "\<exists>w. write_datagram (replicate 65536 1) = Some w
     \<and> read_datagram \<lparr>unread = w, ended = StreamEOF\<rparr> = Inl (CapsuleTooLong 65537)"
proof -
  have "65536 \<le> length (replicate 65536 (1 :: u8))" "length (replicate 65536 (1 :: u8)) < 2 ^ 62 - 1"
    by (simp_all only: length_replicate) simp_all
  from oversized_datagram_refused [OF this, of "\<lparr>unread = [], ended = StreamEOF\<rparr>"]
  show ?thesis by (simp only: length_replicate feed_def) simp
qed

end
