(* ===== verification/Go_Strings.thy ===== *)
theory Go_Strings
  imports Prelude
begin

text \<open>
  The part of the Go packages \<open>strings\<close> and \<open>strconv\<close> that the program uses, on byte strings:
  prefixes and suffixes, cutting and splitting at one byte, trimming, ASCII case, decimal numbers.
  Every use of \<open>Cut\<close>, \<open>Split\<close>, \<open>Count\<close> and \<open>Trim\<close> in the program has a one-byte argument, so those are
  stated for one byte. The Unicode tables behind \<open>ToLower\<close> and \<open>EqualFold\<close>, and the IDNA profile of
  golang.org/x/net, are the fields of \<open>text_env\<close>: they are consulted only for a string that has a byte
  outside ASCII (the IDNA profile always), as in the library's own fast paths.
\<close>

record text_env =
  unicode_lower :: "string \<Rightarrow> string"
  unicode_fold_eq :: "string \<Rightarrow> string \<Rightarrow> bool"
  idna_to_ascii :: "string \<Rightarrow> string option"

section \<open>Bytes and case\<close>

definition byte_of :: "char \<Rightarrow> nat" where
  "byte_of c = of_char c"

definition is_ascii :: "string \<Rightarrow> bool" where
  "is_ascii s = list_all (\<lambda>c. byte_of c < 128) s"

definition is_digit :: "char \<Rightarrow> bool" where
  "is_digit c = (48 \<le> byte_of c \<and> byte_of c \<le> 57)"

definition digit_value :: "char \<Rightarrow> nat" where
  "digit_value c = byte_of c - 48"

definition digit_char :: "nat \<Rightarrow> char" where
  "digit_char n = ''0123456789abcdef'' ! n"

definition lower_byte :: "char \<Rightarrow> char" where
  "lower_byte c =
     (if 65 \<le> byte_of c \<and> byte_of c \<le> 90
      then ''abcdefghijklmnopqrstuvwxyz'' ! (byte_of c - 65) else c)"

definition to_lower :: "text_env \<Rightarrow> string \<Rightarrow> string" where
  "to_lower env s = (if is_ascii s then map lower_byte s else unicode_lower env s)"

definition equal_fold :: "text_env \<Rightarrow> string \<Rightarrow> string \<Rightarrow> bool" where
  "equal_fold env s t =
     (if is_ascii s \<and> is_ascii t then map lower_byte s = map lower_byte t
      else unicode_fold_eq env s t)"

section \<open>Prefixes, suffixes, trimming\<close>

definition has_prefix :: "string \<Rightarrow> string \<Rightarrow> bool" where
  "has_prefix s pre = (length pre \<le> length s \<and> take (length pre) s = pre)"

definition has_suffix :: "string \<Rightarrow> string \<Rightarrow> bool" where
  "has_suffix s suf = (length suf \<le> length s \<and> drop (length s - length suf) s = suf)"

definition trim_prefix :: "string \<Rightarrow> string \<Rightarrow> string" where
  "trim_prefix s pre = (if has_prefix s pre then drop (length pre) s else s)"

definition trim_suffix :: "string \<Rightarrow> string \<Rightarrow> string" where
  "trim_suffix s suf = (if has_suffix s suf then take (length s - length suf) s else s)"

definition cut_prefix :: "string \<Rightarrow> string \<Rightarrow> string \<times> bool" where
  "cut_prefix s pre = (if has_prefix s pre then (drop (length pre) s, True) else (s, False))"

definition trim_byte :: "char \<Rightarrow> string \<Rightarrow> string" where
  "trim_byte c s = rev (dropWhile (\<lambda>x. x = c) (rev (dropWhile (\<lambda>x. x = c) s)))"

text \<open>
  \<open>strings.TrimSpace\<close> removes the code points of \<open>unicode.IsSpace\<close>; these are their UTF-8 encodings.
\<close>

definition space_encodings :: "string list" where
  "space_encodings =
     [[CHR 0x09], [CHR 0x0A], [CHR 0x0B], [CHR 0x0C], [CHR 0x0D], [CHR 0x20],
      [CHR 0xC2, CHR 0x85], [CHR 0xC2, CHR 0xA0], [CHR 0xE1, CHR 0x9A, CHR 0x80],
      [CHR 0xE2, CHR 0x80, CHR 0x80], [CHR 0xE2, CHR 0x80, CHR 0x81],
      [CHR 0xE2, CHR 0x80, CHR 0x82], [CHR 0xE2, CHR 0x80, CHR 0x83],
      [CHR 0xE2, CHR 0x80, CHR 0x84], [CHR 0xE2, CHR 0x80, CHR 0x85],
      [CHR 0xE2, CHR 0x80, CHR 0x86], [CHR 0xE2, CHR 0x80, CHR 0x87],
      [CHR 0xE2, CHR 0x80, CHR 0x88], [CHR 0xE2, CHR 0x80, CHR 0x89],
      [CHR 0xE2, CHR 0x80, CHR 0x8A], [CHR 0xE2, CHR 0x80, CHR 0xA8],
      [CHR 0xE2, CHR 0x80, CHR 0xA9], [CHR 0xE2, CHR 0x80, CHR 0xAF],
      [CHR 0xE2, CHR 0x81, CHR 0x9F], [CHR 0xE3, CHR 0x80, CHR 0x80]]"

function trim_left_any :: "string list \<Rightarrow> string \<Rightarrow> string" where
  "trim_left_any pats s =
     (case find (\<lambda>p. p \<noteq> [] \<and> has_prefix s p) pats of
        None \<Rightarrow> s
      | Some p \<Rightarrow> trim_left_any pats (drop (length p) s))"
  by pat_completeness auto
termination
proof (relation "measure (\<lambda>(pats, s). length s)", goal_cases)
  case (2 pats s p)
  then have "p \<noteq> []" and "length p \<le> length s"
    by (auto simp: find_Some_iff has_prefix_def)
  then show ?case by (cases s) auto
qed simp

declare trim_left_any.simps [simp del]

definition trim_space :: "string \<Rightarrow> string" where
  "trim_space s =
     rev (trim_left_any (map rev space_encodings) (rev (trim_left_any space_encodings s)))"

section \<open>Cutting and splitting at one byte\<close>

fun cut_byte :: "char \<Rightarrow> string \<Rightarrow> string \<times> string \<times> bool" where
  "cut_byte c [] = ([], [], False)"
| "cut_byte c (x # xs) =
     (if x = c then ([], xs, True)
      else (case cut_byte c xs of (before, after, found) \<Rightarrow>
              if found then (x # before, after, True) else (x # xs, [], False)))"

fun split_byte :: "char \<Rightarrow> string \<Rightarrow> string list" where
  "split_byte c [] = [[]]"
| "split_byte c (x # xs) =
     (if x = c then [] # split_byte c xs
      else (case split_byte c xs of [] \<Rightarrow> [[x]] | y # ys \<Rightarrow> (x # y) # ys))"

fun join_byte :: "char \<Rightarrow> string list \<Rightarrow> string" where
  "join_byte c [] = []"
| "join_byte c [x] = x"
| "join_byte c (x # y # ys) = x @ c # join_byte c (y # ys)"

definition count_byte :: "char \<Rightarrow> string \<Rightarrow> nat" where
  "count_byte c s = length (filter (\<lambda>x. x = c) s)"

fun last_index :: "char \<Rightarrow> string \<Rightarrow> nat option" where
  "last_index c [] = None"
| "last_index c (x # xs) =
     (case last_index c xs of Some i \<Rightarrow> Some (Suc i)
      | None \<Rightarrow> if x = c then Some 0 else None)"

fun index_of :: "char \<Rightarrow> string \<Rightarrow> nat option" where
  "index_of c [] = None"
| "index_of c (x # xs) = (if x = c then Some 0 else map_option Suc (index_of c xs))"

section \<open>Decimal numbers\<close>

text \<open>
  \<open>strconv.ParseUint(s, 10, bits)\<close> for bits up to 32: its guard against overflow of the 64-bit
  accumulator is never reached there, because the accumulator stays below \<open>2 ^ bits\<close>.
\<close>

fun parse_digits :: "nat \<Rightarrow> nat \<Rightarrow> string \<Rightarrow> nat option" where
  "parse_digits limit acc [] = Some acc"
| "parse_digits limit acc (c # cs) =
     (if is_digit c
      then (let n = acc * 10 + digit_value c in
            if n < limit then parse_digits limit n cs else None)
      else None)"

definition parse_uint :: "nat \<Rightarrow> string \<Rightarrow> nat option" where
  "parse_uint bits s = (if s = [] then None else parse_digits (2 ^ bits) 0 s)"

fun show_nat :: "nat \<Rightarrow> string" where
  "show_nat n = (if n < 10 then [digit_char n] else show_nat (n div 10) @ [digit_char (n mod 10)])"

declare show_nat.simps [simp del]

definition format_int :: "int \<Rightarrow> string" where
  "format_int i = (if i < 0 then CHR ''-'' # show_nat (nat (- i)) else show_nat (nat i))"

section \<open>Evaluation\<close>

lemmas text_eval =
  is_digit_def digit_value_def byte_of_def digit_char_def show_nat.simps parse_uint_def
  to_lower_def is_ascii_def lower_byte_def trim_space_def space_encodings_def
  trim_left_any.simps has_prefix_def has_suffix_def trim_suffix_def trim_prefix_def
  cut_prefix_def trim_byte_def count_byte_def equal_fold_def format_int_def

section \<open>Facts on prefixes and suffixes\<close>

lemma has_suffix_iff [go_text]: "has_suffix s suf \<longleftrightarrow> (\<exists>p. s = p @ suf)"
proof
  assume "has_suffix s suf"
  then have "s = take (length s - length suf) s @ suf"
    unfolding has_suffix_def by (metis append_take_drop_id)
  then show "\<exists>p. s = p @ suf" by blast
qed (auto simp: has_suffix_def)

lemma has_prefix_iff [go_text]: "has_prefix s pre \<longleftrightarrow> (\<exists>t. s = pre @ t)"
proof
  assume "has_prefix s pre"
  then have "s = pre @ drop (length pre) s"
    unfolding has_prefix_def by (metis append_take_drop_id)
  then show "\<exists>t. s = pre @ t" by blast
qed (auto simp: has_prefix_def)

lemma trim_suffix_append [simp]: "trim_suffix (p @ suf) suf = p"
  by (simp add: trim_suffix_def has_suffix_def)

lemma trim_prefix_append [simp]: "trim_prefix (pre @ t) pre = t"
  by (simp add: trim_prefix_def has_prefix_def)

lemma trim_suffix_cases:
  obtains (trimmed) "s = trim_suffix s suf @ suf"
    | (kept) "trim_suffix s suf = s" "\<not> has_suffix s suf"
  by (cases "has_suffix s suf") (auto simp: has_suffix_iff trim_suffix_def)

lemma set_trim_suffix: "set (trim_suffix s suf) \<subseteq> set s"
  by (auto simp: trim_suffix_def dest: in_set_takeD)

section \<open>Facts on cutting and splitting\<close>

lemma cut_byte_foundD:
  "cut_byte c s = (a, b, True) \<Longrightarrow> s = a @ c # b \<and> c \<notin> set a"
  by (induction s arbitrary: a b) (auto split: if_splits prod.splits)

lemma cut_byte_not_foundD:
  "cut_byte c s = (a, b, False) \<Longrightarrow> a = s \<and> b = [] \<and> c \<notin> set s"
  by (induction s arbitrary: a b) (auto split: if_splits prod.splits)

lemma cut_byte_append [go_text]: "c \<notin> set a \<Longrightarrow> cut_byte c (a @ c # b) = (a, b, True)"
  by (induction a) auto

lemma cut_byte_absent [go_text]: "c \<notin> set s \<Longrightarrow> cut_byte c s = (s, [], False)"
  by (induction s) auto

lemma split_byte_not_Nil [simp]: "split_byte c s \<noteq> []"
  by (cases s) (auto split: list.splits)

lemma join_split_byte: "join_byte c (split_byte c s) = s"
proof (induction s)
  case (Cons x xs)
  then show ?case
    by (cases "split_byte c xs"; cases "tl (split_byte c xs)") (auto simp: neq_Nil_conv)
qed simp

lemma split_byte_free: "p \<in> set (split_byte c s) \<Longrightarrow> c \<notin> set p"
proof (induction s arbitrary: p)
  case (Cons x xs)
  show ?case
  proof (cases "x = c")
    case False
    obtain y ys where "split_byte c xs = y # ys"
      by (meson neq_Nil_conv split_byte_not_Nil)
    with False Cons show ?thesis by auto
  qed (use Cons in auto)
qed simp

lemma split_byte_absent: "c \<notin> set s \<Longrightarrow> split_byte c s = [s]"
  by (induction s) auto

lemma split_byte_append: "c \<notin> set a \<Longrightarrow> split_byte c (a @ c # b) = a # split_byte c b"
  by (induction a) auto

lemma split_join_byte:
  "ps \<noteq> [] \<Longrightarrow> (\<And>p. p \<in> set ps \<Longrightarrow> c \<notin> set p) \<Longrightarrow> split_byte c (join_byte c ps) = ps"
  by (induction c ps rule: join_byte.induct) (auto simp: split_byte_absent split_byte_append)

lemma length_split_byte: "length (split_byte c s) = Suc (count_byte c s)"
proof (induction s)
  case (Cons x xs)
  obtain y ys where "split_byte c xs = y # ys"
    by (meson neq_Nil_conv split_byte_not_Nil)
  with Cons show ?case by (auto simp: count_byte_def)
qed (simp add: count_byte_def)

lemma split_byte_append_sep: "split_byte c (a @ c # b) = split_byte c a @ split_byte c b"
proof (induction a)
  case (Cons x xs)
  obtain y ys where "split_byte c xs = y # ys"
    by (meson neq_Nil_conv split_byte_not_Nil)
  with Cons show ?case by auto
qed simp

lemma last_index_None [simp]: "last_index c s = None \<longleftrightarrow> c \<notin> set s"
  by (induction s) (auto split: option.splits)

lemma last_index_append [go_text]:
  "c \<notin> set b \<Longrightarrow> last_index c (a @ c # b) = Some (length a)"
proof (induction a)
  case Nil
  then have "last_index c b = None" by simp
  then show ?case by (simp split: option.split)
qed simp

lemma index_of_None [simp]: "index_of c s = None \<longleftrightarrow> c \<notin> set s"
  by (induction s) auto

lemma index_of_append [go_text]: "c \<notin> set a \<Longrightarrow> index_of c (a @ c # b) = Some (length a)"
  by (induction a) auto

lemma last_index_SomeD: "last_index c s = Some i \<Longrightarrow> i < length s \<and> s = take i s @ c # drop (Suc i) s"
proof (induction s arbitrary: i)
  case (Cons x xs)
  then show ?case by (cases "last_index c xs") (auto split: if_splits)
qed simp

lemma index_of_SomeD: "index_of c s = Some i \<Longrightarrow> i < length s \<and> s = take i s @ c # drop (Suc i) s"
proof (induction s arbitrary: i)
  case (Cons x xs)
  then show ?case by (auto split: if_splits)
qed simp

section \<open>Facts on decimal numbers\<close>

lemma digit_char_digit:
  assumes "n < 10"
  shows "is_digit (digit_char n) \<and> digit_value (digit_char n) = n"
proof -
  from assms have "n \<in> {0, 1, 2, 3, 4, 5, 6, 7, 8, 9}" by auto
  then show ?thesis by (auto simp: text_eval)
qed

lemma parse_digits_bound:
  "parse_digits limit acc s = Some n \<Longrightarrow> acc < limit \<Longrightarrow> n < limit"
  by (induction limit acc s rule: parse_digits.induct) (auto simp: Let_def split: if_splits)

lemma parse_uint_bound: "parse_uint bits s = Some n \<Longrightarrow> n < 2 ^ bits"
  by (auto simp: parse_uint_def split: if_splits dest: parse_digits_bound)

lemma parse_uint_digits: "parse_uint bits s = Some n \<Longrightarrow> s \<noteq> [] \<and> list_all is_digit s"
proof -
  have "parse_digits limit acc t = Some m \<Longrightarrow> list_all is_digit t" for limit acc t m
    by (induction limit acc t rule: parse_digits.induct) (auto simp: Let_def split: if_splits)
  then show "parse_uint bits s = Some n \<Longrightarrow> s \<noteq> [] \<and> list_all is_digit s"
    by (auto simp: parse_uint_def split: if_splits)
qed

lemma parse_digits_append:
  "parse_digits limit acc (s @ t) =
     (case parse_digits limit acc s of None \<Rightarrow> None | Some n \<Rightarrow> parse_digits limit n t)"
  by (induction limit acc s rule: parse_digits.induct) (auto simp: Let_def)

lemma show_nat_not_Nil [simp]: "show_nat n \<noteq> []"
  by (subst show_nat.simps) simp

lemma show_nat_digits: "list_all is_digit (show_nat n)"
proof (induction n rule: show_nat.induct)
  case (1 n)
  then show ?case
    by (subst show_nat.simps) (auto simp: digit_char_digit)
qed

lemma length_show_nat: "n < 10 ^ k \<Longrightarrow> 0 < k \<Longrightarrow> length (show_nat n) \<le> k"
proof (induction n arbitrary: k rule: show_nat.induct)
  case (1 n)
  show ?case
  proof (cases "n < 10")
    case True
    with "1.prems" show ?thesis by (subst show_nat.simps) simp
  next
    case False
    obtain j where k: "k = Suc j" using "1.prems" by (cases k) auto
    from k "1.prems" False have "n div 10 < 10 ^ j" "0 < j" by (cases j; simp)+
    with "1.IH" [of j] False k show ?thesis by (subst show_nat.simps) simp
  qed
qed

lemma parse_digits_show_nat: "n < limit \<Longrightarrow> parse_digits limit 0 (show_nat n) = Some n"
proof (induction n rule: show_nat.induct)
  case (1 n)
  show ?case
  proof (cases "n < 10")
    case True
    with 1 show ?thesis by (subst show_nat.simps) (simp add: digit_char_digit)
  next
    case False
    with 1 have "parse_digits limit 0 (show_nat (n div 10)) = Some (n div 10)" by simp
    moreover have "n div 10 * 10 + n mod 10 = n" by simp
    ultimately show ?thesis using False 1
      by (subst show_nat.simps) (simp add: parse_digits_append digit_char_digit Let_def)
  qed
qed

lemma parse_uint_show_nat [go_text]: "n < 2 ^ bits \<Longrightarrow> parse_uint bits (show_nat n) = Some n"
  by (simp add: parse_uint_def parse_digits_show_nat)

lemma digit_not_special:
  assumes "list_all is_digit s"
  shows "CHR ''.'' \<notin> set s" "CHR '':'' \<notin> set s" "CHR ''['' \<notin> set s" "CHR '']'' \<notin> set s"
    "CHR ''-'' \<notin> set s" "CHR ''/'' \<notin> set s" "CHR ''%'' \<notin> set s"
  using assms by (auto simp: list_all_iff text_eval)

text \<open>The environment of the witnesses, for which every name is ASCII.\<close>

definition ascii_env :: text_env where
  "ascii_env = \<lparr>unicode_lower = (\<lambda>s. s), unicode_fold_eq = (=), idna_to_ascii = Some\<rparr>"

end
