(* ===== verification/Net_Addr.thy ===== *)
theory Net_Addr
  imports Go_Strings
begin

text \<open>
  The Go package \<open>net/netip\<close> and the host:port functions of \<open>net\<close>, as far as the program uses them:
  addresses, their text forms, prefixes, the classifiers (loopback, multicast, private, ...), and
  \<open>SplitHostPort\<close>/\<open>JoinHostPort\<close>. An \<open>Addr\<close> is invalid, IPv4, or IPv6 with a zone (empty for none);
  equality of the datatype is Go's \<open>==\<close> on \<open>Addr\<close>. The parsers follow the library's scanning loops.
\<close>

datatype ip_addr = IPInvalid | IP4 u32 | IP6 u128 string

fun is4 :: "ip_addr \<Rightarrow> bool" where
  "is4 (IP4 _) = True"
| "is4 _ = False"

fun is6 :: "ip_addr \<Rightarrow> bool" where
  "is6 (IP6 _ _) = True"
| "is6 _ = False"

fun zone_of :: "ip_addr \<Rightarrow> string" where
  "zone_of (IP6 _ z) = z"
| "zone_of _ = []"

fun is4in6 :: "ip_addr \<Rightarrow> bool" where
  "is4in6 (IP6 w _) = (drop_bit 32 w = 0xFFFF)"
| "is4in6 _ = False"

fun unmap :: "ip_addr \<Rightarrow> ip_addr" where
  "unmap (IP6 w z) = (if is4in6 (IP6 w z) then IP4 (ucast w) else IP6 w z)"
| "unmap a = a"

fun bit_len :: "ip_addr \<Rightarrow> nat" where
  "bit_len IPInvalid = 0"
| "bit_len (IP4 _) = 32"
| "bit_len (IP6 _ _) = 128"

fun next_addr :: "ip_addr \<Rightarrow> ip_addr" where
  "next_addr IPInvalid = IPInvalid"
| "next_addr (IP4 w) = (if w + 1 = 0 then IPInvalid else IP4 (w + 1))"
| "next_addr (IP6 w z) = (if w + 1 = 0 then IPInvalid else IP6 (w + 1) z)"

section \<open>Classifiers\<close>

fun is_loopback :: "ip_addr \<Rightarrow> bool" where
  "is_loopback IPInvalid = False"
| "is_loopback (IP4 w) = (drop_bit 24 w = 127)"
| "is_loopback (IP6 w z) =
     (if is4in6 (IP6 w z) then drop_bit 24 (ucast w :: u32) = 127 else w = 1)"

definition multicast4 :: "u32 \<Rightarrow> bool" where
  "multicast4 w = (drop_bit 24 w AND 0xF0 = 0xE0)"

fun is_multicast :: "ip_addr \<Rightarrow> bool" where
  "is_multicast IPInvalid = False"
| "is_multicast (IP4 w) = multicast4 w"
| "is_multicast (IP6 w z) =
     (if is4in6 (IP6 w z) then multicast4 (ucast w) else drop_bit 120 w = 0xFF)"

definition link_local4 :: "u32 \<Rightarrow> bool" where
  "link_local4 w = (drop_bit 24 w = 169 \<and> drop_bit 16 w AND 0xFF = 254)"

fun is_link_local_unicast :: "ip_addr \<Rightarrow> bool" where
  "is_link_local_unicast IPInvalid = False"
| "is_link_local_unicast (IP4 w) = link_local4 w"
| "is_link_local_unicast (IP6 w z) =
     (if is4in6 (IP6 w z) then link_local4 (ucast w) else drop_bit 112 w AND 0xFFC0 = 0xFE80)"

definition private4 :: "u32 \<Rightarrow> bool" where
  "private4 w = (drop_bit 24 w = 10
     \<or> (drop_bit 24 w = 172 \<and> drop_bit 16 w AND 0xF0 = 16)
     \<or> (drop_bit 24 w = 192 \<and> drop_bit 16 w AND 0xFF = 168))"

fun is_private :: "ip_addr \<Rightarrow> bool" where
  "is_private IPInvalid = False"
| "is_private (IP4 w) = private4 w"
| "is_private (IP6 w z) =
     (if is4in6 (IP6 w z) then private4 (ucast w) else drop_bit 120 w AND 0xFE = 0xFC)"

definition is_global_unicast :: "ip_addr \<Rightarrow> bool" where
  "is_global_unicast a =
     (a \<noteq> IPInvalid \<and> a \<noteq> IP4 0 \<and> a \<noteq> IP4 0xFFFFFFFF \<and> a \<noteq> IP6 0 []
      \<and> \<not> is_loopback a \<and> \<not> is_multicast a \<and> \<not> is_link_local_unicast a)"

section \<open>Prefixes\<close>

text \<open>
  A \<open>Prefix\<close> is an address without zone and its length plus one; zero there marks an invalid prefix.
\<close>

datatype ip_prefix = Prefix (prefix_ip: ip_addr) (bits_plus_one: nat)

definition without_zone :: "ip_addr \<Rightarrow> ip_addr" where
  "without_zone a = (case a of IP6 w z \<Rightarrow> IP6 w [] | _ \<Rightarrow> a)"

definition prefix_valid :: "ip_prefix \<Rightarrow> bool" where
  "prefix_valid p = (bits_plus_one p > 0)"

definition prefix_bits :: "ip_prefix \<Rightarrow> int" where
  "prefix_bits p = int (bits_plus_one p) - 1"

definition prefix_from :: "ip_addr \<Rightarrow> int \<Rightarrow> ip_prefix" where
  "prefix_from a bits =
     Prefix (without_zone a)
       (if a \<noteq> IPInvalid \<and> 0 \<le> bits \<and> bits \<le> int (bit_len a) then nat bits + 1 else 0)"

fun same_prefix_bits :: "nat \<Rightarrow> ip_addr \<Rightarrow> ip_addr \<Rightarrow> bool" where
  "same_prefix_bits n (IP4 a) (IP4 b) = (drop_bit (32 - n) (a XOR b) = 0)"
| "same_prefix_bits n (IP6 a _) (IP6 b _) = (drop_bit (128 - n) (a XOR b) = 0)"
| "same_prefix_bits n _ _ = False"

definition prefix_contains :: "ip_prefix \<Rightarrow> ip_addr \<Rightarrow> bool" where
  "prefix_contains p a =
     (prefix_valid p \<and> zone_of a = [] \<and> same_prefix_bits (bits_plus_one p - 1) (prefix_ip p) a)"

fun mask_addr :: "nat \<Rightarrow> ip_addr \<Rightarrow> ip_addr" where
  "mask_addr n IPInvalid = IPInvalid"
| "mask_addr n (IP4 w) = IP4 (push_bit (32 - n) (drop_bit (32 - n) w))"
| "mask_addr n (IP6 w z) = IP6 (push_bit (128 - n) (drop_bit (128 - n) w)) z"

definition masked :: "ip_prefix \<Rightarrow> ip_prefix" where
  "masked p =
     (if prefix_valid p then Prefix (mask_addr (bits_plus_one p - 1) (prefix_ip p)) (bits_plus_one p)
      else Prefix IPInvalid 0)"

section \<open>Parsing addresses\<close>

text \<open>
  \<open>parseIPv4Fields\<close>: the flag says that no digit of the current octet has been read; octets are
  collected in order.
\<close>

fun parse_ipv4_fields :: "bool \<Rightarrow> nat \<Rightarrow> nat \<Rightarrow> nat list \<Rightarrow> string \<Rightarrow> nat list option" where
  "parse_ipv4_fields start val dig_len octs [] =
     (if length octs < 3 then None else Some (octs @ [val]))"
| "parse_ipv4_fields start val dig_len octs (c # cs) =
     (if is_digit c
      then (if dig_len = 1 \<and> val = 0 then None
            else (let v = val * 10 + digit_value c in
                  if v > 255 then None
                  else parse_ipv4_fields False v (dig_len + 1) octs cs))
      else if c = CHR ''.''
      then (if start \<or> cs = [] then None
            else if length octs = 3 then None
            else parse_ipv4_fields True 0 0 (octs @ [val]) cs)
      else None)"

definition big_endian :: "nat \<Rightarrow> nat list \<Rightarrow> nat" where
  "big_endian base ds = foldl (\<lambda>n d. n * base + d) 0 ds"

definition parse_ipv4 :: "string \<Rightarrow> ip_addr option" where
  "parse_ipv4 s =
     map_option (\<lambda>fs. IP4 (of_nat (big_endian 256 fs))) (parse_ipv4_fields True 0 0 [] s)"

definition hex_value :: "char \<Rightarrow> nat option" where
  "hex_value c = (let b = byte_of c in
     if 48 \<le> b \<and> b \<le> 57 then Some (b - 48)
     else if 97 \<le> b \<and> b \<le> 102 then Some (b - 87)
     else if 65 \<le> b \<and> b \<le> 70 then Some (b - 55)
     else None)"

fun scan_hex :: "nat \<Rightarrow> nat \<Rightarrow> string \<Rightarrow> (nat \<times> nat \<times> string) option" where
  "scan_hex off acc [] = Some (acc, off, [])"
| "scan_hex off acc (c # cs) =
     (case hex_value c of
        None \<Rightarrow> Some (acc, off, c # cs)
      | Some d \<Rightarrow>
          (let acc' = acc * 16 + d in
           if off > 3 then None else if acc' > 65535 then None else scan_hex (off + 1) acc' cs))"

text \<open>
  The loop of \<open>parseIPv6\<close>: the bytes read so far, the position of the ellipsis, the text left. The
  result is the state at the loop's exit.
\<close>

function parse_ipv6_loop ::
  "nat list \<Rightarrow> nat option \<Rightarrow> string \<Rightarrow> (nat list \<times> nat option \<times> string) option" where
  "parse_ipv6_loop ip ell s =
     (if length ip < 16 then
        (case scan_hex 0 0 s of
           None \<Rightarrow> None
         | Some (acc, off, rest) \<Rightarrow>
             if off = 0 then None
             else if rest \<noteq> [] \<and> hd rest = CHR ''.'' then
               (if ell = None \<and> length ip \<noteq> 12 then None
                else if length ip + 4 > 16 then None
                else (case parse_ipv4_fields True 0 0 [] s of
                        None \<Rightarrow> None
                      | Some fs \<Rightarrow> Some (ip @ fs, ell, [])))
             else
               (let ip' = ip @ [acc div 256, acc mod 256] in
                case rest of
                  [] \<Rightarrow> Some (ip', ell, [])
                | c # rest1 \<Rightarrow>
                    if c \<noteq> CHR '':'' then None
                    else (case rest1 of
                            [] \<Rightarrow> None
                          | c2 # rest2 \<Rightarrow>
                              if c2 = CHR '':'' then
                                (if ell \<noteq> None then None
                                 else if rest2 = [] then Some (ip', Some (length ip'), [])
                                 else parse_ipv6_loop ip' (Some (length ip')) rest2)
                              else parse_ipv6_loop ip' ell rest1)))
      else Some (ip, ell, s))"
  by pat_completeness auto
termination
  by (relation "measure (\<lambda>(ip, ell, s). 16 - length ip)") auto

declare parse_ipv6_loop.simps [simp del]

definition parse_ipv6_body :: "string \<Rightarrow> nat list option" where
  "parse_ipv6_body s0 =
     (let lead = (has_prefix s0 ''::'');
          s = (if lead then drop 2 s0 else s0);
          ell = (if lead then Some 0 else None) in
      if lead \<and> s = [] then Some (replicate 16 0)
      else
        (case parse_ipv6_loop [] ell s of
           None \<Rightarrow> None
         | Some (ip, ell', rest) \<Rightarrow>
             if rest \<noteq> [] then None
             else if length ip < 16 then
               (case ell' of
                  None \<Rightarrow> None
                | Some e \<Rightarrow> Some (take e ip @ replicate (16 - length ip) 0 @ drop e ip))
             else if ell' \<noteq> None then None
             else Some ip))"

definition parse_ipv6 :: "string \<Rightarrow> ip_addr option" where
  "parse_ipv6 text =
     (case cut_byte (CHR ''%'') text of (s, zone, has_zone) \<Rightarrow>
        if has_zone \<and> zone = [] then None
        else map_option (\<lambda>ip. IP6 (of_nat (big_endian 256 ip)) zone) (parse_ipv6_body s))"

fun addr_family :: "string \<Rightarrow> char option" where
  "addr_family [] = None"
| "addr_family (c # cs) =
     (if c = CHR ''.'' \<or> c = CHR '':'' \<or> c = CHR ''%'' then Some c else addr_family cs)"

definition parse_addr :: "string \<Rightarrow> ip_addr option" where
  "parse_addr s =
     (case addr_family s of
        None \<Rightarrow> None
      | Some c \<Rightarrow>
          if c = CHR ''.'' then parse_ipv4 s
          else if c = CHR '':'' then parse_ipv6 s
          else None)"

definition parse_prefix_text :: "string \<Rightarrow> ip_prefix option" where
  "parse_prefix_text s =
     (case last_index (CHR ''/'') s of
        None \<Rightarrow> None
      | Some i \<Rightarrow>
          (case parse_addr (take i s) of
             None \<Rightarrow> None
           | Some a \<Rightarrow>
               if zone_of a \<noteq> [] then None
               else
                 (let bits_text = drop (i + 1) s in
                  if length bits_text > 1 \<and> \<not> (is_digit (hd bits_text) \<and> hd bits_text \<noteq> CHR ''0'')
                  then None
                  else
                    (case parse_uint 31 bits_text of
                       None \<Rightarrow> None
                     | Some bits \<Rightarrow>
                         if bits > bit_len a then None else Some (prefix_from a (int bits))))))"

definition must_parse_prefix :: "string \<Rightarrow> ip_prefix" where
  "must_parse_prefix s =
     (case parse_prefix_text s of None \<Rightarrow> Prefix IPInvalid 0 | Some p \<Rightarrow> p)"

section \<open>Printing addresses\<close>

definition show_ipv4 :: "u32 \<Rightarrow> string" where
  "show_ipv4 w =
     show_nat (unat (drop_bit 24 w)) @ CHR ''.''
       # show_nat (unat (drop_bit 16 w) mod 256) @ CHR ''.''
       # show_nat (unat (drop_bit 8 w) mod 256) @ CHR ''.''
       # show_nat (unat w mod 256)"

fun show_hex :: "nat \<Rightarrow> string" where
  "show_hex n = (if n < 16 then [digit_char n] else show_hex (n div 16) @ [digit_char (n mod 16)])"

declare show_hex.simps [simp del]

definition group16 :: "u128 \<Rightarrow> nat \<Rightarrow> nat" where
  "group16 w i = unat (drop_bit (112 - 16 * i) w) mod 65536"

fun zero_run :: "nat list \<Rightarrow> nat" where
  "zero_run [] = 0"
| "zero_run (g # gs) = (if g = 0 then Suc (zero_run gs) else 0)"

text \<open>
  The first longest run of at least two zero groups, as start and end; 255 and 255 when there is none.
\<close>

fun best_run :: "nat \<Rightarrow> nat \<Rightarrow> nat \<Rightarrow> nat list \<Rightarrow> nat \<times> nat" where
  "best_run i zs ze [] = (zs, ze)"
| "best_run i zs ze (g # gs) =
     (let l = zero_run (g # gs) in
      if l \<ge> 2 \<and> l > ze - zs then best_run (Suc i) i (i + l) gs else best_run (Suc i) zs ze gs)"

definition colon_join :: "nat list \<Rightarrow> string" where
  "colon_join gs = join_byte (CHR '':'') (map show_hex gs)"

definition show_ipv6 :: "u128 \<Rightarrow> string" where
  "show_ipv6 w =
     (let gs = map (group16 w) [0..<8];
          (zs, ze) = best_run 0 255 255 gs in
      if zs = 255 then colon_join gs
      else colon_join (take zs gs) @ ''::'' @ colon_join (drop ze gs))"

definition show_zone :: "string \<Rightarrow> string" where
  "show_zone z = (if z = [] then [] else CHR ''%'' # z)"

fun show_addr :: "ip_addr \<Rightarrow> string" where
  "show_addr IPInvalid = ''invalid IP''"
| "show_addr (IP4 w) = show_ipv4 w"
| "show_addr (IP6 w z) =
     (if is4in6 (IP6 w z) then ''::ffff:'' @ show_ipv4 (ucast w) @ show_zone z
      else show_ipv6 w @ show_zone z)"

section \<open>Host and port\<close>

definition join_host_port :: "string \<Rightarrow> string \<Rightarrow> string" where
  "join_host_port host port =
     (if CHR '':'' \<in> set host then CHR ''['' # host @ '']:'' @ port
      else host @ CHR '':'' # port)"

definition split_host_port :: "string \<Rightarrow> (string \<times> string) option" where
  "split_host_port hp =
     (case last_index (CHR '':'') hp of
        None \<Rightarrow> None
      | Some i \<Rightarrow>
          if hd hp = CHR ''['' then
            (case index_of (CHR '']'') hp of
               None \<Rightarrow> None
             | Some e \<Rightarrow>
                 if e + 1 \<noteq> i then None
                 else if CHR ''['' \<in> set (drop 1 hp) then None
                 else if CHR '']'' \<in> set (drop (e + 1) hp) then None
                 else Some (drop 1 (take e hp), drop (i + 1) hp))
          else if CHR '':'' \<in> set (take i hp) then None
          else if CHR ''['' \<in> set hp then None
          else if CHR '']'' \<in> set hp then None
          else Some (take i hp, drop (i + 1) hp))"

section \<open>Evaluation\<close>

lemmas net_eval =
  text_eval parse_addr_def parse_ipv4_def parse_ipv6_def parse_ipv6_body_def
  parse_ipv6_loop.simps hex_value_def big_endian_def parse_prefix_text_def prefix_from_def
  without_zone_def must_parse_prefix_def replicate_numeral_Cons prefix_contains_def
  prefix_valid_def prefix_bits_def masked_def

lemmas show_eval =
  text_eval show_ipv4_def show_hex.simps group16_def colon_join_def show_ipv6_def show_zone_def
  join_host_port_def split_host_port_def upt_rec

section \<open>Unmapping and zones\<close>

lemma unmap_not_mapped [simp, net_addr]: "\<not> is4in6 (unmap a)"
  by (cases a) auto

lemma unmap_idem [simp]: "unmap (unmap a) = unmap a"
  by (cases a) auto

lemma zone_of_unmap: "zone_of (unmap a) = (if is4in6 a then [] else zone_of a)"
  by (cases a) auto

lemma without_zone_unmap: "zone_of a = [] \<Longrightarrow> without_zone (unmap a) = unmap a"
  by (cases a) (auto simp: without_zone_def)

section \<open>Prefix containment\<close>

lemma same_prefix_bits_iff [net_addr]:
  "same_prefix_bits n (IP4 a) (IP4 b) \<longleftrightarrow> drop_bit (32 - n) a = drop_bit (32 - n) b"
  "same_prefix_bits n (IP6 x z) (IP6 y z') \<longleftrightarrow> drop_bit (128 - n) x = drop_bit (128 - n) y"
  by (simp_all add: drop_bit_xor_eq_0_iff del: drop_bit_xor)

declare same_prefix_bits.simps(1,2) [simp del]
declare same_prefix_bits_iff [simp]

lemma same_prefix_bits_refl: "a \<noteq> IPInvalid \<Longrightarrow> same_prefix_bits n a a"
  by (cases a) auto

lemma same_prefix_bits_trans:
  assumes "same_prefix_bits m r p" and "same_prefix_bits n p a" and "m \<le> n"
  shows "same_prefix_bits m r a"
proof (cases p)
  case (IP4 w)
  with assms obtain u v where "r = IP4 u" "a = IP4 v"
    by (cases r; cases a) auto
  with IP4 assms drop_bit_eq_mono [of "32 - n" w v "32 - m"] show ?thesis by auto
next
  case (IP6 w z)
  with assms obtain u v z1 z2 where "r = IP6 u z1" "a = IP6 v z2"
    by (cases r; cases a) auto
  with IP6 assms drop_bit_eq_mono [of "128 - n" w v "128 - m"] show ?thesis by auto
qed (use assms in \<open>cases r; auto\<close>)

lemma prefix_contains_mono:
  assumes "prefix_contains r (prefix_ip p)" and "bits_plus_one r \<le> bits_plus_one p"
    and "prefix_contains p a"
  shows "prefix_contains r a"
  using assms same_prefix_bits_trans [of "bits_plus_one r - 1" "prefix_ip r" "prefix_ip p"
      "bits_plus_one p - 1" a]
  by (auto simp: prefix_contains_def prefix_valid_def)

lemma prefix_contains_family:
  "prefix_contains p a \<Longrightarrow> is4 (prefix_ip p) = is4 a \<and> is6 (prefix_ip p) = is6 a"
  by (cases "prefix_ip p"; cases a) (auto simp: prefix_contains_def)

lemma same_prefix_bits_mask:
  "n \<le> bit_len p \<Longrightarrow> same_prefix_bits n (mask_addr n p) a = same_prefix_bits n p a"
  by (cases p; cases a) auto

lemma prefix_contains_masked [net_addr]:
  assumes "bits_plus_one p \<le> Suc (bit_len (prefix_ip p))"
  shows "prefix_contains (masked p) a = prefix_contains p a"
proof (cases "prefix_valid p")
  case True
  then have "bits_plus_one p - 1 \<le> bit_len (prefix_ip p)"
    using assms by (auto simp: prefix_valid_def)
  from same_prefix_bits_mask [OF this] True show ?thesis
    by (simp add: prefix_contains_def masked_def prefix_valid_def)
qed (simp add: prefix_contains_def masked_def prefix_valid_def)

section \<open>Text round trips\<close>

lemma show_nat_octet:
  assumes "v < 256"
  shows "\<exists>k. parse_ipv4_fields True 0 0 octs (show_nat v @ rest)
    = parse_ipv4_fields False v k octs rest"
proof -
  note digit = digit_char_digit [THEN conjunct1] digit_char_digit [THEN conjunct2]
  consider "v < 10" | "10 \<le> v" "v < 100" | "100 \<le> v" by linarith
  then show ?thesis
  proof cases
    case 1
    then have "show_nat v = [digit_char v]" by (simp add: show_nat.simps)
    with 1 show ?thesis by (auto simp: digit)
  next
    case 2
    then have "show_nat v = [digit_char (v div 10), digit_char (v mod 10)]"
      by (simp add: show_nat.simps)
    moreover have "v div 10 \<noteq> 0" "v div 10 < 10" using 2 by auto
    ultimately show ?thesis using 2 by (auto simp: digit)
  next
    case 3
    let ?d2 = "digit_char (v div 10 mod 10)"
    have "\<not> v < 10" "\<not> v div 10 < 10" "v div 10 div 10 = v div 100" "v div 100 < 10"
      using 3 assms by (simp_all add: div_mult2_eq [symmetric])
    then have "show_nat v = [digit_char (v div 100), ?d2, digit_char (v mod 10)]"
      by (simp add: show_nat.simps)
    moreover have "v div 100 \<noteq> 0" "v div 100 < 10"
      using 3 assms by auto
    moreover have "v div 100 * 10 + v div 10 mod 10 = v div 10"
      using div_mult_mod_eq [of "v div 10" 10] by (simp add: div_mult2_eq [symmetric])
    ultimately show ?thesis using 3 assms by (auto simp: digit Let_def)
  qed
qed

lemma show_nat_octet_dot:
  assumes "v < 256" and "length octs < 3" and "rest \<noteq> []"
  shows "parse_ipv4_fields True 0 0 octs (show_nat v @ CHR ''.'' # rest)
    = parse_ipv4_fields True 0 0 (octs @ [v]) rest"
  using show_nat_octet [OF assms(1), of octs "CHR ''.'' # rest"] assms(2,3)
  by (auto simp: text_eval)

lemma show_nat_octet_end:
  assumes "v < 256" and "length octs = 3"
  shows "parse_ipv4_fields True 0 0 octs (show_nat v) = Some (octs @ [v])"
  using show_nat_octet [OF assms(1), of octs "[]"] assms(2) by auto

lemma octets_of_word:
  fixes w :: u32
  shows "((unat (drop_bit 24 w) * 256 + unat (drop_bit 16 w) mod 256) * 256
    + unat (drop_bit 8 w) mod 256) * 256 + unat w mod 256 = unat w"
proof -
  have "unat (drop_bit 24 w) = unat w div 256 div 256 div 256"
    "unat (drop_bit 16 w) = unat w div 256 div 256" "unat (drop_bit 8 w) = unat w div 256"
    by (simp_all add: unat_drop_bit div_mult2_eq [symmetric])
  then show ?thesis by (metis div_mult_mod_eq)
qed

lemma parse_ipv4_show: "parse_ipv4 (show_ipv4 w) = Some (IP4 w)"
proof -
  let ?a = "unat (drop_bit 24 w)" and ?b = "unat (drop_bit 16 w) mod 256"
  let ?c = "unat (drop_bit 8 w) mod 256" and ?d = "unat w mod 256"
  have "?a < 256"
  proof -
    have "?a = unat w div 2 ^ 24" by (rule unat_drop_bit)
    moreover have "unat w < 2 ^ 32" using unsigned_less [of w, where 'a = nat] by simp
    ultimately show ?thesis by (simp add: less_mult_imp_div_less)
  qed
  then have "parse_ipv4_fields True 0 0 [] (show_ipv4 w) = Some [?a, ?b, ?c, ?d]"
    by (simp add: show_ipv4_def show_nat_octet_dot show_nat_octet_end)
  moreover have "big_endian 256 [?a, ?b, ?c, ?d] = unat w"
    using octets_of_word [of w] by (simp add: big_endian_def)
  ultimately show ?thesis by (simp add: parse_ipv4_def)
qed

lemma show_nat_no_colon: "set (show_nat n) \<subseteq> {c. is_digit c}"
  using show_nat_digits [of n] by (auto simp: list_all_iff)

lemma set_show_ipv4: "set (show_ipv4 w) \<subseteq> insert (CHR ''.'') {c. is_digit c}"
  using show_nat_no_colon by (auto simp: show_ipv4_def)

lemma addr_family_digits:
  "list_all is_digit ds \<Longrightarrow> addr_family (ds @ CHR ''.'' # rest) = Some (CHR ''.'')"
  by (induction ds) (auto simp: text_eval)

lemma parse_addr_show_ipv4 [net_addr]: "parse_addr (show_ipv4 w) = Some (IP4 w)"
proof -
  have "addr_family (show_ipv4 w) = Some (CHR ''.'')"
    unfolding show_ipv4_def by (rule addr_family_digits [OF show_nat_digits])
  then show ?thesis by (simp add: parse_addr_def parse_ipv4_show)
qed

lemma split_host_port_Some:
  assumes "split_host_port hp = Some (host, port)"
  shows "hp = host @ CHR '':'' # port \<and> CHR '':'' \<notin> set host \<or> hp = CHR ''['' # host @ '']:'' @ port"
proof -
  from assms obtain i where i: "last_index (CHR '':'') hp = Some i"
    by (auto simp: split_host_port_def split: option.splits)
  note colon = last_index_SomeD [OF i]
  show ?thesis
  proof (cases "hd hp = CHR ''[''")
    case False
    with assms i have "host = take i hp" "port = drop (i + 1) hp" "CHR '':'' \<notin> set host"
      by (auto simp: split_host_port_def split: if_splits)
    with colon show ?thesis by simp
  next
    case True
    with assms i obtain e where e: "index_of (CHR '']'') hp = Some e" "e + 1 = i"
      and parts: "host = drop 1 (take e hp)" "port = drop (i + 1) hp"
      by (auto simp: split_host_port_def split: option.splits if_splits)
    obtain rest where hp: "hp = CHR ''['' # rest" using True colon by (cases hp) auto
    obtain k where k: "e = Suc k" using index_of_SomeD [OF e(1)] hp by (cases e) auto
    have "hp = CHR ''['' # take k rest @ CHR '']'' # drop (Suc k) rest"
      using index_of_SomeD [OF e(1)] hp k by simp
    moreover have "drop (Suc k) rest = CHR '':'' # port"
      using colon hp k e(2) parts(2) by (metis Cons_nth_drop_Suc Suc_eq_plus1 drop_Suc_Cons id_take_nth_drop nth_via_drop append_eq_append_conv_if)
    ultimately show ?thesis using parts(1) hp k by simp
  qed
qed

lemma split_join_host_port [net_addr]:
  assumes "CHR ''['' \<notin> set h" "CHR '']'' \<notin> set h"
    and "CHR ''['' \<notin> set p" "CHR '']'' \<notin> set p" "CHR '':'' \<notin> set p"
  shows "split_host_port (join_host_port h p) = Some (h, p)"
proof (cases "CHR '':'' \<in> set h")
  case True
  have "last_index (CHR '':'') ((CHR ''['' # h @ [CHR '']'']) @ CHR '':'' # p)
      = Some (length (CHR ''['' # h @ [CHR '']'']))"
    by (rule last_index_append) (use assms in auto)
  moreover have "index_of (CHR '']'') ((CHR ''['' # h) @ CHR '']'' # CHR '':'' # p)
      = Some (length (CHR ''['' # h))"
    by (rule index_of_append) (use assms in auto)
  ultimately show ?thesis using True assms
    by (simp add: join_host_port_def split_host_port_def)
next
  case False
  have "last_index (CHR '':'') (h @ CHR '':'' # p) = Some (length h)"
    by (rule last_index_append) (use assms in auto)
  moreover have "hd (h @ CHR '':'' # p) \<noteq> CHR ''[''"
    using assms by (cases h) auto
  ultimately show ?thesis using False assms
    by (simp add: join_host_port_def split_host_port_def)
qed

end
