(* ===== verification/Name_Store.thy ===== *)
theory Name_Store
  imports Net_Addr
begin

text \<open>
  What the forwarder relies on in the resolver that invents addresses for names: an interface with two
  operations, looking an address up for a name and recovering the name of an address, whose laws say
  that a recovered name is the one the address was invented for and that an address is never bound
  to a second name. The consequences for any later state are proved here once.
\<close>

inductive store_step ::
  "('s \<Rightarrow> string \<Rightarrow> bool \<Rightarrow> ('e + ip_addr) \<times> 's) \<Rightarrow> ('s \<Rightarrow> ip_addr \<Rightarrow> string option \<times> 's)
    \<Rightarrow> 's \<Rightarrow> 's \<Rightarrow> bool"
  for lookup :: "'s \<Rightarrow> string \<Rightarrow> bool \<Rightarrow> ('e + ip_addr) \<times> 's"
    and recover :: "'s \<Rightarrow> ip_addr \<Rightarrow> string option \<times> 's"
where
  by_lookup: "store_step lookup recover s (snd (lookup s name v6))"
| by_recover: "store_step lookup recover s (snd (recover s a))"

inductive_cases store_stepE: "store_step lookup recover s s'"

definition store_later ::
  "('s \<Rightarrow> string \<Rightarrow> bool \<Rightarrow> ('e + ip_addr) \<times> 's) \<Rightarrow> ('s \<Rightarrow> ip_addr \<Rightarrow> string option \<times> 's)
    \<Rightarrow> 's \<Rightarrow> 's \<Rightarrow> bool" where
  "store_later lookup recover = (store_step lookup recover)\<^sup>*\<^sup>*"

locale name_store =
  fixes valid :: "'s \<Rightarrow> bool"
    and issued :: "'s \<Rightarrow> ip_addr \<Rightarrow> bool"
    and lookup :: "'s \<Rightarrow> string \<Rightarrow> bool \<Rightarrow> ('e + ip_addr) \<times> 's"
    and recover :: "'s \<Rightarrow> ip_addr \<Rightarrow> string option \<times> 's"
    and canon :: "string \<Rightarrow> string"
  assumes lookup_valid: "valid s \<Longrightarrow> valid (snd (lookup s name v6))"
    and recover_valid: "valid s \<Longrightarrow> valid (snd (recover s a))"
    and lookup_issued: "valid s \<Longrightarrow> lookup s name v6 = (Inr a, s')
      \<Longrightarrow> issued s' a \<and> fst (recover s' a) = Some (canon name)"
    and lookup_keeps_issued: "valid s \<Longrightarrow> issued s a \<Longrightarrow> issued (snd (lookup s name v6)) a"
    and recover_keeps_issued: "valid s \<Longrightarrow> issued s a \<Longrightarrow> issued (snd (recover s b)) a"
    and lookup_keeps: "valid s \<Longrightarrow> issued s a
      \<Longrightarrow> fst (recover (snd (lookup s name v6)) a) \<in> {None, fst (recover s a)}"
    and recover_keeps: "valid s \<Longrightarrow> fst (recover (snd (recover s b)) a) = fst (recover s a)"
begin

lemma step_keeps:
  assumes "store_step lookup recover s s'" and "valid s"
  shows "valid s' \<and> (issued s a \<longrightarrow> issued s' a \<and> fst (recover s' a) \<in> {None, fst (recover s a)})"
  using assms
  by (cases rule: store_step.cases)
     (use lookup_valid recover_valid lookup_keeps_issued recover_keeps_issued lookup_keeps recover_keeps
      in auto)

lemma later_valid: "store_later lookup recover s s' \<Longrightarrow> valid s \<Longrightarrow> valid s'"
  unfolding store_later_def
  by (induction rule: rtranclp_induct) (use step_keeps in blast)+

lemma later_keeps:
  assumes "store_later lookup recover s s'" and "valid s" and "issued s a"
  shows "issued s' a \<and> fst (recover s' a) \<in> {None, fst (recover s a)}"
  using assms(1) unfolding store_later_def
proof (induction rule: rtranclp_induct)
  case base
  with assms(3) show ?case by simp
next
  case (step t u)
  from later_valid [of s t] step.hyps(1) assms(2) have "valid t" by (simp add: store_later_def)
  with step_keeps [OF step.hyps(2), of a] step.IH show ?case by auto
qed

text \<open>An address, once invented, leads to its own name or to none, and is never given to another name.\<close>

lemma never_reassigned:
  assumes "valid s" and "lookup s name v6 = (Inr a, s1)" and "store_later lookup recover s1 s2"
  shows "fst (recover s2 a) \<in> {None, Some (canon name)}"
    and "lookup s2 name' v6' = (Inr a, s3) \<Longrightarrow> canon name' = canon name"
proof -
  have s1: "valid s1" using lookup_valid [OF assms(1), of name v6] assms(2) by simp
  note got = lookup_issued [OF assms(1,2)]
  note kept = later_keeps [OF assms(3) s1, of a]
  show r: "fst (recover s2 a) \<in> {None, Some (canon name)}" using got kept by auto
  assume again: "lookup s2 name' v6' = (Inr a, s3)"
  have s2: "valid s2" using later_valid [OF assms(3) s1] .
  have "fst (recover s3 a) \<in> {None, fst (recover s2 a)}"
    using lookup_keeps [OF s2, of a name' v6'] got kept again by simp
  with lookup_issued [OF s2 again] r show "canon name' = canon name" by auto
qed

end

end
