(* ===== verification/Virtual_DNS.thy ===== *)
theory Virtual_DNS
  imports Name_Store
begin

text \<open>
  The resolver of sdk/pkg/tun2connect/dns.go: synthetic addresses, name preservation and bounded
  memory. A list element of the source is its binding (a binding is never written after it is made
  and its address is unique, so the pointer and the pair carry the same identity); \<open>fam_order\<close> is the
  recency list, most recent first. The mutex makes each operation one step. The DNS message library
  is a parameter: a parser of the first question and a packer of the response.
\<close>

section \<open>State\<close>

definition v4_pool :: ip_prefix where "v4_pool = must_parse_prefix ''100.64.0.0/10''"
definition v6_pool :: ip_prefix where "v6_pool = must_parse_prefix ''100::/64''"
definition v4_reserved :: ip_prefix where "v4_reserved = must_parse_prefix ''100.127.255.0/24''"
definition v6_reserved :: ip_prefix where
  "v6_reserved = must_parse_prefix ''100::ffff:ffff:ffff:ff00/120''"

definition max_synthetic_names :: nat where "max_synthetic_names = 65536"

text \<open>A \<open>time.Duration\<close> is a number of nanoseconds.\<close>

definition second :: int where "second = 1000000000"
definition default_ttl :: int where "default_ttl = 30 * second"

datatype resolve_error = EmptyName | PoolExhausted

record binding =
  b_name :: string
  b_addr :: ip_addr

record family =
  fam_pool :: ip_prefix
  fam_reserved :: ip_prefix
  fam_last :: ip_addr
  fam_names :: "string \<Rightarrow> binding option"
  fam_order :: "binding list"

record virtual_dns =
  dns_ttl :: int
  dns_v4 :: family
  dns_v6 :: family
  dns_reverse :: "ip_addr \<Rightarrow> binding option"

definition new_family :: "ip_prefix \<Rightarrow> ip_prefix \<Rightarrow> family" where
  "new_family pool reserved =
     \<lparr>fam_pool = pool, fam_reserved = reserved, fam_last = prefix_ip pool,
      fam_names = (\<lambda>_. None), fam_order = []\<rparr>"

definition new_virtual_dns :: virtual_dns where
  "new_virtual_dns =
     \<lparr>dns_ttl = default_ttl, dns_v4 = new_family v4_pool v4_reserved,
      dns_v6 = new_family v6_pool v6_reserved, dns_reverse = (\<lambda>_. None)\<rparr>"

definition canonical :: "text_env \<Rightarrow> string \<Rightarrow> string" where
  "canonical env name = to_lower env (trim_suffix name ''.'')"

definition family_of :: "bool \<Rightarrow> virtual_dns \<Rightarrow> family" where
  "family_of v6 d = (if v6 then dns_v6 d else dns_v4 d)"

definition set_family :: "bool \<Rightarrow> family \<Rightarrow> virtual_dns \<Rightarrow> virtual_dns" where
  "set_family v6 f d = (if v6 then d\<lparr>dns_v6 := f\<rparr> else d\<lparr>dns_v4 := f\<rparr>)"

text \<open>\<open>MoveToFront\<close> leaves a list alone that the element is not in.\<close>

definition move_to_front :: "binding \<Rightarrow> binding list \<Rightarrow> binding list" where
  "move_to_front b order = (if b \<in> set order then b # remove1 b order else order)"

section \<open>Operations\<close>

definition touch_binding :: "bool \<Rightarrow> binding \<Rightarrow> virtual_dns \<Rightarrow> virtual_dns" where
  "touch_binding v6 b d =
     (let f = family_of v6 d in
      set_family v6 (f\<lparr>fam_order := move_to_front b (fam_order f)\<rparr>) d)"

definition evict_oldest :: "bool \<Rightarrow> virtual_dns \<Rightarrow> virtual_dns" where
  "evict_oldest v6 d =
     (let f = family_of v6 d in
      if length (fam_order f) \<ge> max_synthetic_names then
        (let evicted = last (fam_order f) in
         (set_family v6 (f\<lparr>fam_names := (fam_names f)(b_name evicted := None),
                           fam_order := remove1 evicted (fam_order f)\<rparr>) d)
           \<lparr>dns_reverse := (dns_reverse d)(b_addr evicted := None)\<rparr>)
      else d)"

definition bind_address :: "bool \<Rightarrow> string \<Rightarrow> ip_addr \<Rightarrow> virtual_dns \<Rightarrow> virtual_dns" where
  "bind_address v6 name addr d =
     (let f = family_of v6 d; b = \<lparr>b_name = name, b_addr = addr\<rparr> in
      (set_family v6 (f\<lparr>fam_last := addr, fam_order := b # fam_order f,
                        fam_names := (fam_names f)(name \<mapsto> b)\<rparr>) d)
        \<lparr>dns_reverse := (dns_reverse d)(addr \<mapsto> b)\<rparr>)"

definition resolve ::
  "text_env \<Rightarrow> virtual_dns \<Rightarrow> string \<Rightarrow> bool \<Rightarrow> (resolve_error + ip_addr) \<times> virtual_dns" where
  "resolve env d raw v6 =
     (let name = canonical env raw; f = family_of v6 d in
      if name = [] then (Inl EmptyName, d)
      else
        (case fam_names f name of
           Some b \<Rightarrow> (Inr (b_addr b), touch_binding v6 b d)
         | None \<Rightarrow>
             (let addr = next_addr (fam_last f) in
              if \<not> prefix_contains (fam_pool f) addr \<or> prefix_contains (fam_reserved f) addr
              then (Inl PoolExhausted, d)
              else (Inr addr, bind_address v6 name addr (evict_oldest v6 d)))))"

definition resolve4 :: "text_env \<Rightarrow> virtual_dns \<Rightarrow> string \<Rightarrow> (resolve_error + ip_addr) \<times> virtual_dns" where
  "resolve4 env d name = resolve env d name False"

definition resolve6 :: "text_env \<Rightarrow> virtual_dns \<Rightarrow> string \<Rightarrow> (resolve_error + ip_addr) \<times> virtual_dns" where
  "resolve6 env d name = resolve env d name True"

definition reverse :: "virtual_dns \<Rightarrow> ip_addr \<Rightarrow> string option \<times> virtual_dns" where
  "reverse d addr =
     (case dns_reverse d (unmap addr) of
        None \<Rightarrow> (None, d)
      | Some b \<Rightarrow> (Some (b_name b), touch_binding (is6 (b_addr b)) b d))"

section \<open>Answering queries\<close>

record dns_header =
  h_id :: u16
  h_opcode :: nat
  h_recursion_desired :: bool

record dns_question =
  q_name :: string
  q_type :: u16
  q_class :: u16

record dns_response =
  r_id :: u16
  r_opcode :: nat
  r_authoritative :: bool
  r_recursion_desired :: bool
  r_recursion_available :: bool
  r_rcode :: nat
  r_question :: dns_question
  r_answer :: "(u32 \<times> ip_addr) option"

definition type_a :: u16 where "type_a = 1"
definition type_aaaa :: u16 where "type_aaaa = 28"
definition class_inet :: u16 where "class_inet = 1"
definition rcode_success :: nat where "rcode_success = 0"
definition rcode_server_failure :: nat where "rcode_server_failure = 2"

text \<open>Go's integer division rounds towards zero.\<close>

definition go_div :: "int \<Rightarrow> int \<Rightarrow> int" where
  "go_div a b = (if a < 0 then - ((- a) div b) else a div b)"

definition ttl_seconds :: "int \<Rightarrow> u32" where
  "ttl_seconds ttl = of_int (min (max (go_div ttl second) 0) 2147483647)"

text \<open>The outcome of the question: the response code, the answer's address and the new state.\<close>

definition answer_question ::
  "text_env \<Rightarrow> virtual_dns \<Rightarrow> dns_question \<Rightarrow> nat \<times> ip_addr option \<times> virtual_dns" where
  "answer_question env d q =
     (if q_class q \<noteq> class_inet then (rcode_success, None, d)
      else if q_type q = type_a then
        (case resolve4 env d (q_name q) of
           (Inr a, d1) \<Rightarrow> (rcode_success, Some a, d1)
         | (Inl e, d1) \<Rightarrow> (rcode_server_failure, None, d1))
      else if q_type q = type_aaaa then
        (case resolve6 env d (q_name q) of
           (Inr a, d1) \<Rightarrow> (rcode_success, Some a, d1)
         | (Inl e, d1) \<Rightarrow> (rcode_server_failure, None, d1))
      else (rcode_success, None, d))"

definition handle_query ::
  "text_env \<Rightarrow> (bytes \<Rightarrow> (dns_header \<times> dns_question) option) \<Rightarrow> (dns_response \<Rightarrow> bytes option)
    \<Rightarrow> virtual_dns \<Rightarrow> bytes \<Rightarrow> bytes option \<times> virtual_dns" where
  "handle_query env parse pack d query =
     (case parse query of
        None \<Rightarrow> (None, d)
      | Some (hdr, q) \<Rightarrow>
          (case answer_question env d q of
             (rcode, addr, d1) \<Rightarrow>
               (pack \<lparr>r_id = h_id hdr, r_opcode = h_opcode hdr, r_authoritative = True,
                      r_recursion_desired = h_recursion_desired hdr,
                      r_recursion_available = True, r_rcode = rcode, r_question = q,
                      r_answer = map_option (\<lambda>a. (ttl_seconds (dns_ttl d), a)) addr\<rparr>, d1)))"

section \<open>Pools\<close>

text \<open>The addresses of a family in counting order.\<close>

definition in_family :: "bool \<Rightarrow> ip_addr \<Rightarrow> bool" where
  "in_family v6 a = (case a of IPInvalid \<Rightarrow> False | IP4 _ \<Rightarrow> \<not> v6 | IP6 _ z \<Rightarrow> v6 \<and> z = [])"

definition addr_index :: "ip_addr \<Rightarrow> nat" where
  "addr_index a = (case a of IPInvalid \<Rightarrow> 0 | IP4 w \<Rightarrow> unat w | IP6 w _ \<Rightarrow> unat w)"

definition pool_of :: "bool \<Rightarrow> ip_prefix" where
  "pool_of v6 = (if v6 then v6_pool else v4_pool)"

definition reserved_of :: "bool \<Rightarrow> ip_prefix" where
  "reserved_of v6 = (if v6 then v6_reserved else v4_reserved)"

text \<open>What may be handed out: the pool without its reserved top.\<close>

definition assignable :: "bool \<Rightarrow> ip_addr \<Rightarrow> bool" where
  "assignable v6 a = (prefix_contains (pool_of v6) a \<and> \<not> prefix_contains (reserved_of v6) a)"

lemma pool_values:
  "v4_pool = Prefix (IP4 0x64400000) 11"
  "v6_pool = Prefix (IP6 0x01000000000000000000000000000000 []) 65"
  "v4_reserved = Prefix (IP4 0x647FFF00) 25"
  "v6_reserved = Prefix (IP6 0x0100000000000000FFFFFFFFFFFFFF00 []) 121"
  by (simp_all add: v4_pool_def v6_pool_def v4_reserved_def v6_reserved_def net_eval)

lemma assignable_in_family: "assignable v6 a \<Longrightarrow> in_family v6 a"
  by (cases a; cases v6)
     (auto simp: assignable_def pool_of_def pool_values prefix_contains_def in_family_def)

lemma in_family_is6: "in_family v6 a \<Longrightarrow> is6 a = v6"
  by (cases a) (auto simp: in_family_def)

lemma in_family_unmap_v4: "in_family False a \<Longrightarrow> unmap a = a"
  by (cases a) (auto simp: in_family_def)

lemma addr_index_inj: "in_family v6 a \<Longrightarrow> in_family v6 b \<Longrightarrow> addr_index a = addr_index b \<Longrightarrow> a = b"
  by (cases a; cases b) (auto simp: in_family_def addr_index_def word_unat_eq_iff)

lemma unat_plus_one: "w + 1 \<noteq> 0 \<Longrightarrow> unat (w + 1 :: 'a::len word) = unat w + 1"
  using unatSuc [of w] by (simp add: add.commute)

lemma next_addr_index:
  "in_family v6 a \<Longrightarrow> next_addr a \<noteq> IPInvalid
    \<Longrightarrow> in_family v6 (next_addr a) \<and> addr_index (next_addr a) = addr_index a + 1"
  by (cases a) (auto simp: in_family_def addr_index_def unat_plus_one split: if_splits)

lemma assignable_not_invalid: "assignable v6 a \<Longrightarrow> a \<noteq> IPInvalid"
  by (auto simp: assignable_def prefix_contains_def)

lemma assignable_v6_not_mapped: "assignable True a \<Longrightarrow> unmap a = a"
proof (cases a)
  case (IP6 w z)
  assume "assignable True a"
  then have top: "drop_bit 64 w = 0x0100000000000000"
    using IP6 drop_bit_xor_eq_0_iff [of 64 "0x01000000000000000000000000000000" w]
    by (simp add: assignable_def pool_of_def pool_values prefix_contains_def)
  have "drop_bit 32 w \<noteq> 0xFFFF"
  proof
    assume "drop_bit 32 w = 0xFFFF"
    then have "drop_bit 32 (drop_bit 32 w) = drop_bit 32 0xFFFF" by simp
    with top show False by (simp add: drop_bit_drop_bit)
  qed
  with IP6 show ?thesis by simp
qed simp_all

lemma assignable_unmap [simp]: "assignable v6 a \<Longrightarrow> unmap a = a"
  by (cases v6) (auto intro: assignable_v6_not_mapped in_family_unmap_v4 assignable_in_family)

section \<open>Invariant\<close>

definition family_wf :: "bool \<Rightarrow> family \<Rightarrow> bool" where
  "family_wf v6 f =
     (fam_pool f = pool_of v6 \<and> fam_reserved f = reserved_of v6 \<and> in_family v6 (fam_last f)
      \<and> (\<forall>n b. fam_names f n = Some b \<longleftrightarrow> b \<in> set (fam_order f) \<and> b_name b = n)
      \<and> distinct (map b_name (fam_order f)) \<and> distinct (map b_addr (fam_order f))
      \<and> list_all (\<lambda>b. b_name b \<noteq> [] \<and> assignable v6 (b_addr b)
                      \<and> addr_index (b_addr b) \<le> addr_index (fam_last f)) (fam_order f)
      \<and> length (fam_order f) \<le> max_synthetic_names)"

definition dns_wf :: "virtual_dns \<Rightarrow> bool" where
  "dns_wf d =
     (family_wf False (dns_v4 d) \<and> family_wf True (dns_v6 d)
      \<and> (\<forall>a b. dns_reverse d a = Some b
           \<longleftrightarrow> b \<in> set (fam_order (dns_v4 d)) \<union> set (fam_order (dns_v6 d)) \<and> b_addr b = a))"

lemma family_of_set_family [simp]:
  "family_of v6 (set_family v6 f d) = f"
  "family_of (\<not> v6) (set_family v6 f d) = family_of (\<not> v6) d"
  "dns_reverse (set_family v6 f d) = dns_reverse d"
  "dns_ttl (set_family v6 f d) = dns_ttl d"
  "family_of v6 (d\<lparr>dns_reverse := m\<rparr>) = family_of v6 d"
  by (simp_all add: family_of_def set_family_def)

lemma family_of_set_family_if:
  "family_of u (set_family v6 f d) = (if u = v6 then f else family_of u d)"
  by (simp add: family_of_def set_family_def)

text \<open>The invariant read for either family, and its reverse map as one fact.\<close>

lemma dns_wf_iff:
  "dns_wf d \<longleftrightarrow> (\<forall>v6. family_wf v6 (family_of v6 d))
     \<and> (\<forall>a b. dns_reverse d a = Some b
           \<longleftrightarrow> (\<exists>v6. b \<in> set (fam_order (family_of v6 d))) \<and> b_addr b = a)"
  by (auto simp: dns_wf_def family_of_def all_bool_eq ex_bool_eq)

lemma family_wf_member:
  assumes "family_wf v6 f" and "b \<in> set (fam_order f)"
  shows "b_name b \<noteq> []" and "assignable v6 (b_addr b)"
    and "addr_index (b_addr b) \<le> addr_index (fam_last f)"
    and "fam_names f (b_name b) = Some b"
  using assms by (auto simp: family_wf_def list_all_iff)

lemma family_by_address:
  assumes "family_wf u f" and "family_wf v g" and "b \<in> set (fam_order f)" and "c \<in> set (fam_order g)"
    and "b_addr b = b_addr c"
  shows "u = v"
  using assms family_wf_member(2) assignable_in_family in_family_is6 by metis

lemma new_virtual_dns_wf: "dns_wf new_virtual_dns"
  by (simp add: dns_wf_def family_wf_def new_virtual_dns_def new_family_def pool_of_def
      reserved_of_def in_family_def pool_values)

lemma set_move_to_front [simp]: "set (move_to_front b order) = set order"
  by (auto simp: move_to_front_def dest: notin_set_remove1 intro: in_set_remove1 [THEN iffD2])

lemma length_move_to_front [simp]: "length (move_to_front b order) = length order"
  using length_pos_if_in_set [of b order] by (auto simp: move_to_front_def length_remove1)

lemma distinct_map_remove1: "distinct (map f xs) \<Longrightarrow> distinct (map f (remove1 x xs))"
  by (meson distinct_map inj_on_subset set_remove1_subset distinct_remove1)

lemma distinct_map_move_to_front:
  "distinct (map f order) \<Longrightarrow> distinct (map f (move_to_front b order))"
  by (auto simp: move_to_front_def distinct_map inj_on_def)

lemma touch_binding_simps:
  "family_of u (touch_binding v6 b d)
     = (if u = v6 then (family_of v6 d)\<lparr>fam_order := move_to_front b (fam_order (family_of v6 d))\<rparr>
        else family_of u d)"
  "dns_reverse (touch_binding v6 b d) = dns_reverse d"
  by (simp_all add: touch_binding_def Let_def family_of_set_family_if)

lemma family_wf_touch:
  "family_wf v6 f \<Longrightarrow> family_wf v6 (f\<lparr>fam_order := move_to_front b (fam_order f)\<rparr>)"
  by (auto simp: family_wf_def distinct_map_move_to_front list_all_iff)

lemma touch_binding_wf: "dns_wf d \<Longrightarrow> dns_wf (touch_binding v6 b d)"
  unfolding dns_wf_iff by (auto simp: touch_binding_simps family_wf_touch split: if_splits)

lemma reverse_wf: "dns_wf d \<Longrightarrow> dns_wf (snd (reverse d a))"
  by (auto simp: reverse_def touch_binding_wf split: option.split)

section \<open>Allocation keeps the invariant\<close>

lemma evict_oldest_simps:
  assumes "max_synthetic_names \<le> length (fam_order (family_of v6 d))"
  defines "e \<equiv> last (fam_order (family_of v6 d))"
  shows "family_of u (evict_oldest v6 d)
      = (if u = v6 then (family_of v6 d)\<lparr>fam_names := (fam_names (family_of v6 d))(b_name e := None),
                          fam_order := remove1 e (fam_order (family_of v6 d))\<rparr>
         else family_of u d)"
    and "dns_reverse (evict_oldest v6 d) = (dns_reverse d)(b_addr e := None)"
  using assms(1) by (simp_all add: evict_oldest_def e_def Let_def family_of_set_family_if)

lemma evict_oldest_id:
  "length (fam_order (family_of v6 d)) < max_synthetic_names \<Longrightarrow> evict_oldest v6 d = d"
  by (simp add: evict_oldest_def Let_def)

lemma evict_oldest_last [simp]: "fam_last (family_of u (evict_oldest v6 d)) = fam_last (family_of u d)"
  by (simp add: evict_oldest_def Let_def family_of_set_family_if)

lemma family_wf_drop:
  assumes "family_wf v6 f" and "e \<in> set (fam_order f)"
  shows "family_wf v6 (f\<lparr>fam_names := (fam_names f)(b_name e := None),
                         fam_order := remove1 e (fam_order f)\<rparr>)"
proof -
  have d: "distinct (map b_name (fam_order f))" "distinct (fam_order f)"
    using assms(1) by (auto simp: family_wf_def distinct_map)
  have "b_name b = b_name e \<longleftrightarrow> b = e" if "b \<in> set (fam_order f)" for b
    using d(1) that assms(2) by (auto simp: distinct_map inj_on_def)
  with assms d show ?thesis
    by (auto simp: family_wf_def distinct_map_remove1 list_all_iff length_remove1
        dest: set_remove1_subset [THEN subsetD])
qed

lemma max_synthetic_names_pos: "0 < max_synthetic_names"
  by (simp add: max_synthetic_names_def)

lemma evict_oldest_wf:
  assumes "dns_wf d"
  shows "dns_wf (evict_oldest v6 d)"
    and "length (fam_order (family_of v6 (evict_oldest v6 d))) < max_synthetic_names"
proof -
  let ?f = "family_of v6 d"
  have wf: "family_wf u (family_of u d)" for u using assms by (simp add: dns_wf_iff)
  have "dns_wf (evict_oldest v6 d)
    \<and> length (fam_order (family_of v6 (evict_oldest v6 d))) < max_synthetic_names"
  proof (cases "length (fam_order ?f) < max_synthetic_names")
    case True
    with assms show ?thesis by (simp add: evict_oldest_id)
  next
    case False
    define e where "e = last (fam_order ?f)"
    have full: "max_synthetic_names \<le> length (fam_order ?f)" using False by simp
    then have ne: "fam_order ?f \<noteq> []" using max_synthetic_names_pos by auto
    then have e: "e \<in> set (fam_order ?f)" by (simp add: e_def)
    have dist: "distinct (fam_order u)" if "family_wf v u" for u v
      using that by (auto simp: family_wf_def distinct_map)
    have addr: "b_addr b = b_addr e \<longleftrightarrow> b = e" if "b \<in> set (fam_order (family_of u d))" for b u
    proof (cases "u = v6")
      case True
      with wf [of v6] e that show ?thesis by (auto simp: family_wf_def distinct_map inj_on_def)
    next
      case False
      with family_by_address [OF wf wf that e] show ?thesis by auto
    qed
    note s = evict_oldest_simps [OF full, folded e_def]
    have "family_wf u (family_of u (evict_oldest v6 d))" for u
      using wf family_wf_drop [OF wf e] by (simp add: s)
    moreover have "dns_reverse (evict_oldest v6 d) a = Some b
        \<longleftrightarrow> (\<exists>u. b \<in> set (fam_order (family_of u (evict_oldest v6 d)))) \<and> b_addr b = a" for a b
    proof -
      have "b \<in> set (fam_order (family_of u (evict_oldest v6 d)))
          \<longleftrightarrow> b \<in> set (fam_order (family_of u d)) \<and> b \<noteq> e" for u
        using dist [OF wf] e family_by_address [OF wf wf _ e refl, of u]
        by (cases "u = v6") (auto simp: s(1))
      moreover have "dns_reverse d a = Some b
          \<longleftrightarrow> (\<exists>u. b \<in> set (fam_order (family_of u d))) \<and> b_addr b = a"
        using assms by (simp add: dns_wf_iff)
      ultimately show ?thesis using addr by (auto simp: s(2))
    qed
    moreover have "length (fam_order (family_of v6 (evict_oldest v6 d))) < max_synthetic_names"
    proof -
      have "length (fam_order ?f) \<le> max_synthetic_names" "0 < length (fam_order ?f)"
        using wf [of v6] ne by (auto simp: family_wf_def)
      then have "length (fam_order ?f) - 1 < max_synthetic_names" by linarith
      then show ?thesis using e by (simp add: s(1) length_remove1)
    qed
    ultimately show ?thesis by (simp add: dns_wf_iff)
  qed
  then show "dns_wf (evict_oldest v6 d)"
    and "length (fam_order (family_of v6 (evict_oldest v6 d))) < max_synthetic_names" by auto
qed

lemma bind_address_simps:
  "family_of u (bind_address v6 name addr d)
     = (if u = v6 then (family_of v6 d)\<lparr>fam_last := addr,
            fam_order := \<lparr>b_name = name, b_addr = addr\<rparr> # fam_order (family_of v6 d),
            fam_names := (fam_names (family_of v6 d))(name \<mapsto> \<lparr>b_name = name, b_addr = addr\<rparr>)\<rparr>
        else family_of u d)"
  "dns_reverse (bind_address v6 name addr d)
     = (dns_reverse d)(addr \<mapsto> \<lparr>b_name = name, b_addr = addr\<rparr>)"
  by (simp_all add: bind_address_def Let_def family_of_set_family_if)

text \<open>An address above every address of its family is in no list.\<close>

lemma fresh_address:
  assumes "dns_wf d" and "assignable v6 a" and "addr_index (fam_last (family_of v6 d)) < addr_index a"
    and "b \<in> set (fam_order (family_of u d))"
  shows "b_addr b \<noteq> a"
proof
  assume eq: "b_addr b = a"
  have wf: "family_wf u (family_of u d)" using assms(1) by (simp add: dns_wf_iff)
  from family_wf_member(2) [OF wf assms(4)] eq assms(2) have "u = v6"
    by (metis assignable_in_family in_family_is6)
  with family_wf_member(3) [OF wf assms(4)] eq assms(3) show False by simp
qed

lemma bind_address_wf:
  assumes "dns_wf d" and "length (fam_order (family_of v6 d)) < max_synthetic_names"
    and "assignable v6 a" and "addr_index (fam_last (family_of v6 d)) < addr_index a"
    and "name \<noteq> []" and "fam_names (family_of v6 d) name = None"
  shows "dns_wf (bind_address v6 name a d)"
proof -
  let ?b = "\<lparr>b_name = name, b_addr = a\<rparr>"
  have wf: "family_wf u (family_of u d)" for u using assms(1) by (simp add: dns_wf_iff)
  have fresh: "b_addr b \<noteq> a" if "b \<in> set (fam_order (family_of u d))" for b u
    using fresh_address [OF assms(1,3,4) that] .
  have new: "b_name b \<noteq> name" if "b \<in> set (fam_order (family_of v6 d))" for b
    using family_wf_member(4) [OF wf that] assms(6) by auto
  have "family_wf u (family_of u (bind_address v6 name a d))" for u
  proof (cases "u = v6")
    case True
    have "?b \<notin> set (fam_order (family_of v6 d))" using fresh by fastforce
    with True wf [of v6] assms(2-6) fresh new assignable_in_family [OF assms(3)] show ?thesis
      by (auto simp: bind_address_simps family_wf_def list_all_iff)
  next
    case False
    with wf show ?thesis by (simp add: bind_address_simps)
  qed
  moreover have "dns_reverse (bind_address v6 name a d) x = Some b
      \<longleftrightarrow> (\<exists>u. b \<in> set (fam_order (family_of u (bind_address v6 name a d)))) \<and> b_addr b = x" for x b
  proof -
    have "(\<exists>u. b \<in> set (fam_order (family_of u (bind_address v6 name a d))))
        \<longleftrightarrow> b = ?b \<or> (\<exists>u. b \<in> set (fam_order (family_of u d)))"
    proof -
      have "b \<in> set (fam_order (family_of u (bind_address v6 name a d)))
          \<longleftrightarrow> u = v6 \<and> b = ?b \<or> b \<in> set (fam_order (family_of u d))" for u
        by (simp add: bind_address_simps(1))
      then show ?thesis by blast
    qed
    moreover have "dns_reverse d x = Some b
        \<longleftrightarrow> (\<exists>u. b \<in> set (fam_order (family_of u d))) \<and> b_addr b = x"
      using assms(1) by (simp add: dns_wf_iff)
    ultimately show ?thesis using fresh by (cases "x = a") (auto simp: bind_address_simps(2))
  qed
  ultimately show ?thesis by (simp add: dns_wf_iff)
qed

lemma next_assignable:
  assumes "family_wf v6 f" and "prefix_contains (fam_pool f) (next_addr (fam_last f))"
    and "\<not> prefix_contains (fam_reserved f) (next_addr (fam_last f))"
  shows "assignable v6 (next_addr (fam_last f))"
    and "addr_index (next_addr (fam_last f)) = addr_index (fam_last f) + 1"
proof -
  show a: "assignable v6 (next_addr (fam_last f))"
    using assms by (simp add: assignable_def family_wf_def)
  show "addr_index (next_addr (fam_last f)) = addr_index (fam_last f) + 1"
    using next_addr_index assignable_not_invalid [OF a] assms(1) by (auto simp: family_wf_def)
qed

lemma evict_oldest_new_name:
  "fam_names (family_of v6 d) name = None
    \<Longrightarrow> fam_names (family_of v6 (evict_oldest v6 d)) name = None"
  by (simp add: evict_oldest_def Let_def family_of_set_family_if)

text \<open>The three outcomes of a resolution.\<close>

lemma resolve_cases:
  assumes "dns_wf d" and "resolve env d raw v6 = (res, d')"
  obtains (error) e where "res = Inl e" and "d' = d"
  | (known) b where "res = Inr (b_addr b)" and "b \<in> set (fam_order (family_of v6 d))"
      and "b_name b = canonical env raw" and "d' = touch_binding v6 b d"
  | (new) a where "res = Inr a" and "a = next_addr (fam_last (family_of v6 d))" and "assignable v6 a"
      and "addr_index a = addr_index (fam_last (family_of v6 d)) + 1"
      and "canonical env raw \<noteq> []" and "fam_names (family_of v6 d) (canonical env raw) = None"
      and "d' = bind_address v6 (canonical env raw) a (evict_oldest v6 d)"
proof -
  have wf: "family_wf v6 (family_of v6 d)" using assms(1) by (simp add: dns_wf_iff)
  let ?f = "family_of v6 d" and ?n = "canonical env raw"
  let ?a = "next_addr (fam_last ?f)"
  show ?thesis
  proof (cases "?n = []")
    case True
    with assms(2) show ?thesis by (intro error [of EmptyName]) (simp_all add: resolve_def)
  next
    case named: False
    show ?thesis
    proof (cases "fam_names ?f ?n")
      case (Some b)
      with wf named assms(2) show ?thesis
        by (intro known [of b]) (auto simp: resolve_def family_wf_def)
    next
      case None
      show ?thesis
      proof (cases "prefix_contains (fam_pool ?f) ?a \<and> \<not> prefix_contains (fam_reserved ?f) ?a")
        case True
        then have "res = Inr ?a" and "d' = bind_address v6 ?n ?a (evict_oldest v6 d)"
          using None named assms(2) by (simp_all add: resolve_def Let_def)
        with True next_assignable [OF wf] named None show ?thesis
          by (intro new [OF _ refl]) simp_all
      next
        case False
        with None named assms(2) show ?thesis
          by (intro error [of PoolExhausted]) (auto simp: resolve_def Let_def)
      qed
    qed
  qed
qed

lemma resolve_wf:
  assumes "dns_wf d"
  shows "dns_wf (snd (resolve env d raw v6))"
proof -
  obtain res d' where r: "resolve env d raw v6 = (res, d')" by fastforce
  from assms r show ?thesis
  proof (cases rule: resolve_cases)
    case (new a)
    then have "dns_wf d'"
      using evict_oldest_wf [OF assms] evict_oldest_new_name
      by (auto intro!: bind_address_wf)
    with r show ?thesis by simp
  qed (use r assms touch_binding_wf in auto)
qed

section \<open>Names are preserved\<close>

definition issued :: "virtual_dns \<Rightarrow> ip_addr \<Rightarrow> bool" where
  "issued d a =
     (list_ex (\<lambda>v6. assignable v6 a \<and> addr_index a \<le> addr_index (fam_last (family_of v6 d)))
        [False, True])"

lemma issuedI: "assignable v6 a \<Longrightarrow> addr_index a \<le> addr_index (fam_last (family_of v6 d)) \<Longrightarrow> issued d a"
  by (cases v6) (auto simp: issued_def)

lemma assignable_unique: "assignable u a \<Longrightarrow> assignable v a \<Longrightarrow> u = v"
  using assignable_in_family in_family_is6 by metis

lemma issued_iff:
  "assignable v6 a \<Longrightarrow> issued d a \<longleftrightarrow> addr_index a \<le> addr_index (fam_last (family_of v6 d))"
  using assignable_unique [of v6 a] by (cases v6) (auto simp: issued_def)

lemma fst_reverse: "fst (reverse d a) = map_option b_name (dns_reverse d (unmap a))"
  by (simp add: reverse_def split: option.split)

lemma snd_reverse: "dns_reverse (snd (reverse d a)) = dns_reverse d"
  "fam_last (family_of v6 (snd (reverse d a))) = fam_last (family_of v6 d)"
  by (simp_all add: reverse_def touch_binding_simps split: option.split)

lemma evict_oldest_reverse: "dns_reverse (evict_oldest v6 d) x \<in> {None, dns_reverse d x}"
  by (simp add: evict_oldest_def Let_def)

lemma resolve_last:
  assumes "dns_wf d"
  shows "addr_index (fam_last (family_of u d)) \<le> addr_index (fam_last (family_of u (snd (resolve env d raw v6))))"
proof -
  obtain res d' where r: "resolve env d raw v6 = (res, d')" by fastforce
  from assms r show ?thesis
    by (cases rule: resolve_cases) (auto simp: r touch_binding_simps bind_address_simps)
qed

lemma resolve_reverse:
  assumes "dns_wf d" and "issued d x"
  shows "dns_reverse (snd (resolve env d raw v6)) x \<in> {None, dns_reverse d x}"
proof -
  obtain res d' where r: "resolve env d raw v6 = (res, d')" by fastforce
  from assms(1) r show ?thesis
  proof (cases rule: resolve_cases)
    case (new a)
    have "x \<noteq> a"
      using assms(2) new(3,4) issued_iff [OF new(3)] by auto
    with new r evict_oldest_reverse [of v6 d x] show ?thesis by (simp add: bind_address_simps(2))
  qed (simp_all add: r touch_binding_simps)
qed

lemma resolve_issued:
  assumes "dns_wf d" and "resolve env d raw v6 = (Inr a, d')"
  shows "assignable v6 a" and "issued d' a" and "fst (reverse d' a) = Some (canonical env raw)"
proof -
  have wf: "family_wf v6 (family_of v6 d)" using assms(1) by (simp add: dns_wf_iff)
  from assms have "assignable v6 a \<and> issued d' a \<and> fst (reverse d' a) = Some (canonical env raw)"
  proof (cases rule: resolve_cases)
    case (known b)
    have b: "assignable v6 (b_addr b)" "addr_index (b_addr b) \<le> addr_index (fam_last (family_of v6 d))"
      using family_wf_member [OF wf known(2)] by simp_all
    have "dns_reverse d (b_addr b) = Some b" using assms(1) known(2) by (auto simp: dns_wf_iff)
    with b known show ?thesis
      by (auto intro!: issuedI [of v6] simp: fst_reverse touch_binding_simps)
  next
    case (new a')
    then show ?thesis
      by (auto intro!: issuedI [of v6] simp: fst_reverse bind_address_simps)
  qed simp
  then show "assignable v6 a" and "issued d' a" and "fst (reverse d' a) = Some (canonical env raw)"
    by auto
qed

lemma issued_unmap: "issued d a \<Longrightarrow> unmap a = a"
  by (auto simp: issued_def)

interpretation dns: name_store dns_wf issued "resolve env" reverse "canonical env" for env
proof unfold_locales
  fix d name v6 a d'
  assume wf: "dns_wf d"
  show "dns_wf (snd (resolve env d name v6))" by (rule resolve_wf [OF wf])
  show "dns_wf (snd (reverse d a))" by (rule reverse_wf [OF wf])
  show "issued (snd (resolve env d name v6)) a" if "issued d a"
  proof -
    from that obtain u where u: "assignable u a" "addr_index a \<le> addr_index (fam_last (family_of u d))"
      by (auto simp: issued_def)
    with resolve_last [OF wf, of u env name v6] show ?thesis by (intro issuedI [of u]) auto
  qed
  show "issued (snd (reverse d b)) a" if "issued d a" for b
    using that by (simp add: issued_def snd_reverse)
  show "fst (reverse (snd (resolve env d name v6)) a) \<in> {None, fst (reverse d a)}" if "issued d a"
    using resolve_reverse [OF wf that, of env name v6] issued_unmap [OF that] by (auto simp: fst_reverse)
  show "fst (reverse (snd (reverse d b)) a) = fst (reverse d a)" for b
    by (simp add: fst_reverse snd_reverse)
  show "issued d' a \<and> fst (reverse d' a) = Some (canonical env name)"
    if "resolve env d name v6 = (Inr a, d')"
    using resolve_issued [OF wf that] by simp
qed

section \<open>What is remembered\<close>

datatype dns_op = Lookup string bool | Recover ip_addr

fun dns_apply :: "text_env \<Rightarrow> virtual_dns \<Rightarrow> dns_op \<Rightarrow> virtual_dns" where
  "dns_apply env d (Lookup name v6) = snd (resolve env d name v6)"
| "dns_apply env d (Recover a) = snd (reverse d a)"

fun dns_run :: "text_env \<Rightarrow> virtual_dns \<Rightarrow> dns_op list \<Rightarrow> virtual_dns" where
  "dns_run env d [] = d"
| "dns_run env d (x # xs) = dns_run env (dns_apply env d x) xs"

text \<open>The name of the family that an operation uses, if it uses one.\<close>

definition name_used :: "text_env \<Rightarrow> bool \<Rightarrow> virtual_dns \<Rightarrow> dns_op \<Rightarrow> string list" where
  "name_used env v6 d x =
     (case x of
        Lookup name u \<Rightarrow> if u = v6 then [canonical env name] else []
      | Recover a \<Rightarrow>
          (case dns_reverse d (unmap a) of
             None \<Rightarrow> []
           | Some b \<Rightarrow> if is6 (b_addr b) = v6 then [b_name b] else []))"

fun names_used :: "text_env \<Rightarrow> bool \<Rightarrow> virtual_dns \<Rightarrow> dns_op list \<Rightarrow> string list" where
  "names_used env v6 d [] = []"
| "names_used env v6 d (x # xs) = name_used env v6 d x @ names_used env v6 (dns_apply env d x) xs"

definition before :: "'a \<Rightarrow> 'a list \<Rightarrow> 'a list" where
  "before b xs = takeWhile (\<lambda>x. x \<noteq> b) xs"

lemma before_move_to_front:
  "c \<in> set order \<Longrightarrow> set (before b (move_to_front c order)) \<subseteq> (if c = b then {} else insert c (set (before b order)))"
proof (induction order)
  case (Cons x xs)
  then show ?case by (auto simp: before_def move_to_front_def split: if_splits)
qed simp

lemma remove1_last: "distinct xs \<Longrightarrow> xs \<noteq> [] \<Longrightarrow> remove1 (last xs) xs = butlast xs"
proof (induction xs)
  case (Cons x xs)
  then show ?case using last_in_set [of xs] by (cases "xs = []") auto
qed simp

lemma before_butlast: "b \<in> set (butlast xs) \<Longrightarrow> before b (butlast xs) = before b xs"
proof (induction xs)
  case (Cons x xs)
  then show ?case by (cases "xs = []") (auto simp: before_def)
qed simp

lemma before_last: "distinct xs \<Longrightarrow> xs \<noteq> [] \<Longrightarrow> before (last xs) xs = butlast xs"
proof (induction xs)
  case (Cons x xs)
  then show ?case using last_in_set [of xs] by (cases "xs = []") (auto simp: before_def)
qed simp

text \<open>
  The entry of a binding and a bound on the names in front of it: those used since it was itself used.
\<close>

definition held :: "bool \<Rightarrow> binding \<Rightarrow> string set \<Rightarrow> virtual_dns \<Rightarrow> bool" where
  "held v6 b T d =
     (dns_wf d \<and> b \<in> set (fam_order (family_of v6 d))
      \<and> b_name ` set (before b (fam_order (family_of v6 d))) \<subseteq> T - {b_name b})"

lemma held_mono: "held v6 b S d \<Longrightarrow> S \<subseteq> T \<Longrightarrow> held v6 b T d"
  by (auto simp: held_def)

lemma insert_minus_bound:
  "X \<subseteq> (if e then {} else insert y A) \<Longrightarrow> A \<subseteq> T - {z} \<Longrightarrow> (y = z \<Longrightarrow> e) \<Longrightarrow> X \<subseteq> T \<union> {y} - {z}"
  by (auto split: if_splits)

lemma held_touch:
  assumes "held v6 b T d" and "c \<in> set (fam_order (family_of u d))"
  shows "held v6 b (T \<union> (if u = v6 then {b_name c} else {})) (touch_binding u c d)"
proof -
  have wf: "family_wf v6 (family_of v6 d)" using assms(1) by (simp add: held_def dns_wf_iff)
  have inj: "b_name c = b_name b \<Longrightarrow> c = b" if "u = v6"
    using assms that wf by (auto simp: held_def family_wf_def distinct_map inj_on_def)
  have "b_name ` set (before b (move_to_front c (fam_order (family_of u d))))
      \<subseteq> (if c = b then {} else insert (b_name c) (b_name ` set (before b (fam_order (family_of u d)))))"
    using image_mono [OF before_move_to_front [OF assms(2), of b], of b_name] by (simp split: if_splits)
  moreover have "b_name ` set (before b (fam_order (family_of v6 d))) \<subseteq> T - {b_name b}"
    using assms(1) by (simp add: held_def)
  ultimately have "b_name ` set (before b (move_to_front c (fam_order (family_of u d))))
      \<subseteq> T \<union> {b_name c} - {b_name b}" if "u = v6"
    using inj [OF that] unfolding that by (rule insert_minus_bound)
  with assms touch_binding_wf show ?thesis
    by (cases "u = v6") (simp_all add: held_def touch_binding_simps)
qed

lemma held_evict:
  assumes "held v6 b T d" and "finite T" and "name \<in> T"
    and "fam_names (family_of v6 d) name = None" and "card (T - {b_name b}) < max_synthetic_names"
  shows "held v6 b T (evict_oldest v6 d)"
proof (cases "length (fam_order (family_of v6 d)) < max_synthetic_names")
  case True
  with assms(1) show ?thesis by (simp add: evict_oldest_id)
next
  case False
  let ?xs = "fam_order (family_of v6 d)"
  have full: "max_synthetic_names \<le> length ?xs" using False by simp
  then have ne: "?xs \<noteq> []" using max_synthetic_names_pos by auto
  have wf: "family_wf v6 (family_of v6 d)" and b: "b \<in> set ?xs"
    and sub: "b_name ` set (before b ?xs) \<subseteq> T - {b_name b}"
    using assms(1) by (auto simp: held_def dns_wf_iff)
  have dn: "distinct (map b_name ?xs)" and d: "distinct ?xs"
    using wf by (auto simp: family_wf_def distinct_map)
  have other: "c \<in> set ?xs \<Longrightarrow> b_name c \<noteq> name" for c
    using family_wf_member(4) [OF wf] assms(4) by fastforce
  have "last ?xs \<noteq> b"
  proof
    assume l: "last ?xs = b"
    have bef: "before b ?xs = butlast ?xs" using before_last [OF d ne] l by simp
    have "card (b_name ` set (butlast ?xs)) = length ?xs - 1"
      using distinct_card [OF distinct_butlast [OF dn]] by (simp flip: map_butlast)
    moreover have "name \<notin> b_name ` set (butlast ?xs)"
      using other by (auto dest: in_set_butlastD)
    moreover have "insert name (b_name ` set (butlast ?xs)) \<subseteq> T - {b_name b}"
      using sub bef assms(3) other [OF b] by auto
    ultimately have "Suc (length ?xs - 1) \<le> card (T - {b_name b})"
      using assms(2) card_mono [of "T - {b_name b}" "insert name (b_name ` set (butlast ?xs))"]
      by (simp add: card_insert_if)
    with assms(5) full ne show False by (cases ?xs) auto
  qed
  then have keep: "b \<in> set (butlast ?xs)"
    using b ne by (metis append_butlast_last_id in_set_conv_decomp set_ConsD rotate1.simps(2) set_rotate1)
  have "fam_order (family_of v6 (evict_oldest v6 d)) = butlast ?xs"
    by (simp add: evict_oldest_simps(1) [OF full] remove1_last [OF d ne])
  with keep sub before_butlast [OF keep] evict_oldest_wf(1) assms(1) show ?thesis
    by (simp add: held_def)
qed

lemma held_bind:
  assumes "held v6 b T d" and "dns_wf (bind_address v6 name a d)" and "name \<in> T"
    and "fam_names (family_of v6 d) name = None" and "assignable v6 a"
    and "addr_index (fam_last (family_of v6 d)) < addr_index a"
  shows "held v6 b T (bind_address v6 name a d)"
proof -
  have wf: "family_wf v6 (family_of v6 d)" and b: "b \<in> set (fam_order (family_of v6 d))"
    using assms(1) by (auto simp: held_def dns_wf_iff)
  have "b_name b \<noteq> name" using family_wf_member(4) [OF wf b] assms(4) by auto
  moreover have "b_addr b \<noteq> a"
    using fresh_address [OF _ assms(5,6) b] assms(1) by (simp add: held_def)
  ultimately show ?thesis
    using assms(1-3) by (auto simp: held_def bind_address_simps before_def)
qed

lemma held_other_family:
  assumes "held v6 b T d" and "family_of v6 d' = family_of v6 d" and "dns_wf d'"
  shows "held v6 b T d'"
  using assms by (simp add: held_def)

lemma held_apply:
  assumes "held v6 b T d" and "finite T"
    and "card (T \<union> set (name_used env v6 d x) - {b_name b}) < max_synthetic_names"
  shows "held v6 b (T \<union> set (name_used env v6 d x)) (dns_apply env d x)"
proof (cases x)
  case (Recover a)
  show ?thesis
  proof (cases "dns_reverse d (unmap a)")
    case None
    with Recover assms(1) show ?thesis by (simp add: reverse_def name_used_def)
  next
    case (Some c)
    from Some assms(1) obtain u where c: "c \<in> set (fam_order (family_of u d))"
      by (auto simp: held_def dns_wf_iff)
    moreover have "is6 (b_addr c) = u"
      using family_wf_member(2) [OF _ c] assms(1) assignable_in_family in_family_is6
      by (metis held_def dns_wf_iff)
    ultimately show ?thesis
      using held_touch [OF assms(1) c] Recover Some
      by (cases "u = v6") (simp_all add: reverse_def name_used_def)
  qed
next
  case (Lookup raw u)
  obtain res d' where r: "resolve env d raw u = (res, d')" by fastforce
  have wf: "dns_wf d" using assms(1) by (simp add: held_def)
  let ?n = "canonical env raw"
  let ?T = "T \<union> set (name_used env v6 d x)"
  have T: "held v6 b ?T d" using assms(1) held_mono by blast
  have used: "u = v6 \<Longrightarrow> set (name_used env v6 d x) = {?n}" by (simp add: Lookup name_used_def)
  from wf r have "held v6 b ?T d'"
  proof (cases rule: resolve_cases)
    case (known c)
    have "held v6 b (?T \<union> (if u = v6 then {b_name c} else {})) d'"
      using held_touch [OF T known(2)] known(4) by simp
    moreover have "?T \<union> (if u = v6 then {b_name c} else {}) = ?T"
      using used known(3) by auto
    ultimately show ?thesis by simp
  next
    case (new a)
    show ?thesis
    proof (cases "u = v6")
      case True
      have "held v6 b ?T (evict_oldest v6 d)"
        by (rule held_evict [OF T _ _ _ assms(3), of ?n]) (use new True used assms(2) in auto)
      moreover have "dns_wf d'" using resolve_wf [OF wf, of env raw u] r by simp
      ultimately show ?thesis
        using new True used evict_oldest_new_name by (auto intro!: held_bind)
    next
      case False
      have "family_of v6 d' = family_of v6 d"
        using new False by (simp add: bind_address_simps evict_oldest_def Let_def family_of_set_family_if)
      moreover have "dns_wf d'" using resolve_wf [OF wf, of env raw u] r by simp
      ultimately show ?thesis using held_other_family [OF T] by simp
    qed
  qed (use T in simp)
  with r Lookup show ?thesis by simp
qed

lemma held_run:
  assumes "held v6 b T d" and "finite T"
    and "card (T \<union> set (names_used env v6 d xs) - {b_name b}) < max_synthetic_names"
  shows "held v6 b (T \<union> set (names_used env v6 d xs)) (dns_run env d xs)"
  using assms
proof (induction xs arbitrary: d T)
  case (Cons x xs)
  let ?T = "T \<union> set (name_used env v6 d x)"
  have "card (?T - {b_name b}) \<le> card (T \<union> set (names_used env v6 d (x # xs)) - {b_name b})"
    using Cons.prems(2) by (intro card_mono) auto
  with Cons.prems have "held v6 b ?T (dns_apply env d x)" by (intro held_apply) auto
  with Cons.IH [OF this] Cons.prems show ?case by (simp add: Un_assoc)
qed simp

lemma held_reverse: "held v6 b T d \<Longrightarrow> fst (reverse d (b_addr b)) = Some (b_name b)"
proof -
  assume h: "held v6 b T d"
  then have "dns_reverse d (b_addr b) = Some b" by (auto simp: held_def dns_wf_iff)
  moreover have "unmap (b_addr b) = b_addr b"
    using h family_wf_member(2) [of v6 "family_of v6 d" b] by (auto simp: held_def dns_wf_iff)
  ultimately show ?thesis by (simp add: fst_reverse)
qed

section \<open>Properties\<close>

lemma ttl_seconds_bound: "ttl_seconds ttl \<le> 0x7FFFFFFF"
proof -
  have "of_int k \<le> (0x7FFFFFFF :: u32)" if "0 \<le> k" "k \<le> 2147483647" for k :: int
    using that by (simp add: word_le_def uint_word_of_int)
  then show ?thesis by (simp add: ttl_seconds_def del: of_int_min)
qed

lemmas dns_eval =
  text_eval canonical_def resolve_def family_of_def set_family_def new_virtual_dns_def new_family_def
  bind_address_def evict_oldest_def max_synthetic_names_def pool_values prefix_contains_def
  prefix_valid_def ascii_env_def reverse_def touch_binding_def move_to_front_def Let_def

text \<open>The first name resolved in a new resolver, for the witnesses.\<close>

lemma first_resolution:
  "fst (resolve ascii_env new_virtual_dns ''A.example.'' False) = Inr (IP4 0x64400001)"
  by (simp add: dns_eval)

text \<open>
  In every state the resolver can reach, whatever the guest asks and dials, each family remembers at
  most 65536 names, its name map, its recency list and the reverse map describe the same bindings,
  no name and no address is bound twice, and every bound address lies in the pool of its family and
  outside the reserved range.
\<close>

lemma resolver_bounded_and_consistent:
  assumes "store_later (resolve env) reverse new_virtual_dns d"
  shows "dns_wf d \<and> length (fam_order (dns_v4 d)) \<le> 65536 \<and> length (fam_order (dns_v6 d)) \<le> 65536"
  using dns.later_valid [OF assms new_virtual_dns_wf]
  by (simp add: dns_wf_def family_wf_def max_synthetic_names_def)

text \<open>
  C14. An address answered for a name leads back to that name, and at any later time, after any further
  queries and dials, it leads to that name or to nothing and is never answered for another name: a
  stale address fails closed.
\<close>

theorem synthetic_address_never_reassigned:
  assumes "store_later (resolve env) reverse new_virtual_dns d" and "resolve env d name v6 = (Inr a, d1)"
    and "store_later (resolve env) reverse d1 d2"
  shows "fst (reverse d1 a) = Some (canonical env name)
    \<and> fst (reverse d2 a) \<in> {None, Some (canonical env name)}
    \<and> (fst (resolve env d2 other v6') = Inr a \<longrightarrow> canonical env other = canonical env name)"
proof -
  have wf: "dns_wf d" using dns.later_valid [OF assms(1) new_virtual_dns_wf] .
  obtain res d3 where "resolve env d2 other v6' = (res, d3)" by fastforce
  with resolve_issued(3) [OF wf assms(2)] dns.never_reassigned [OF wf assms(2,3)] show ?thesis
    by auto
qed

theorem synthetic_address_never_reassigned_witness:
  "fst (reverse (snd (resolve ascii_env new_virtual_dns ''A.example.'' False)) (IP4 0x64400001))
     = Some ''a.example''"
proof -
  let ?d = "snd (resolve ascii_env new_virtual_dns ''A.example.'' False)"
  have later: "store_later (resolve ascii_env) reverse d d" for d by (simp add: store_later_def)
  have "resolve ascii_env new_virtual_dns ''A.example.'' False = (Inr (IP4 0x64400001), ?d)"
    using first_resolution by (metis prod.collapse)
  from synthetic_address_never_reassigned [OF later this later] show ?thesis
    by (simp add: dns_eval)
qed

text \<open>
  C33. A name that was resolved stays known while fewer than 65536 other names of its family are used:
  after any sequence of operations that uses at most 65535 distinct other names its address still
  leads back to it, however many operations there are.
\<close>

theorem recent_names_kept:
  assumes "dns_wf d" and "resolve env d name v6 = (Inr a, d1)"
    and "card (set (names_used env v6 d1 ops) - {canonical env name}) < max_synthetic_names"
  shows "fst (reverse (dns_run env d1 ops) a) = Some (canonical env name)"
proof -
  have wf1: "dns_wf d1" using resolve_wf [OF assms(1), of env name v6] assms(2) by simp
  have "\<exists>b. b_name b = canonical env name \<and> b_addr b = a \<and> held v6 b {} d1"
    using assms(1,2)
  proof (cases rule: resolve_cases)
    case (known b)
    with wf1 show ?thesis
      by (intro exI [of _ b]) (auto simp: held_def touch_binding_simps move_to_front_def before_def)
  next
    case (new a')
    with wf1 show ?thesis
      by (intro exI [of _ "\<lparr>b_name = canonical env name, b_addr = a\<rparr>"])
         (auto simp: held_def bind_address_simps before_def)
  qed simp
  then obtain b where b: "b_name b = canonical env name" "b_addr b = a" "held v6 b {} d1" by blast
  have "held v6 b ({} \<union> set (names_used env v6 d1 ops)) (dns_run env d1 ops)"
    by (rule held_run) (use b assms(3) in simp_all)
  from held_reverse [OF this] b show ?thesis by simp
qed

theorem recent_names_kept_witness:
  "fst (reverse (dns_run ascii_env (snd (resolve ascii_env new_virtual_dns ''A.example.'' False))
      [Lookup ''b.example'' False, Lookup ''b.example'' True, Recover (IP4 0x64400002)])
     (IP4 0x64400001)) = Some ''a.example''"
proof -
  let ?d = "snd (resolve ascii_env new_virtual_dns ''A.example.'' False)"
  let ?ops = "[Lookup ''b.example'' False, Lookup ''b.example'' True, Recover (IP4 0x64400002)]"
  have r: "resolve ascii_env new_virtual_dns ''A.example.'' False = (Inr (IP4 0x64400001), ?d)"
    using first_resolution by (metis prod.collapse)
  have "set (names_used ascii_env False ?d ?ops) \<subseteq> {''b.example''}"
    by (simp add: dns_eval name_used_def)
  then have "set (names_used ascii_env False ?d ?ops) - {canonical ascii_env ''A.example.''}
      \<subseteq> {''b.example''}" by blast
  from card_mono [OF _ this]
  have "card (set (names_used ascii_env False ?d ?ops) - {canonical ascii_env ''A.example.''}) \<le> 1"
    by simp
  then have "card (set (names_used ascii_env False ?d ?ops) - {canonical ascii_env ''A.example.''})
      < max_synthetic_names"
    by (simp add: max_synthetic_names_def)
  from recent_names_kept [OF new_virtual_dns_wf r this] show ?thesis
    by (simp only: canonical_def) (simp add: text_eval)
qed

text \<open>
  C37. A query gets an answer only when it asks for an A or AAAA record of class IN and the name has an
  address; the answer is the synthetic address of the family asked for, with the TTL bounded by
  2147483647 seconds. A failed resolution is SERVFAIL, every other type and class an empty success, and
  those change no state: no record type carries data out.
\<close>

theorem query_answers:
  assumes "dns_wf d" and "parse query = Some (hdr, q)"
    and "handle_query env parse pack d query = (out, d')"
  shows "\<exists>r. out = pack r \<and> r_id r = h_id hdr \<and> r_question r = q \<and> r_rcode r \<in> {0, 2}
    \<and> (r_answer r \<noteq> None \<longleftrightarrow> r_rcode r = 0 \<and> q_class q = 1 \<and> q_type q \<in> {1, 28})
    \<and> (\<forall>ttl a. r_answer r = Some (ttl, a) \<longrightarrow> assignable (q_type q = 28) a \<and> ttl \<le> 0x7FFFFFFF
           \<and> fst (reverse d' a) = Some (canonical env (q_name q)))
    \<and> (q_class q \<noteq> 1 \<or> q_type q \<notin> {1, 28} \<longrightarrow> d' = d)"
proof -
  obtain rcode addr d1 where aq: "answer_question env d q = (rcode, addr, d1)"
    by (metis prod_cases3)
  define r where "r = \<lparr>r_id = h_id hdr, r_opcode = h_opcode hdr, r_authoritative = True,
      r_recursion_desired = h_recursion_desired hdr, r_recursion_available = True, r_rcode = rcode,
      r_question = q, r_answer = map_option (\<lambda>a. (ttl_seconds (dns_ttl d), a)) addr\<rparr>"
  have out: "out = pack r" "d' = d1"
    using assms(2,3) aq by (simp_all add: handle_query_def r_def)
  note codes = type_a_def type_aaaa_def class_inet_def rcode_success_def rcode_server_failure_def
    resolve4_def resolve6_def
  have "resolve env d (q_name q) (q_type q = 28) = (Inr a, d1)" if "addr = Some a" for a
    using that aq by (auto simp: answer_question_def codes split: if_splits sum.splits prod.splits)
  note got = resolve_issued [OF assms(1) this]
  have "r_answer r \<noteq> None \<longleftrightarrow> r_rcode r = 0 \<and> q_class q = 1 \<and> q_type q \<in> {1, 28}"
    "r_rcode r \<in> {0, 2}" "q_class q \<noteq> 1 \<or> q_type q \<notin> {1, 28} \<longrightarrow> d1 = d"
    using aq by (auto simp: r_def answer_question_def codes split: if_splits sum.splits prod.splits)
  moreover have "assignable (q_type q = 28) a \<and> ttl \<le> 0x7FFFFFFF
      \<and> fst (reverse d' a) = Some (canonical env (q_name q))" if "r_answer r = Some (ttl, a)" for ttl a
    using that got ttl_seconds_bound out(2) by (auto simp: r_def)
  ultimately show ?thesis using out by (intro exI [of _ r]) (auto simp: r_def)
qed

text \<open>A message library that knows one query, for the witness.\<close>

definition sample_question :: dns_question where
  "sample_question = \<lparr>q_name = ''a.example.'', q_type = 1, q_class = 1\<rparr>"

definition sample_parse :: "bytes \<Rightarrow> (dns_header \<times> dns_question) option" where
  "sample_parse query =
     (if query = [] then None
      else Some (\<lparr>h_id = 7, h_opcode = 0, h_recursion_desired = True\<rparr>, sample_question))"

definition sample_pack :: "dns_response \<Rightarrow> bytes option" where
  "sample_pack r = Some (case r_answer r of None \<Rightarrow> [] | Some (ttl, a) \<Rightarrow> [ucast ttl])"

theorem query_answers_witness:
  "\<exists>r. fst (handle_query ascii_env sample_parse sample_pack new_virtual_dns [1]) = sample_pack r
     \<and> r_question r = sample_question \<and> r_rcode r \<in> {0, 2}"
proof -
  obtain out d' where h: "handle_query ascii_env sample_parse sample_pack new_virtual_dns [1] = (out, d')"
    by fastforce
  have "sample_parse [1] = Some (\<lparr>h_id = 7, h_opcode = 0, h_recursion_desired = True\<rparr>, sample_question)"
    by (simp add: sample_parse_def)
  from query_answers [OF new_virtual_dns_wf this h] h show ?thesis by auto
qed

text \<open>
  The pools fail closed: a resolution ends in exhaustion exactly for a new name whose next address
  would leave the pool or enter the reserved range; then no state changes, so names already known keep
  resolving to their addresses and no address is given out twice.
\<close>

lemma exhaustion_fails_closed:
  assumes "dns_wf d"
  shows "(fst (resolve env d name v6) = Inl PoolExhausted
    \<longleftrightarrow> canonical env name \<noteq> [] \<and> fam_names (family_of v6 d) (canonical env name) = None
        \<and> \<not> assignable v6 (next_addr (fam_last (family_of v6 d))))
    \<and> (is_ok (fst (resolve env d name v6)) \<or> snd (resolve env d name v6) = d)"
  using assms
  by (auto simp: resolve_def Let_def assignable_def dns_wf_iff family_wf_def split: option.split)

end
