(* ===== verification/Forwarder.thy ===== *)
theory Forwarder
  imports Virtual_DNS
begin

text \<open>
  The forwarder between guest flows and the boundary dialer (sdk/pkg/tun2connect/forwarder.go): which
  host a flow is dialed by, the dial timeouts, and the DNS service. The dialer is a parameter; the
  choice of the host is written over any name store and used with the virtual DNS.
\<close>

record addr_port =
  ap_addr :: ip_addr
  ap_port :: u16

definition addr_port_valid :: "addr_port \<Rightarrow> bool" where
  "addr_port_valid d = (ap_addr d \<noteq> IPInvalid)"

definition target_host_of ::
  "('s \<Rightarrow> ip_addr \<Rightarrow> string option \<times> 's) \<Rightarrow> 's \<Rightarrow> addr_port \<Rightarrow> string option \<times> 's" where
  "target_host_of recover s destination =
     (if \<not> addr_port_valid destination \<or> ap_port destination = 0 then (None, s)
      else
        (let address = unmap (ap_addr destination) in
         (case recover s address of
            (Some name, s') \<Rightarrow> (Some name, s')
          | (None, s') \<Rightarrow> (Some (show_addr address), s'))))"

definition target_host :: "virtual_dns \<Rightarrow> addr_port \<Rightarrow> string option \<times> virtual_dns" where
  "target_host = target_host_of reverse"

definition default_dial_timeout :: int where "default_dial_timeout = 15 * second"
definition default_udp_idle_timeout :: int where "default_udp_idle_timeout = 30 * second"

definition dial_timeout :: "int \<Rightarrow> int" where
  "dial_timeout timeout = (if timeout \<le> 0 then default_dial_timeout else timeout)"

definition udp_idle_timeout :: "int \<Rightarrow> int" where
  "udp_idle_timeout timeout = (if timeout \<le> 0 then default_udp_idle_timeout else timeout)"

text \<open>\<open>DialTCP\<close> and \<open>DialUDP\<close>: an invalid destination never reaches the dialer.\<close>

definition forward_dial ::
  "(string \<Rightarrow> u16 \<Rightarrow> 'c option) \<Rightarrow> virtual_dns \<Rightarrow> addr_port \<Rightarrow> 'c option \<times> virtual_dns" where
  "forward_dial dialer d destination =
     (case target_host d destination of
        (None, d') \<Rightarrow> (None, d')
      | (Some host, d') \<Rightarrow> (dialer host (ap_port destination), d'))"

text \<open>
  \<open>ServeDNS\<close>: queries are read into 1500 bytes; one that cannot be answered is skipped, and a failing
  write ends the service. The result is the responses written.
\<close>

fun serve_dns ::
  "text_env \<Rightarrow> (bytes \<Rightarrow> (dns_header \<times> dns_question) option) \<Rightarrow> (dns_response \<Rightarrow> bytes option)
    \<Rightarrow> (nat \<Rightarrow> bool) \<Rightarrow> nat \<Rightarrow> virtual_dns \<Rightarrow> bytes list \<Rightarrow> bytes list \<times> virtual_dns" where
  "serve_dns env parse pack write_ok i d [] = ([], d)"
| "serve_dns env parse pack write_ok i d (q # qs) =
     (case handle_query env parse pack d (take 1500 q) of
        (None, d') \<Rightarrow> serve_dns env parse pack write_ok i d' qs
      | (Some response, d') \<Rightarrow>
          if write_ok i then
            (case serve_dns env parse pack write_ok (Suc i) d' qs of (rs, d'') \<Rightarrow> (response # rs, d''))
          else ([], d'))"

section \<open>The host of a flow\<close>

lemma target_host_of_cases:
  assumes "addr_port_valid destination" and "ap_port destination \<noteq> 0"
  shows "fst (target_host_of recover s destination) =
    Some (case fst (recover s (unmap (ap_addr destination))) of
            Some name \<Rightarrow> name | None \<Rightarrow> show_addr (unmap (ap_addr destination)))"
  using assms by (auto simp: target_host_of_def Let_def split: prod.split option.split)

context name_store
begin

text \<open>The host of a flow to an address that was invented for a name.\<close>

lemma target_host_preserves_name:
  assumes "valid s" and "lookup s name v6 = (Inr a, s1)" and "store_later lookup recover s1 s2"
    and "unmap a = a" and "a \<noteq> IPInvalid" and "port \<noteq> 0"
  shows "fst (target_host_of recover s2 \<lparr>ap_addr = a, ap_port = port\<rparr>)
    \<in> {Some (canon name), Some (show_addr a)}"
  using never_reassigned(1) [OF assms(1-3)] assms(4-6)
    target_host_of_cases [of "\<lparr>ap_addr = a, ap_port = port\<rparr>" recover s2]
  by (auto simp: addr_port_valid_def)

end

text \<open>
  The name survives from the query to the dial: a flow to an address that was answered for a name is
  dialed by that name in the state right after the answer, and at any later time by that name or, once it
  has been forgotten, by the synthetic address itself. It is never dialed by any other name. A flow
  without a valid address and port reaches no dialer.
\<close>

lemma flow_dialed_by_its_name:
  assumes "store_later (resolve env) reverse new_virtual_dns d" and "resolve env d name v6 = (Inr a, d1)"
    and "store_later (resolve env) reverse d1 d2" and "port \<noteq> 0"
  shows "fst (target_host d1 \<lparr>ap_addr = a, ap_port = port\<rparr>) = Some (canonical env name)
    \<and> fst (target_host d2 \<lparr>ap_addr = a, ap_port = port\<rparr>)
        \<in> {Some (canonical env name), Some (show_addr a)}
    \<and> fst (forward_dial dialer d2 \<lparr>ap_addr = IPInvalid, ap_port = port\<rparr>) = None"
proof -
  have wf: "dns_wf d" using dns.later_valid [OF assms(1) new_virtual_dns_wf] .
  have ok: "assignable v6 a" using resolve_issued(1) [OF wf assms(2)] .
  then have a: "unmap a = a" "a \<noteq> IPInvalid" using assignable_not_invalid by auto
  show ?thesis
    using dns.target_host_preserves_name [OF wf assms(2,3) a assms(4)] resolve_issued(3) [OF wf assms(2)]
      target_host_of_cases [of "\<lparr>ap_addr = a, ap_port = port\<rparr>" reverse d1] a assms(4)
    by (simp add: target_host_def addr_port_valid_def forward_dial_def target_host_of_def)
qed

end
