(* ===== verification/Admission.thy ===== *)
theory Admission
  imports Prelude
begin

text \<open>
  Bounded concurrency. The boundary's listener, the engine and the namespace proxy all admit work
  through a buffered channel of fixed capacity: a non-blocking send takes a slot, a receive at the end of
  the worker gives it back. The locale states what a server relies on, the step relation interleaves
  arrivals and completions in any order, and the bound on running workers is proved once.
\<close>

text \<open>A server: the state that admits and the number of workers that run. Arrivals may be turned away.\<close>

inductive server_step ::
  "('s \<Rightarrow> bool \<times> 's) \<Rightarrow> ('s \<Rightarrow> 's) \<Rightarrow> 's \<times> nat \<Rightarrow> 's \<times> nat \<Rightarrow> bool"
  for acquire :: "'s \<Rightarrow> bool \<times> 's" and release :: "'s \<Rightarrow> 's"
where
  admit: "acquire s = (True, s') \<Longrightarrow> server_step acquire release (s, n) (s', Suc n)"
| turn_away: "acquire s = (False, s') \<Longrightarrow> server_step acquire release (s, n) (s', n)"
| finish: "server_step acquire release (s, Suc n) (release s, n)"

inductive_cases server_stepE: "server_step acquire release (s, n) (s', n')"

definition server_later ::
  "('s \<Rightarrow> bool \<times> 's) \<Rightarrow> ('s \<Rightarrow> 's) \<Rightarrow> 's \<times> nat \<Rightarrow> 's \<times> nat \<Rightarrow> bool" where
  "server_later acquire release = (server_step acquire release)\<^sup>*\<^sup>*"

locale admission =
  fixes acquire :: "'s \<Rightarrow> bool \<times> 's"
    and release :: "'s \<Rightarrow> 's"
    and in_use :: "'s \<Rightarrow> nat"
    and capacity :: "'s \<Rightarrow> nat"
  assumes acquire_takes: "acquire s = (True, s')
      \<Longrightarrow> in_use s' = Suc (in_use s) \<and> in_use s < capacity s \<and> capacity s' = capacity s"
    and acquire_refuses: "acquire s = (False, s') \<Longrightarrow> s' = s"
    and release_gives: "0 < in_use s
      \<Longrightarrow> in_use (release s) = in_use s - 1 \<and> capacity (release s) = capacity s"
begin

lemma step_counts:
  assumes "server_step acquire release (s, n) (s', n')" and "in_use s = n" and "n \<le> capacity s"
  shows "in_use s' = n' \<and> n' \<le> capacity s' \<and> capacity s' = capacity s"
  using assms release_gives [of s]
  by (elim server_stepE) (auto dest: acquire_takes acquire_refuses)

lemma workers_bounded:
  assumes "server_later acquire release (s, n) (s', n')" and "in_use s = n" and "n \<le> capacity s"
  shows "in_use s' = n' \<and> n' \<le> capacity s \<and> capacity s' = capacity s"
proof -
  have "in_use (fst t) = snd t \<and> snd t \<le> capacity (fst t) \<and> capacity (fst t) = capacity s"
    if "(server_step acquire release)\<^sup>*\<^sup>* (s, n) t" for t
    using that
  proof (induction rule: rtranclp_induct)
    case base
    with assms(2,3) show ?case by simp
  next
    case (step t u)
    with step_counts [of "fst t" "snd t" "fst u" "snd u"] show ?case by simp
  qed
  from this [of "(s', n')"] assms(1) show ?thesis by (simp add: server_later_def)
qed

end

section \<open>A buffered channel of slots\<close>

record slots =
  slot_capacity :: nat
  slot_used :: nat

definition new_slots :: "nat \<Rightarrow> slots" where
  "new_slots n = \<lparr>slot_capacity = n, slot_used = 0\<rparr>"

text \<open>A send in a \<open>select\<close> with a default branch, and a receive by a holder.\<close>

definition take_slot :: "slots \<Rightarrow> bool \<times> slots" where
  "take_slot s =
     (if slot_used s < slot_capacity s then (True, s\<lparr>slot_used := slot_used s + 1\<rparr>) else (False, s))"

definition give_slot :: "slots \<Rightarrow> slots" where
  "give_slot s = s\<lparr>slot_used := slot_used s - 1\<rparr>"

interpretation slots: admission take_slot give_slot slot_used slot_capacity
  by unfold_locales (auto simp: take_slot_def give_slot_def split: if_splits)

lemma take_slot_iff: "fst (take_slot s) \<longleftrightarrow> slot_used s < slot_capacity s"
  by (simp add: take_slot_def)

end
