(* ===== verification/Engine.thy ===== *)
theory Engine
  imports Capsule Forwarder Admission
begin

text \<open>
  The engine that terminates guest flows (sdk/pkg/tun2connect/engine.go): admission of flows, closing,
  and what each kind of flow leads to. The gVisor stack is a parameter of the handlers: whether an
  endpoint could be made. A worker's effects on the guest are listed in order.
\<close>

record engine =
  eng_closed :: bool
  eng_sessions :: slots
  eng_workers :: nat
  eng_enable_udp :: bool

definition default_max_connections :: int where "default_max_connections = 1024"

definition max_connections :: "int \<Rightarrow> nat" where
  "max_connections n = nat (if n \<le> 0 then default_max_connections else n)"

definition new_engine :: "int \<Rightarrow> bool \<Rightarrow> engine" where
  "new_engine n udp =
     \<lparr>eng_closed = False, eng_sessions = new_slots (max_connections n), eng_workers = 0,
      eng_enable_udp = udp\<rparr>"

text \<open>The interface addresses \<open>New\<close> accepts.\<close>

definition interface_addresses_ok :: "ip_prefix list \<Rightarrow> bool" where
  "interface_addresses_ok addresses = list_all (\<lambda>p. prefix_valid p \<and> \<not> is4in6 (prefix_ip p)) addresses"

text \<open>
  \<open>New\<close>. The operations on the gVisor stack that can be refused are answered by \<open>ok\<close>; the deferred
  function closes the stack unless everything succeeded, and only then are the handlers installed.
\<close>

datatype stack_op =
    EnableSACK
  | CreateNIC
  | AddProtocolAddress bool ip_prefix
  | SetPromiscuousMode
  | SetSpoofing

datatype stack_event = StackDid stack_op | RouteTableSet | TcpForwarder nat | UdpForwarder | StackClosed

record engine_config =
  ec_device :: bool
  ec_dialer :: bool
  ec_dns :: bool
  ec_addresses :: "ip_prefix list"
  ec_max_connections :: int
  ec_udp :: bool
  ec_udp_idle_timeout :: int
  ec_dial_timeout :: int

record started_engine =
  se_engine :: engine
  se_dial_timeout :: int
  se_udp_idle_timeout :: int

datatype engine_error = MissingPart | BadInterfaceAddress | StackRefused stack_op

definition stack_ops :: "ip_prefix list \<Rightarrow> stack_op list" where
  "stack_ops addresses =
     [EnableSACK, CreateNIC] @ map (\<lambda>p. AddProtocolAddress (is4 (prefix_ip p)) p) addresses
       @ [SetPromiscuousMode, SetSpoofing]"

definition max_in_flight :: nat where "max_in_flight = 1024"

definition engine_new ::
  "(stack_op \<Rightarrow> bool) \<Rightarrow> engine_config \<Rightarrow> stack_event list \<times> (engine_error + started_engine)" where
  "engine_new ok cfg =
     (if \<not> ec_device cfg \<or> \<not> ec_dialer cfg \<or> \<not> ec_dns cfg then ([], Inl MissingPart)
      else if \<not> interface_addresses_ok (ec_addresses cfg) then ([], Inl BadInterfaceAddress)
      else
        (let ops = stack_ops (ec_addresses cfg); granted = takeWhile ok ops in
         (case drop (length granted) ops of
            refused # _ \<Rightarrow> (map StackDid granted @ [StackClosed], Inl (StackRefused refused))
          | [] \<Rightarrow>
              (map StackDid ops @ [RouteTableSet, TcpForwarder max_in_flight, UdpForwarder],
               Inr \<lparr>se_engine = new_engine (ec_max_connections cfg) (ec_udp cfg),
                    se_dial_timeout = dial_timeout (ec_dial_timeout cfg),
                    se_udp_idle_timeout = udp_idle_timeout (ec_udp_idle_timeout cfg)\<rparr>))))"

text \<open>
  \<open>New\<close> starts an engine exactly when its parts are there, its addresses are usable and the stack grants
  every operation; the handlers are installed last, and a stack that was touched in vain is closed.
\<close>

lemma engine_new_ok:
  "(\<exists>e. snd (engine_new ok cfg) = Inr e) \<longleftrightarrow>
     ec_device cfg \<and> ec_dialer cfg \<and> ec_dns cfg \<and> interface_addresses_ok (ec_addresses cfg)
     \<and> list_all ok (stack_ops (ec_addresses cfg))"
proof -
  have "drop (length (takeWhile ok ops)) ops = [] \<longleftrightarrow> list_all ok ops" for ops
    by (induction ops) auto
  then show ?thesis by (auto simp: engine_new_def Let_def split: list.splits)
qed

lemma engine_new_closes_stack:
  assumes "engine_new ok cfg = (events, Inl e)"
  shows "events = [] \<or> List.last events = StackClosed \<and> UdpForwarder \<notin> set events
    \<and> (\<forall>n. TcpForwarder n \<notin> set events)"
  using assms by (auto simp: engine_new_def Let_def split: if_splits list.splits)

definition engine_acquire :: "engine \<Rightarrow> bool \<times> engine" where
  "engine_acquire e =
     (if eng_closed e then (False, e)
      else
        (case take_slot (eng_sessions e) of
           (True, s) \<Rightarrow> (True, e\<lparr>eng_sessions := s, eng_workers := eng_workers e + 1\<rparr>)
         | (False, _) \<Rightarrow> (False, e)))"

definition engine_release :: "engine \<Rightarrow> engine" where
  "engine_release e =
     e\<lparr>eng_sessions := give_slot (eng_sessions e), eng_workers := eng_workers e - 1\<rparr>"

definition engine_close :: "engine \<Rightarrow> engine" where
  "engine_close e = e\<lparr>eng_closed := True\<rparr>"

section \<open>Flows\<close>

definition be_word :: "bytes \<Rightarrow> 'a::len word" where
  "be_word bs = foldl (\<lambda>w b. push_bit 8 w OR ucast b) 0 bs"

lemma foldl_be_bytes:
  "foldl (\<lambda>w b. push_bit 8 w OR ucast b) v (be_bytes k w)
    = push_bit (8 * k) v OR take_bit (8 * k) (w :: 'a::len word)"
proof (induction k arbitrary: v)
  case (Suc k)
  have "push_bit (8 * k) (push_bit 8 v OR ucast (ucast (drop_bit (8 * k) w) :: u8)) OR take_bit (8 * k) w
    = push_bit (8 * Suc k) v OR take_bit (8 * Suc k) w"
    by (rule bit_word_eqI) (auto simp: bit_simps add.commute [of 8])
  with Suc show ?case by simp
qed simp

definition to_netip :: "bytes \<Rightarrow> ip_addr option" where
  "to_netip a =
     (if length a = 4 then Some (IP4 (be_word a))
      else if length a = 16 then Some (unmap (IP6 (be_word a) []))
      else None)"

datatype tcp_action = CompleteReset | CompleteAccept | CloseUpstream | RelayFlow | ReleaseTCP

text \<open>
  \<open>handleTCP\<close> up to the goroutine: the destination of the worker it starts, or a reset.
\<close>

definition handle_tcp ::
  "engine \<Rightarrow> bytes \<Rightarrow> u16 \<Rightarrow> (tcp_action list + addr_port) \<times> engine" where
  "handle_tcp e local_address local_port =
     (case to_netip local_address of
        None \<Rightarrow> (Inl [CompleteReset], e)
      | Some dst \<Rightarrow>
          (case engine_acquire e of
             (False, e') \<Rightarrow> (Inl [CompleteReset], e')
           | (True, e') \<Rightarrow> (Inr \<lparr>ap_addr = dst, ap_port = local_port\<rparr>, e')))"

text \<open>
  The goroutine: dial, then complete the guest's handshake, then relay; its deferred \<open>release\<close> is the
  last thing it does on every path.
\<close>

definition tcp_worker ::
  "(string \<Rightarrow> u16 \<Rightarrow> 'c option) \<Rightarrow> bool \<Rightarrow> virtual_dns \<Rightarrow> addr_port \<Rightarrow> tcp_action list \<times> virtual_dns" where
  "tcp_worker dialer endpoint_ok d destination =
     (case forward_dial dialer d destination of
        (None, d') \<Rightarrow> ([CompleteReset, ReleaseTCP], d')
      | (Some _, d') \<Rightarrow>
          (if endpoint_ok then [CompleteAccept, RelayFlow, ReleaseTCP]
           else [CloseUpstream, CompleteReset, ReleaseTCP], d'))"

datatype udp_worker = DnsWorker | UdpWorker addr_port

text \<open>
  \<open>handleUDP\<close>: the worker it starts, or \<open>None\<close> for an unhandled request, which the stack answers with
  an ICMP error.
\<close>

definition handle_udp ::
  "engine \<Rightarrow> bytes \<Rightarrow> u16 \<Rightarrow> bool \<Rightarrow> udp_worker option \<times> engine" where
  "handle_udp e local_address local_port endpoint_ok =
     (case engine_acquire e of
        (False, e') \<Rightarrow> (None, e')
      | (True, e') \<Rightarrow>
          if local_port = 53 then
            (if endpoint_ok then (Some DnsWorker, e') else (None, engine_release e'))
          else if \<not> eng_enable_udp e' then (None, engine_release e')
          else
            (case to_netip local_address of
               None \<Rightarrow> (None, engine_release e')
             | Some dst \<Rightarrow>
                 if endpoint_ok then (Some (UdpWorker \<lparr>ap_addr = dst, ap_port = local_port\<rparr>), e')
                 else (None, engine_release e')))"

datatype udp_action = ServeGuestDNS | CloseGuest | RelayDatagrams | ReleaseUDP

text \<open>The goroutines of \<open>handleUDP\<close>, each with its deferred \<open>release\<close>.\<close>

definition run_udp_worker ::
  "(string \<Rightarrow> u16 \<Rightarrow> 'c option) \<Rightarrow> virtual_dns \<Rightarrow> udp_worker \<Rightarrow> udp_action list \<times> virtual_dns" where
  "run_udp_worker dialer d w =
     (case w of
        DnsWorker \<Rightarrow> ([ServeGuestDNS, ReleaseUDP], d)
      | UdpWorker destination \<Rightarrow>
          (case forward_dial dialer d destination of
             (None, d') \<Rightarrow> ([CloseGuest, ReleaseUDP], d')
           | (Some _, d') \<Rightarrow> ([RelayDatagrams, ReleaseUDP], d')))"

section \<open>Admission\<close>

interpretation engine: admission engine_acquire engine_release "\<lambda>e. slot_used (eng_sessions e)"
  "\<lambda>e. slot_capacity (eng_sessions e)"
  by unfold_locales
    (auto simp: engine_acquire_def engine_release_def take_slot_def give_slot_def split: if_splits)

text \<open>The engine's life: flows come and go, and at some point it is closed.\<close>

inductive engine_step :: "engine \<times> nat \<Rightarrow> engine \<times> nat \<Rightarrow> bool" where
  work: "server_step engine_acquire engine_release x y \<Longrightarrow> engine_step x y"
| shut: "engine_step (e, n) (engine_close e, n)"

inductive_cases engine_stepE: "engine_step x y"

definition engine_inv :: "nat \<Rightarrow> engine \<times> nat \<Rightarrow> bool" where
  "engine_inv limit x =
     (slot_used (eng_sessions (fst x)) = snd x \<and> eng_workers (fst x) = snd x \<and> snd x \<le> limit
      \<and> slot_capacity (eng_sessions (fst x)) = limit)"

lemma server_step_workers:
  assumes "server_step engine_acquire engine_release x y" and "eng_workers (fst x) = snd x"
  shows "eng_workers (fst y) = snd y \<and> (eng_closed (fst x) \<longrightarrow> eng_closed (fst y) \<and> snd y \<le> snd x)"
  using assms
  by (cases rule: server_step.cases)
     (auto simp: engine_acquire_def engine_release_def take_slot_def split: if_splits)

lemma engine_step_inv: "engine_step x y \<Longrightarrow> engine_inv limit x \<Longrightarrow> engine_inv limit y"
proof (elim engine_stepE)
  assume "engine_inv limit x" and s: "server_step engine_acquire engine_release x y"
  with engine.step_counts [of "fst x" "snd x" "fst y" "snd y"] server_step_workers [OF s]
  show "engine_inv limit y" by (simp add: engine_inv_def)
qed (auto simp: engine_inv_def engine_close_def)

text \<open>
  The engine never runs more workers than its connection limit, and the slots in use are always
  exactly the running workers, in every interleaving of arriving flows, finishing workers and the
  close. Once it is closed no worker starts: their number only falls from then on.
\<close>

lemma engine_workers_bounded:
  assumes "engine_step\<^sup>*\<^sup>* (new_engine limit udp, 0) (e, n)"
  shows "eng_workers e = n \<and> slot_used (eng_sessions e) = n \<and> n \<le> max_connections limit
    \<and> (\<forall>e' n'. eng_closed e \<longrightarrow> engine_step\<^sup>*\<^sup>* (e, n) (e', n') \<longrightarrow> n' \<le> n \<and> eng_closed e')"
proof -
  have "engine_inv (max_connections limit) y" if "engine_step\<^sup>*\<^sup>* (new_engine limit udp, 0) y" for y
    using that
  proof (induction rule: rtranclp_induct)
    case base
    show ?case by (simp add: engine_inv_def new_engine_def new_slots_def)
  qed (rule engine_step_inv)
  note inv = this [OF assms]
  have closed: "engine_inv (max_connections limit) y \<and> eng_closed (fst y) \<and> snd y \<le> n"
    if "engine_step\<^sup>*\<^sup>* (e, n) y" "eng_closed e" for y
    using that(1)
  proof (induction rule: rtranclp_induct)
    case base
    with inv that(2) show ?case by simp
  next
    case (step y z)
    have "eng_closed (fst z) \<and> snd z \<le> snd y"
      using step.hyps(2) step.IH server_step_workers
      by (elim engine_stepE) (auto simp: engine_inv_def engine_close_def)
    with step engine_step_inv [OF step.hyps(2)] show ?case by auto
  qed
  with inv show ?thesis by (fastforce simp: engine_inv_def)
qed

text \<open>
  C28. No branch of the flow handlers leaks a slot: when a handler starts a worker exactly one slot and
  one worker were added, and when it does not, the engine is as it was. UDP is handled only to port 53
  or when enabled, and a guest's TCP handshake is completed only after the boundary accepted the dial.
  A worker gives its slot back once, as the last thing it does, on every path.
\<close>

theorem flow_handlers_balance_slots:
  "(case handle_tcp e a port of (r, e') \<Rightarrow>
      if is_ok r then eng_workers e' = eng_workers e + 1
          \<and> slot_used (eng_sessions e') = slot_used (eng_sessions e) + 1 \<and> \<not> eng_closed e
      else e' = e)
   \<and> (case handle_udp e a port ok of (w, e') \<Rightarrow>
        (case w of
           None \<Rightarrow> e' = e
         | Some k \<Rightarrow> eng_workers e' = eng_workers e + 1
             \<and> slot_used (eng_sessions e') = slot_used (eng_sessions e) + 1
             \<and> (k = DnsWorker \<longleftrightarrow> port = 53) \<and> (port = 53 \<or> eng_enable_udp e)))
   \<and> (CompleteAccept \<in> set (fst (tcp_worker dialer ok d dest))
        \<longleftrightarrow> fst (forward_dial dialer d dest) \<noteq> None \<and> ok)
   \<and> (\<exists>actions. fst (tcp_worker dialer ok d dest) = actions @ [ReleaseTCP] \<and> ReleaseTCP \<notin> set actions)
   \<and> (\<exists>actions. fst (run_udp_worker dialer d worker) = actions @ [ReleaseUDP] \<and> ReleaseUDP \<notin> set actions)"
proof -
  have undo: "engine_release (e\<lparr>eng_sessions := s\<lparr>slot_used := Suc (slot_used s)\<rparr>,
      eng_workers := Suc (eng_workers e)\<rparr>) = e" if "s = eng_sessions e" for s
    using that by (cases e) (simp add: engine_release_def give_slot_def)
  have releases: "\<exists>actions. fst (tcp_worker dialer ok d dest) = actions @ [ReleaseTCP] \<and> ReleaseTCP \<notin> set actions"
    "\<exists>actions. fst (run_udp_worker dialer d worker) = actions @ [ReleaseUDP] \<and> ReleaseUDP \<notin> set actions"
    by (auto simp: tcp_worker_def run_udp_worker_def Cons_eq_append_conv
        split: option.split prod.split udp_worker.split)
  have "CompleteAccept \<in> set (fst (tcp_worker dialer ok d dest))
      \<longleftrightarrow> fst (forward_dial dialer d dest) \<noteq> None \<and> ok"
    by (auto simp: tcp_worker_def split: option.split prod.split)
  with releases show ?thesis
    by (auto simp: handle_tcp_def handle_udp_def engine_acquire_def take_slot_def undo
        split: option.split prod.split)
qed

end
