(* ===== verification/Netns_Flows.thy ===== *)
theory Netns_Flows
  imports Engine "HOL-Library.Sublist"
begin

text \<open>
  The data path of the namespace proxy (sdk/pkg/netnsproxy): the original destination of redirected
  traffic (socket_linux.go), the packet flow that looks like a connection (packet_linux.go), and the
  accept and receive loops with their slots and flow table (proxy_linux.go). Parsed control messages,
  socket options and the reply socket are answers of the kernel and parameters. A flow table entry is
  the state of its \<open>packetFlow\<close>; channels of capacity 16 are lists, and where a Go \<open>select\<close> may pick any
  ready case the choice is an argument or a rule of its own.
\<close>

section \<open>Original destinations\<close>

record control_message =
  cm_level :: int
  cm_type :: int
  cm_data :: bytes

definition sol_ip :: int where "sol_ip = 0"
definition ip_origdstaddr :: int where "ip_origdstaddr = 20"
definition sol_ipv6 :: int where "sol_ipv6 = 41"
definition ipv6_origdstaddr :: int where "ipv6_origdstaddr = 74"
definition sizeof_sockaddr_inet4 :: nat where "sizeof_sockaddr_inet4 = 16"
definition sizeof_sockaddr_inet6 :: nat where "sizeof_sockaddr_inet6 = 28"

definition slice :: "nat \<Rightarrow> nat \<Rightarrow> bytes \<Rightarrow> bytes" where
  "slice i j bs = drop i (take j bs)"

definition no_destination :: addr_port where
  "no_destination = \<lparr>ap_addr = IPInvalid, ap_port = 0\<rparr>"

definition message_destination :: "addr_port \<Rightarrow> control_message \<Rightarrow> addr_port" where
  "message_destination destination m =
     (if cm_level m = sol_ip \<and> cm_type m = ip_origdstaddr \<and> length (cm_data m) \<ge> sizeof_sockaddr_inet4
      then \<lparr>ap_addr = IP4 (be_word (slice 4 8 (cm_data m))), ap_port = be_word (slice 2 4 (cm_data m))\<rparr>
      else if cm_level m = sol_ipv6 \<and> cm_type m = ipv6_origdstaddr
        \<and> length (cm_data m) \<ge> sizeof_sockaddr_inet6
      then \<lparr>ap_addr = IP6 (be_word (slice 8 24 (cm_data m))) [], ap_port = be_word (slice 2 4 (cm_data m))\<rparr>
      else destination)"

definition packet_destination :: "control_message list option \<Rightarrow> addr_port option" where
  "packet_destination messages =
     (case messages of
        None \<Rightarrow> None
      | Some ms \<Rightarrow>
          (let destination = foldl message_destination no_destination ms in
           if \<not> addr_port_valid destination \<or> ap_port destination = 0 then None else Some destination))"

text \<open>
  \<open>originalDestination\<close>: the bytes \<open>getsockopt\<close> returned for the local family. The IPv6 answer is read as
  a structure whose port is a native-endian field, and turned back into the bytes it came from.
\<close>

definition native_bytes :: "bool \<Rightarrow> u16 \<Rightarrow> bytes" where
  "native_bytes little w = (if little then rev (be_bytes 2 w) else be_bytes 2 w)"

definition native_word :: "bool \<Rightarrow> bytes \<Rightarrow> u16" where
  "native_word little bs = be_word (if little then rev bs else bs)"

definition original_destination :: "bool \<Rightarrow> bool \<Rightarrow> bytes option \<Rightarrow> addr_port option" where
  "original_destination little local_is4 answer =
     (case answer of
        None \<Rightarrow> None
      | Some raw \<Rightarrow>
          if local_is4 then
            Some \<lparr>ap_addr = IP4 (be_word (slice 4 8 raw)), ap_port = be_word (slice 2 4 raw)\<rparr>
          else
            (let field = native_word little (slice 2 4 raw) in
             Some \<lparr>ap_addr = IP6 (be_word (slice 8 24 raw)) [], ap_port = be_word (native_bytes little field)\<rparr>))"

section \<open>Packet flows\<close>

record packet_flow =
  pf_peer :: addr_port
  pf_packets :: "bytes list"
  pf_done :: bool
  pf_deadline :: "int option"

definition flow_capacity :: nat where "flow_capacity = 16"

definition new_flow :: "addr_port \<Rightarrow> packet_flow" where
  "new_flow peer = \<lparr>pf_peer = peer, pf_packets = [], pf_done = False, pf_deadline = None\<rparr>"

text \<open>
  A non-blocking send to the flow: dropped when the channel is full; when the flow is done as well as
  ready, either case may be picked.
\<close>

definition offer :: "bool \<Rightarrow> bytes \<Rightarrow> packet_flow \<Rightarrow> packet_flow" where
  "offer pick_done packet f =
     (if pf_done f \<and> pick_done then f
      else if length (pf_packets f) < flow_capacity then f\<lparr>pf_packets := pf_packets f @ [packet]\<rparr>
      else f)"

datatype flow_read = ReadClosed | ReadDeadline | ReadPacket bytes

definition expired :: "packet_flow \<Rightarrow> int \<Rightarrow> bool" where
  "expired f now = (case pf_deadline f of None \<Rightarrow> False | Some d \<Rightarrow> d \<le> now)"

text \<open>
  \<open>Read\<close> into a buffer of a given size: the loop is entered at one time and a case of its select is
  taken at a later one. A new deadline restarts the loop, which is a new entry.
\<close>

inductive flow_reads :: "packet_flow \<Rightarrow> int \<Rightarrow> int \<Rightarrow> nat \<Rightarrow> flow_read \<Rightarrow> packet_flow \<Rightarrow> bool" where
  late: "expired f entered \<Longrightarrow> flow_reads f entered now room ReadDeadline f"
| closed: "\<not> expired f entered \<Longrightarrow> entered \<le> now \<Longrightarrow> pf_done f \<Longrightarrow> flow_reads f entered now room ReadClosed f"
| packet: "\<not> expired f entered \<Longrightarrow> entered \<le> now \<Longrightarrow> pf_packets f = p # ps
    \<Longrightarrow> flow_reads f entered now room (ReadPacket (take room p)) (f\<lparr>pf_packets := ps\<rparr>)"
| timer: "\<not> expired f entered \<Longrightarrow> entered \<le> now \<Longrightarrow> expired f now
    \<Longrightarrow> flow_reads f entered now room ReadDeadline f"

inductive_cases flow_readsE: "flow_reads f entered now room out f'"

text \<open>\<open>Write\<close> passes the packet to the socket unless the flow is done; \<open>Close\<close> and \<open>SetReadDeadline\<close>.\<close>

definition flow_write :: "packet_flow \<Rightarrow> bytes \<Rightarrow> bytes option" where
  "flow_write f packet = (if pf_done f then None else Some packet)"

definition flow_close :: "packet_flow \<Rightarrow> packet_flow" where
  "flow_close f = f\<lparr>pf_done := True\<rparr>"

definition set_read_deadline :: "int option \<Rightarrow> packet_flow \<Rightarrow> packet_flow" where
  "set_read_deadline deadline f = f\<lparr>pf_deadline := deadline\<rparr>"

section \<open>The proxy\<close>

text \<open>
  The listener of each family keeps its own table, so a table key is the listener's index with the
  \<open>flowKey\<close>. \<open>np_finishing\<close> counts workers that have left the table and still hold their slot.
\<close>

record flow_key =
  fk_peer :: addr_port
  fk_destination :: addr_port

record netns_proxy =
  np_enable_udp :: bool
  np_slots :: slots
  np_flows :: "nat \<times> flow_key \<Rightarrow> packet_flow option"
  np_finishing :: nat
  np_tcp :: nat

definition new_proxy :: "bool \<Rightarrow> int \<Rightarrow> netns_proxy" where
  "new_proxy udp n =
     \<lparr>np_enable_udp = udp, np_slots = new_slots (nat (if n \<le> 0 then 1024 else n)), np_flows = (\<lambda>_. None),
      np_finishing = 0, np_tcp = 0\<rparr>"

text \<open>\<open>serveTCP\<close>: whether a worker starts, and what the worker does with the guest connection.\<close>

definition accept_tcp :: "netns_proxy \<Rightarrow> bool \<times> netns_proxy" where
  "accept_tcp p =
     (case take_slot (np_slots p) of
        (True, s) \<Rightarrow> (True, p\<lparr>np_slots := s, np_tcp := np_tcp p + 1\<rparr>)
      | (False, _) \<Rightarrow> (False, p))"

definition finish_tcp :: "netns_proxy \<Rightarrow> netns_proxy" where
  "finish_tcp p = p\<lparr>np_slots := give_slot (np_slots p), np_tcp := np_tcp p - 1\<rparr>"

datatype guest_end = GuestReset | GuestRelayed

definition serve_tcp_guest ::
  "(string \<Rightarrow> u16 \<Rightarrow> 'c option) \<Rightarrow> virtual_dns \<Rightarrow> addr_port option \<Rightarrow> guest_end \<times> virtual_dns" where
  "serve_tcp_guest dialer d destination =
     (case destination of
        None \<Rightarrow> (GuestReset, d)
      | Some dst \<Rightarrow>
          (case forward_dial dialer d dst of
             (None, d') \<Rightarrow> (GuestReset, d')
           | (Some _, d') \<Rightarrow> (GuestRelayed, d')))"

record datagram =
  dg_payload :: bytes
  dg_control :: "control_message list option"
  dg_truncated :: bool
  dg_peer :: addr_port

text \<open>One turn of \<open>serveUDP\<close> on a listener, with whether the reply socket could be made.\<close>

definition handle_datagram ::
  "nat \<Rightarrow> bool \<Rightarrow> bool \<Rightarrow> datagram \<Rightarrow> netns_proxy \<Rightarrow> netns_proxy" where
  "handle_datagram i socket_ok pick_done g p =
     (if dg_truncated g then p
      else
        (case packet_destination (dg_control g) of
           None \<Rightarrow> p
         | Some destination \<Rightarrow>
             if ap_port destination \<noteq> 53 \<and> \<not> np_enable_udp p then p
             else
               (let key = (i, \<lparr>fk_peer = dg_peer g, fk_destination = destination\<rparr>) in
                (case np_flows p key of
                   Some f \<Rightarrow> p\<lparr>np_flows := (np_flows p)(key \<mapsto> offer pick_done (dg_payload g) f)\<rparr>
                 | None \<Rightarrow>
                     (case take_slot (np_slots p) of
                        (False, _) \<Rightarrow> p
                      | (True, s) \<Rightarrow>
                          if \<not> socket_ok then p\<lparr>np_slots := give_slot s\<rparr>
                          else
                            p\<lparr>np_slots := s, np_flows := (np_flows p)
                                (key \<mapsto> offer pick_done (dg_payload g) (new_flow (dg_peer g)))\<rparr>)))))"

text \<open>
  The goroutines of a flow: a packet from the reply socket, a read or a deadline of the worker, the
  socket reader closing the flow, the worker leaving the table, and its slot coming back.
\<close>

definition update_flow ::
  "nat \<times> flow_key \<Rightarrow> (packet_flow \<Rightarrow> packet_flow) \<Rightarrow> netns_proxy \<Rightarrow> netns_proxy" where
  "update_flow key change p =
     (case np_flows p key of
        None \<Rightarrow> p
      | Some f \<Rightarrow> p\<lparr>np_flows := (np_flows p)(key \<mapsto> change f)\<rparr>)"

definition leave_table :: "nat \<times> flow_key \<Rightarrow> netns_proxy \<Rightarrow> netns_proxy" where
  "leave_table key p =
     (case np_flows p key of
        None \<Rightarrow> p
      | Some f \<Rightarrow> p\<lparr>np_flows := (np_flows p)(key := None), np_finishing := np_finishing p + 1\<rparr>)"

definition finish_udp :: "netns_proxy \<Rightarrow> netns_proxy" where
  "finish_udp p = p\<lparr>np_slots := give_slot (np_slots p), np_finishing := np_finishing p - 1\<rparr>"

text \<open>What the worker of a flow does: the DNS service on port 53, a relayed session otherwise.\<close>

definition flow_worker ::
  "(string \<Rightarrow> u16 \<Rightarrow> 'c option) \<Rightarrow> virtual_dns \<Rightarrow> flow_key \<Rightarrow> udp_action list \<times> virtual_dns" where
  "flow_worker dialer d key =
     (if ap_port (fk_destination key) = 53 then ([ServeGuestDNS], d)
      else
        (case forward_dial dialer d (fk_destination key) of
           (None, d') \<Rightarrow> ([CloseGuest], d')
         | (Some _, d') \<Rightarrow> ([RelayDatagrams, CloseGuest], d')))"

section \<open>Slots and flows\<close>

text \<open>Every interleaving of the loops and of the goroutines they start.\<close>

inductive netns_step :: "netns_proxy \<Rightarrow> netns_proxy \<Rightarrow> bool" where
  tcp_arrives: "netns_step p (snd (accept_tcp p))"
| tcp_ends: "0 < np_tcp p \<Longrightarrow> netns_step p (finish_tcp p)"
| datagram_arrives: "netns_step p (handle_datagram i socket_ok pick_done g p)"
| socket_delivers: "netns_step p (update_flow key (offer pick_done packet) p)"
| socket_ends: "netns_step p (update_flow key flow_close p)"
| worker_sets_deadline: "netns_step p (update_flow key (set_read_deadline deadline) p)"
| worker_reads: "np_flows p key = Some f \<Longrightarrow> flow_reads f entered now room out f'
    \<Longrightarrow> netns_step p (update_flow key (\<lambda>_. f') p)"
| worker_leaves: "netns_step p (leave_table key p)"
| worker_ends: "0 < np_finishing p \<Longrightarrow> netns_step p (finish_udp p)"

inductive_cases netns_stepE: "netns_step p p'"

definition flow_ok :: "bool \<Rightarrow> flow_key \<Rightarrow> packet_flow \<Rightarrow> bool" where
  "flow_ok udp key f =
     (length (pf_packets f) \<le> flow_capacity \<and> pf_peer f = fk_peer key
      \<and> addr_port_valid (fk_destination key) \<and> ap_port (fk_destination key) \<noteq> 0
      \<and> (udp \<or> ap_port (fk_destination key) = 53))"

definition netns_wf :: "netns_proxy \<Rightarrow> bool" where
  "netns_wf p \<longleftrightarrow> finite (dom (np_flows p))
     \<and> slot_used (np_slots p) = card (dom (np_flows p)) + np_finishing p + np_tcp p
     \<and> slot_used (np_slots p) \<le> slot_capacity (np_slots p)
     \<and> (\<forall>i key f. np_flows p (i, key) = Some f \<longrightarrow> flow_ok (np_enable_udp p) key f)"

lemma new_proxy_wf: "netns_wf (new_proxy udp n)"
  by (simp add: netns_wf_def new_proxy_def new_slots_def)

lemma packet_destinationD:
  "packet_destination messages = Some d \<Longrightarrow> addr_port_valid d \<and> ap_port d \<noteq> 0"
  by (auto simp: packet_destination_def Let_def split: option.splits if_splits)

lemma offer_ok: "flow_ok udp key f \<Longrightarrow> flow_ok udp key (offer pick packet f)"
  by (auto simp: offer_def flow_ok_def)

lemma flow_reads_ok: "flow_reads f entered now room out f' \<Longrightarrow> flow_ok udp key f \<Longrightarrow> flow_ok udp key f'"
  by (elim flow_readsE) (auto simp: flow_ok_def)

lemma update_flow_wf:
  assumes "netns_wf p" and "\<And>f. np_flows p (i, key) = Some f
      \<Longrightarrow> flow_ok (np_enable_udp p) key f \<Longrightarrow> flow_ok (np_enable_udp p) key (change f)"
  shows "netns_wf (update_flow (i, key) change p)"
proof (cases "np_flows p (i, key)")
  case (Some f)
  then have "dom (np_flows p) = insert (i, key) (dom (np_flows p))" by (simp add: insert_absorb domI)
  with assms Some show ?thesis by (auto simp: netns_wf_def update_flow_def)
qed (use assms in \<open>simp add: update_flow_def\<close>)

lemma add_flow_wf:
  assumes "netns_wf p" and "np_flows p (i, key) = None" and "take_slot (np_slots p) = (True, s)"
    and "flow_ok (np_enable_udp p) key f"
  shows "netns_wf (p\<lparr>np_slots := s, np_flows := (np_flows p)((i, key) \<mapsto> f)\<rparr>)"
proof -
  have "(i, key) \<notin> dom (np_flows p)" using assms(2) by auto
  with assms show ?thesis
    by (auto simp: netns_wf_def take_slot_def split: if_splits)
qed

lemma give_back_slot: "take_slot s = (True, s') \<Longrightarrow> give_slot s' = s"
  by (auto simp: take_slot_def give_slot_def split: if_splits)

lemma handle_datagram_wf:
  assumes "netns_wf p"
  shows "netns_wf (handle_datagram i socket_ok pick_done g p)"
proof (cases "packet_destination (dg_control g)")
  case None
  with assms show ?thesis by (simp add: handle_datagram_def)
next
  case (Some destination)
  let ?key = "\<lparr>fk_peer = dg_peer g, fk_destination = destination\<rparr>"
  show ?thesis
  proof (cases "dg_truncated g \<or> ap_port destination \<noteq> 53 \<and> \<not> np_enable_udp p")
    case True
    with assms Some show ?thesis by (auto simp: handle_datagram_def)
  next
    case False
    show ?thesis
    proof (cases "np_flows p (i, ?key)")
      case flow: (Some f)
      have "handle_datagram i socket_ok pick_done g p
          = update_flow (i, ?key) (offer pick_done (dg_payload g)) p"
        using Some False flow by (auto simp: handle_datagram_def update_flow_def)
      with update_flow_wf [OF assms] offer_ok show ?thesis by simp
    next
      case new: None
      have "flow_ok (np_enable_udp p) ?key (offer pick_done (dg_payload g) (new_flow (dg_peer g)))"
        using False packet_destinationD [OF Some]
        by (intro offer_ok) (auto simp: flow_ok_def new_flow_def)
      with Some False new assms add_flow_wf [OF assms new] show ?thesis
        by (auto simp: handle_datagram_def give_back_slot split: prod.splits bool.splits)
    qed
  qed
qed

lemma leave_table_wf: "netns_wf p \<Longrightarrow> netns_wf (leave_table key p)"
proof (cases "np_flows p key")
  case (Some f)
  assume wf: "netns_wf p"
  with Some have "card (dom (np_flows p)) = Suc (card (dom (np_flows p) - {key}))"
    by (intro card.remove [symmetric, THEN sym]) (auto simp: netns_wf_def)
  with wf Some show ?thesis by (auto simp: netns_wf_def leave_table_def)
qed (simp add: leave_table_def)

interpretation netns: admission accept_tcp finish_tcp "\<lambda>p. slot_used (np_slots p)"
  "\<lambda>p. slot_capacity (np_slots p)"
  by unfold_locales
    (auto simp: accept_tcp_def finish_tcp_def take_slot_def give_slot_def split: if_splits)

lemma tcp_slots_wf:
  "netns_wf p \<Longrightarrow> netns_wf (snd (accept_tcp p))"
  "netns_wf p \<Longrightarrow> 0 < np_tcp p \<Longrightarrow> netns_wf (finish_tcp p)"
  "netns_wf p \<Longrightarrow> 0 < np_finishing p \<Longrightarrow> netns_wf (finish_udp p)"
  by (auto simp: netns_wf_def accept_tcp_def finish_tcp_def finish_udp_def take_slot_def give_slot_def)

lemma netns_step_wf: "netns_step p p' \<Longrightarrow> netns_wf p \<Longrightarrow> netns_wf p'"
proof (induction rule: netns_step.induct)
  case (worker_reads p key f entered now room out f')
  then show ?case
    using update_flow_wf [of p "fst key" "snd key" "\<lambda>_. f'"] flow_reads_ok by (auto simp: netns_wf_def)
next
  case (socket_delivers p key pick_done packet)
  then show ?case using update_flow_wf [of p "fst key" "snd key"] offer_ok by simp
next
  case (socket_ends p key)
  then show ?case
    using update_flow_wf [of p "fst key" "snd key" flow_close] by (simp add: flow_close_def flow_ok_def)
next
  case (worker_sets_deadline p key deadline)
  then show ?case
    using update_flow_wf [of p "fst key" "snd key" "set_read_deadline deadline"]
    by (simp add: set_read_deadline_def flow_ok_def)
qed (simp_all add: handle_datagram_wf leave_table_wf tcp_slots_wf)

lemma handle_datagram_slots:
  "slot_capacity (np_slots (handle_datagram i socket_ok pick_done g p)) = slot_capacity (np_slots p)
    \<and> np_enable_udp (handle_datagram i socket_ok pick_done g p) = np_enable_udp p"
  by (simp add: handle_datagram_def take_slot_def give_slot_def Let_def split: option.splits if_splits)

lemma netns_step_limits:
  "netns_step p p' \<Longrightarrow> slot_capacity (np_slots p') = slot_capacity (np_slots p)
    \<and> np_enable_udp p' = np_enable_udp p"
  by (induction rule: netns_step.induct)
     (simp_all add: handle_datagram_slots update_flow_def leave_table_def accept_tcp_def finish_tcp_def
        finish_udp_def take_slot_def give_slot_def split: option.splits)

lemma netns_reachable:
  assumes "netns_step\<^sup>*\<^sup>* (new_proxy udp n) p"
  shows "netns_wf p \<and> slot_capacity (np_slots p) = nat (if n \<le> 0 then 1024 else n)
    \<and> np_enable_udp p = udp"
  using assms
proof (induction rule: rtranclp_induct)
  case base
  show ?case using new_proxy_wf by (simp add: new_proxy_def new_slots_def)
next
  case (step p p')
  with netns_step_wf netns_step_limits show ?case by simp
qed

text \<open>
  C29. In every interleaving of arrivals, packets, closing flows and ending workers, the namespace proxy
  holds exactly one slot for each TCP worker and each UDP worker, whether still in a flow table or
  leaving it, and together they never exceed \<open>MaxConnections\<close>; each flow replies to the peer of its key,
  queues at most 16 packets, has a valid destination, and is a DNS flow unless UDP is enabled.
\<close>

theorem netns_slots_match_workers:
  assumes "netns_step\<^sup>*\<^sup>* (new_proxy udp n) p"
  shows "finite (dom (np_flows p))
    \<and> slot_used (np_slots p) = card (dom (np_flows p)) + np_finishing p + np_tcp p
    \<and> card (dom (np_flows p)) + np_finishing p + np_tcp p \<le> nat (if n \<le> 0 then 1024 else n)
    \<and> (\<forall>i key f. np_flows p (i, key) = Some f \<longrightarrow>
         length (pf_packets f) \<le> 16 \<and> pf_peer f = fk_peer key
         \<and> addr_port_valid (fk_destination key) \<and> ap_port (fk_destination key) \<noteq> 0
         \<and> (udp \<or> ap_port (fk_destination key) = 53))"
  using netns_reachable [OF assms] unfolding netns_wf_def flow_ok_def flow_capacity_def by auto

definition sample_datagram :: datagram where
  "sample_datagram =
     \<lparr>dg_payload = [1, 2], dg_control = Some [\<lparr>cm_level = 0, cm_type = 20,
        cm_data = [2, 0, 0, 53, 100, 64, 0, 1, 0, 0, 0, 0, 0, 0, 0, 0]\<rparr>], dg_truncated = False,
      dg_peer = \<lparr>ap_addr = IP4 0x0A000002, ap_port = 4000\<rparr>\<rparr>"

lemma sample_datagram_destination:
  "packet_destination (dg_control sample_datagram) = Some \<lparr>ap_addr = IP4 0x64400001, ap_port = 53\<rparr>"
  by (simp add: sample_datagram_def packet_destination_def message_destination_def sol_ip_def
      ip_origdstaddr_def sizeof_sockaddr_inet4_def slice_def be_word_def addr_port_valid_def)

theorem netns_slots_match_workers_witness:
  "slot_used (np_slots (handle_datagram 0 True False sample_datagram (new_proxy False 1)))
     = card (dom (np_flows (handle_datagram 0 True False sample_datagram (new_proxy False 1))))
   \<and> np_flows (handle_datagram 0 True False sample_datagram (new_proxy False 1)) \<noteq> (\<lambda>_. None)"
proof -
  let ?p = "handle_datagram 0 True False sample_datagram (new_proxy False 1)"
  have "netns_step\<^sup>*\<^sup>* (new_proxy False 1) ?p" by (simp add: datagram_arrives r_into_rtranclp)
  from netns_slots_match_workers [OF this]
  have "slot_used (np_slots ?p) = card (dom (np_flows ?p)) + np_finishing ?p + np_tcp ?p" by blast
  moreover have "np_finishing ?p = 0 \<and> np_tcp ?p = 0 \<and> np_flows ?p \<noteq> (\<lambda>_. None)"
    using sample_datagram_destination
    by (auto simp: handle_datagram_def new_proxy_def new_slots_def take_slot_def Let_def sample_datagram_def
        dest: fun_cong)
  ultimately show ?thesis by simp
qed

section \<open>A flow is a queue\<close>

datatype flow_action = Offered bytes | Got nat bytes | Other

inductive flow_run :: "packet_flow \<Rightarrow> flow_action list \<Rightarrow> packet_flow \<Rightarrow> bool" where
  start: "flow_run f [] f"
| offered: "flow_run f as g \<Longrightarrow> flow_run f (as @ [Offered p]) (offer pick p g)"
| got: "flow_run f as g \<Longrightarrow> flow_reads g entered now room (ReadPacket bs) g'
    \<Longrightarrow> flow_run f (as @ [Got room bs]) g'"
| nothing: "flow_run f as g \<Longrightarrow> flow_reads g entered now room out g' \<Longrightarrow> out = ReadClosed \<or> out = ReadDeadline
    \<Longrightarrow> flow_run f (as @ [Other]) g'"
| shut_flow: "flow_run f as g \<Longrightarrow> flow_run f (as @ [Other]) (flow_close g)"
| deadline: "flow_run f as g \<Longrightarrow> flow_run f (as @ [Other]) (set_read_deadline d g)"

fun offered_packets :: "flow_action list \<Rightarrow> bytes list" where
  "offered_packets [] = []"
| "offered_packets (Offered p # as) = p # offered_packets as"
| "offered_packets (_ # as) = offered_packets as"

fun got_packets :: "flow_action list \<Rightarrow> (nat \<times> bytes) list" where
  "got_packets [] = []"
| "got_packets (Got room bs # as) = (room, bs) # got_packets as"
| "got_packets (_ # as) = got_packets as"

lemma action_lists_append [simp]:
  "offered_packets (as @ bs) = offered_packets as @ offered_packets bs"
  "got_packets (as @ bs) = got_packets as @ got_packets bs"
  by (induction as rule: offered_packets.induct) simp_all

text \<open>
  A packet flow is an ordered, bounded, lossy queue: over any sequence of offers, reads, deadlines
  and closing, the packets its reader gets are in order, without repetition, packets that were offered,
  each cut only to the reader's buffer, and what is still queued follows them, at most 16 packets.
\<close>

lemma packet_flow_fifo:
  assumes "flow_run (new_flow peer) as f"
  shows "\<exists>taken. subseq (taken @ pf_packets f) (offered_packets as)
    \<and> list_all2 (\<lambda>(room, bs) p. bs = take room p) (got_packets as) taken
    \<and> length (pf_packets f) \<le> 16"
  using assms
proof (induction "new_flow peer" as f rule: flow_run.induct)
  case start
  show ?case by (simp add: new_flow_def)
next
  case (offered as g p pick)
  then obtain taken where t: "subseq (taken @ pf_packets g) (offered_packets as)"
    "list_all2 (\<lambda>(room, bs) p. bs = take room p) (got_packets as) taken" "length (pf_packets g) \<le> 16" by blast
  have "subseq (taken @ pf_packets (offer pick p g)) (offered_packets as @ [p])"
    using t(1) list_emb_append_mono [OF t(1), of "[p]" "[p]"]
    by (auto simp: offer_def intro: list_emb_append2)
  moreover have "length (pf_packets (offer pick p g)) \<le> 16" using t(3) by (simp add: offer_def flow_capacity_def)
  ultimately show ?case using t(2) by auto
next
  case (got as g entered now room bs g')
  then obtain taken where t: "subseq (taken @ pf_packets g) (offered_packets as)"
    "list_all2 (\<lambda>(room, bs) p. bs = take room p) (got_packets as) taken" "length (pf_packets g) \<le> 16" by blast
  from got(3) obtain p where p: "pf_packets g = p # pf_packets g'" "bs = take room p"
    by (elim flow_readsE) auto
  with t show ?case by (intro exI [of _ "taken @ [p]"]) (auto intro: list_all2_appendI)
next
  case (nothing as g entered now room out g')
  then show ?case by (auto elim!: flow_readsE)
qed (simp_all add: flow_close_def set_read_deadline_def)

section \<open>The original port\<close>

lemma be_bytes_2: "be_bytes 2 (be_word [x, y] :: u16) = [x, y]"
proof -
  have "ucast (drop_bit 8 (push_bit 8 (ucast x) OR ucast y :: u16)) = x"
    by (rule bit_word_eqI) (auto simp: bit_simps dest: bit_imp_le_length)
  moreover have "ucast (push_bit 8 (ucast x) OR ucast y :: u16) = y"
    by (rule bit_word_eqI) (auto simp: bit_simps dest: bit_imp_le_length)
  ultimately show ?thesis by (simp add: be_word_def numeral_2_eq_2)
qed

lemma native_round_trip: "native_bytes little (native_word little [x, y]) = [x, y]"
  using be_bytes_2 [of x y] be_bytes_2 [of y x] by (simp add: native_bytes_def native_word_def)

lemma original_port_any_endian:
  assumes "original_destination little local_is4 (Some raw) = Some d" and "4 \<le> length raw"
  shows "ap_port d = be_word (slice 2 4 raw)"
proof -
  have "length (slice 2 4 raw) = 2" using assms(2) by (simp add: slice_def)
  then obtain x y where "slice 2 4 raw = [x, y]" by (auto simp: numeral_2_eq_2 length_Suc_conv)
  with assms(1) show ?thesis
    by (auto simp: original_destination_def native_round_trip Let_def split: if_splits)
qed

end
