(* ===== verification/Guest_Flows.thy ===== *)
theory Guest_Flows
  imports Netns_Flows
begin

text \<open>
  Guest flows end to end. The engine's handlers, the namespace proxy's workers and their DNS service all
  share one resolver; here they run in any order, and what a later flow is dialed by is traced back to
  the query that made its address known.
\<close>

section \<open>Everything that happens to the resolver\<close>

lemma resolver_at_rest: "store_later lookup recover d d"
  by (simp add: store_later_def)

lemma resolver_later_trans:
  "store_later lookup recover d d' \<Longrightarrow> store_later lookup recover d' d'' \<Longrightarrow> store_later lookup recover d d''"
  by (simp add: store_later_def)

lemma resolve_later: "store_later (resolve env) reverse d (snd (resolve env d name v6))"
  unfolding store_later_def by (blast intro: store_step.by_lookup)

lemma reverse_later: "store_later (resolve env) reverse d (snd (reverse d a))"
  unfolding store_later_def by (blast intro: store_step.by_recover)

lemma answer_question_resolver:
  "snd (snd (answer_question env d q))
    = (if q_class q \<noteq> class_inet then d
       else if q_type q = type_a then snd (resolve env d (q_name q) False)
       else if q_type q = type_aaaa then snd (resolve env d (q_name q) True) else d)"
  by (simp add: answer_question_def resolve4_def resolve6_def split: prod.split sum.split)

lemma handle_query_resolver:
  "snd (handle_query env parse pack d query)
    = (case parse query of None \<Rightarrow> d | Some (hdr, q) \<Rightarrow> snd (snd (answer_question env d q)))"
  by (simp add: handle_query_def split: option.split prod.split)

lemma handle_query_later: "store_later (resolve env) reverse d (snd (handle_query env parse pack d query))"
  by (simp add: handle_query_resolver answer_question_resolver resolve_later resolver_at_rest
      split: option.split prod.split)

lemma serve_dns_later:
  "store_later (resolve env) reverse d (snd (serve_dns env parse pack write_ok i d queries))"
proof (induction queries arbitrary: i d)
  case (Cons q qs)
  obtain response d' where h: "handle_query env parse pack d (take 1500 q) = (response, d')" by fastforce
  then have "store_later (resolve env) reverse d d'"
    using handle_query_later [of env d parse pack "take 1500 q"] by simp
  with h show ?case
    using Cons [of d' i] Cons [of d' "Suc i"]
    by (auto split: option.split prod.split dest: resolver_later_trans)
qed (simp add: resolver_at_rest)

lemma forward_dial_later: "store_later (resolve env) reverse d (snd (forward_dial dialer d destination))"
proof -
  have "snd (forward_dial dialer d destination)
      \<in> {d, snd (reverse d (unmap (ap_addr destination)))}"
    by (auto simp: forward_dial_def target_host_def target_host_of_def Let_def split: prod.splits option.splits)
  then show ?thesis using reverse_later resolver_at_rest by auto
qed

text \<open>One service of DNS, or one worker of the engine or of the namespace proxy.\<close>

inductive flow_activity :: "text_env \<Rightarrow> virtual_dns \<Rightarrow> virtual_dns \<Rightarrow> bool" for env :: text_env where
  dns_service: "flow_activity env d (snd (serve_dns env parse pack write_ok i d queries))"
| engine_tcp: "flow_activity env d (snd (tcp_worker (dialer :: string \<Rightarrow> u16 \<Rightarrow> unit option) endpoint_ok d destination))"
| engine_udp: "flow_activity env d (snd (run_udp_worker (dialer :: string \<Rightarrow> u16 \<Rightarrow> unit option) d w))"
| netns_tcp: "flow_activity env d (snd (serve_tcp_guest (dialer :: string \<Rightarrow> u16 \<Rightarrow> unit option) d redirected))"
| netns_udp: "flow_activity env d (snd (flow_worker (dialer :: string \<Rightarrow> u16 \<Rightarrow> unit option) d key))"

lemma worker_resolver:
  "snd (tcp_worker dialer ok d destination) = snd (forward_dial dialer d destination)"
  "snd (run_udp_worker dialer d w)
    = (case w of DnsWorker \<Rightarrow> d | UdpWorker dst \<Rightarrow> snd (forward_dial dialer d dst))"
  "snd (serve_tcp_guest dialer d redirected)
    = (case redirected of None \<Rightarrow> d | Some dst \<Rightarrow> snd (forward_dial dialer d dst))"
  "snd (flow_worker dialer d key)
    = (if ap_port (fk_destination key) = 53 then d else snd (forward_dial dialer d (fk_destination key)))"
  by (auto simp: tcp_worker_def run_udp_worker_def serve_tcp_guest_def flow_worker_def
      split: prod.splits option.splits udp_worker.splits)

lemma flow_activity_later:
  assumes "flow_activity env d d'"
  shows "store_later (resolve env) reverse d d'"
  using assms
  by cases (auto simp: worker_resolver serve_dns_later forward_dial_later resolver_at_rest
      split: udp_worker.split option.split)

lemma flow_activities_later:
  "(flow_activity env)\<^sup>*\<^sup>* d d' \<Longrightarrow> store_later (resolve env) reverse d d'"
  by (induction rule: rtranclp_induct) (auto intro: resolver_at_rest resolver_later_trans flow_activity_later)

section \<open>From the query to the dial\<close>

lemma answered_by_resolve:
  assumes "answer_question env d q = (rcode, Some a, d1)"
  shows "\<exists>v6. resolve env d (q_name q) v6 = (Inr a, d1)"
  using assms by (auto simp: answer_question_def resolve4_def resolve6_def split: if_splits prod.splits sum.splits)

lemma answered_flow_host:
  assumes "(flow_activity env)\<^sup>*\<^sup>* new_virtual_dns d" and "answer_question env d q = (rcode, Some a, d1)"
    and "(flow_activity env)\<^sup>*\<^sup>* d1 d2" and "port \<noteq> 0"
  shows "fst (target_host d2 \<lparr>ap_addr = a, ap_port = port\<rparr>)
    \<in> {Some (canonical env (q_name q)), Some (show_addr a)}"
proof -
  obtain v6 where r: "resolve env d (q_name q) v6 = (Inr a, d1)" using answered_by_resolve [OF assms(2)] by blast
  have wf: "dns_wf d" using dns.later_valid [OF flow_activities_later [OF assms(1)] new_virtual_dns_wf] .
  have ok: "assignable v6 a" using resolve_issued(1) [OF wf r] .
  then have a: "unmap a = a" "a \<noteq> IPInvalid" using assignable_not_invalid by auto
  show ?thesis
    using dns.target_host_preserves_name [OF wf r flow_activities_later [OF assms(3)] a assms(4)]
    by (simp add: target_host_def)
qed

lemma forward_dial_host:
  "forward_dial dialer d destination = (Some c, d')
    \<Longrightarrow> \<exists>host. fst (target_host d destination) = Some host \<and> dialer host (ap_port destination) = Some c"
  by (auto simp: forward_dial_def split: prod.splits option.splits)

text \<open>What each kind of worker needs before it carries any byte of a flow.\<close>

lemma carried_flows_dialed:
  "RelayFlow \<in> set (fst (tcp_worker dialer ok d destination))
    \<Longrightarrow> \<exists>c d'. forward_dial dialer d destination = (Some c, d')"
  "fst (serve_tcp_guest dialer d (Some destination)) = GuestRelayed
    \<Longrightarrow> \<exists>c d'. forward_dial dialer d destination = (Some c, d')"
  "RelayDatagrams \<in> set (fst (run_udp_worker dialer d (UdpWorker destination)))
    \<Longrightarrow> \<exists>c d'. forward_dial dialer d destination = (Some c, d')"
  "RelayDatagrams \<in> set (fst (flow_worker dialer d \<lparr>fk_peer = peer, fk_destination = destination\<rparr>))
    \<Longrightarrow> \<exists>c d'. forward_dial dialer d destination = (Some c, d')"
  by (auto simp: tcp_worker_def serve_tcp_guest_def run_udp_worker_def flow_worker_def
      split: prod.splits option.splits if_splits)

text \<open>
  From the query to the tunnel: take any history of DNS services and flows of the engine and of the
  namespace proxy on one resolver, an answer with an address, and any further history. A TCP or UDP
  flow to that address is then carried by any of the four kinds of worker only over a connection that
  the boundary granted for the queried name, or for the address itself once the name was forgotten:
  never over one granted for another name.
\<close>

lemma guest_flow_reaches_its_name:
  assumes "(flow_activity env)\<^sup>*\<^sup>* new_virtual_dns d" and "answer_question env d q = (rcode, Some a, d1)"
    and "(flow_activity env)\<^sup>*\<^sup>* d1 d2" and "port \<noteq> 0"
    and "RelayFlow \<in> set (fst (tcp_worker dialer ok d2 \<lparr>ap_addr = a, ap_port = port\<rparr>))
      \<or> fst (serve_tcp_guest dialer d2 (Some \<lparr>ap_addr = a, ap_port = port\<rparr>)) = GuestRelayed
      \<or> RelayDatagrams \<in> set (fst (run_udp_worker dialer d2 (UdpWorker \<lparr>ap_addr = a, ap_port = port\<rparr>)))
      \<or> RelayDatagrams \<in> set (fst (flow_worker dialer d2
           \<lparr>fk_peer = peer, fk_destination = \<lparr>ap_addr = a, ap_port = port\<rparr>\<rparr>))"
  shows "\<exists>host c. host \<in> {canonical env (q_name q), show_addr a} \<and> dialer host port = Some c"
proof -
  from assms(5) have "\<exists>c d'. forward_dial dialer d2 \<lparr>ap_addr = a, ap_port = port\<rparr> = (Some c, d')"
    by (elim disjE) (erule carried_flows_dialed)+
  then obtain c d' where "forward_dial dialer d2 \<lparr>ap_addr = a, ap_port = port\<rparr> = (Some c, d')" by blast
  from forward_dial_host [OF this] answered_flow_host [OF assms(1-4)] show ?thesis by auto
qed

end
