(* ===== verification/Policy.thy ===== *)
theory Policy
  imports Net_Addr
begin

text \<open>
  The data of the boundary's policy (sdk/cmd/connect-proxy/policy.go): port sets, transport sets,
  rules, the loaded policy, hostname normalization, the special-purpose address tables and rule
  selection. A nil slice of the source is \<open>None\<close> and a non-nil slice is \<open>Some\<close> of its elements; the
  rules a policy points to are never written after loading, so a pointer to a rule is the rule.
\<close>

section \<open>Ports\<close>

text \<open>
  A value of the descriptor's untyped \<open>ports\<close> list: a JSON number (the exact value of its float64),
  a string, or anything else.
\<close>

datatype json_value = JNumber rat | JString string | JOther

datatype load_error =
    EmptyPorts
  | PortNotInteger rat
  | PortBadType
  | InvalidPort string
  | ReversedRange string
  | EmptyTransports
  | UnknownTransport string
  | RuleKinds
  | IdTooLong
  | ResolveNeedsName
  | EmptyResolve
  | BadResolveAddress string
  | BadDepth
  | BadName string
  | BadSuffix string
  | BadIP string
  | BadCIDR string
  | CIDRZone string
  | MappedPrefixTooShort string
  | DecodeFailed
  | TrailingData
  | UnsupportedSchema int
  | VersionRequired
  | SandboxRequired
  | DefaultNotDeny string
  | InRule nat load_error
  | ResolvedFields nat
  | InResolved nat load_error
  | NotSpecialPurpose nat ip_prefix

record port_set =
  any_port :: bool
  port_ranges :: "(u16 \<times> u16) list"

definition permits :: "port_set \<Rightarrow> u16 \<Rightarrow> bool" where
  "permits p port =
     (any_port p \<or> list_ex (\<lambda>(lo, hi). lo \<le> port \<and> port \<le> hi) (port_ranges p))"

definition parse_port :: "string \<Rightarrow> u16 option" where
  "parse_port value =
     (case parse_uint 16 value of
        None \<Rightarrow> None
      | Some number \<Rightarrow> if number = 0 then None else Some (of_nat number))"

text \<open>
  Go's conversion of a float64 to int64: truncation, and the least int64 when the value does not fit.
\<close>

definition float_to_int64 :: "rat \<Rightarrow> int" where
  "float_to_int64 v =
     (let t = (if v < 0 then \<lceil>v\<rceil> else \<lfloor>v\<rfloor>) in
      if - (2 ^ 63) \<le> t \<and> t < 2 ^ 63 then t else - (2 ^ 63))"

definition port_text :: "json_value \<Rightarrow> load_error + string" where
  "port_text value =
     (case value of
        JNumber v \<Rightarrow>
          if v \<noteq> of_int (float_to_int64 v) then Inl (PortNotInteger v)
          else Inr (format_int (float_to_int64 v))
      | JString v \<Rightarrow> Inr v
      | JOther \<Rightarrow> Inl PortBadType)"

definition parse_port_range :: "string \<Rightarrow> load_error + (u16 \<times> u16)" where
  "parse_port_range text =
     (case cut_byte (CHR ''-'') text of (lo, hi, is_range) \<Rightarrow>
        (case parse_port lo of
           None \<Rightarrow> Inl (InvalidPort lo)
         | Some first \<Rightarrow>
             if is_range then
               (case parse_port hi of
                  None \<Rightarrow> Inl (InvalidPort hi)
                | Some final \<Rightarrow>
                    if final < first then Inl (ReversedRange text) else Inr (first, final))
             else Inr (first, first)))"

fun parse_port_list :: "port_set \<Rightarrow> json_value list \<Rightarrow> load_error + port_set" where
  "parse_port_list acc [] = Inr acc"
| "parse_port_list acc (value # rest) =
     (case port_text value of
        Inl e \<Rightarrow> Inl e
      | Inr text \<Rightarrow>
          (case parse_port_range text of
             Inl e \<Rightarrow> Inl e
           | Inr bounds \<Rightarrow>
               parse_port_list (acc\<lparr>port_ranges := port_ranges acc @ [bounds]\<rparr>) rest))"

definition parse_ports :: "json_value list option \<Rightarrow> load_error + port_set" where
  "parse_ports values =
     (case values of
        None \<Rightarrow> Inr \<lparr>any_port = True, port_ranges = []\<rparr>
      | Some vs \<Rightarrow>
          if vs = [] then Inl EmptyPorts
          else parse_port_list \<lparr>any_port = False, port_ranges = []\<rparr> vs)"

section \<open>Transports\<close>

record transport_set =
  t_tcp :: bool
  t_udp :: bool

definition has_transport :: "transport_set \<Rightarrow> string \<Rightarrow> bool" where
  "has_transport t network = (network = ''tcp'' \<and> t_tcp t \<or> network = ''udp'' \<and> t_udp t)"

fun parse_transport_list :: "transport_set \<Rightarrow> string list \<Rightarrow> load_error + transport_set" where
  "parse_transport_list acc [] = Inr acc"
| "parse_transport_list acc (value # rest) =
     (if value = ''tcp'' then parse_transport_list (acc\<lparr>t_tcp := True\<rparr>) rest
      else if value = ''udp'' then parse_transport_list (acc\<lparr>t_udp := True\<rparr>) rest
      else Inl (UnknownTransport value))"

definition parse_transports :: "string list option \<Rightarrow> load_error + transport_set" where
  "parse_transports values =
     (case values of
        None \<Rightarrow> Inr \<lparr>t_tcp = True, t_udp = False\<rparr>
      | Some vs \<Rightarrow>
          if vs = [] then Inl EmptyTransports
          else parse_transport_list \<lparr>t_tcp = False, t_udp = False\<rparr> vs)"

section \<open>Rules and policies\<close>

record policy_rule =
  rule_id :: string
  rule_ports :: port_set
  rule_transports :: transport_set
  rule_resolve :: "ip_addr list option"
  rule_prefix :: ip_prefix

record suffix_rule =
  sr_suffix :: string
  sr_depth :: int
  sr_rule :: policy_rule

record policy =
  pol_version :: string
  pol_sandbox :: string
  pol_generation :: string
  pol_udp :: bool
  pol_names :: "string \<Rightarrow> policy_rule list option"
  pol_suffixes :: "suffix_rule list"
  pol_wildcard :: "policy_rule list"
  pol_literals :: "policy_rule list"
  pol_exceptions :: "policy_rule list"

text \<open>Reading a missing key of the \<open>names\<close> map gives the nil slice.\<close>

definition names_at :: "policy \<Rightarrow> string \<Rightarrow> policy_rule list" where
  "names_at p name = (case pol_names p name of None \<Rightarrow> [] | Some rs \<Rightarrow> rs)"

fun select_loop ::
  "string \<Rightarrow> policy_rule list \<Rightarrow> u16 \<Rightarrow> string \<Rightarrow> policy_rule option \<times> string" where
  "select_loop reason [] port network = (None, reason)"
| "select_loop reason (r # rs) port network =
     (if \<not> permits (rule_ports r) port then
        select_loop (if reason = [] then ''port-not-allowed'' else reason) rs port network
      else if \<not> has_transport (rule_transports r) network then
        select_loop ''transport-not-allowed'' rs port network
      else (Some r, []))"

definition select_rule :: "policy_rule list \<Rightarrow> u16 \<Rightarrow> string \<Rightarrow> policy_rule option \<times> string" where
  "select_rule candidates port network = select_loop [] candidates port network"

section \<open>Hostnames\<close>

definition name_char :: "char \<Rightarrow> bool" where
  "name_char c = (let b = byte_of c in
     (97 \<le> b \<and> b \<le> 122) \<or> (48 \<le> b \<and> b \<le> 57) \<or> c = CHR ''-'' \<or> c = CHR ''_'')"

definition valid_label :: "string \<Rightarrow> bool" where
  "valid_label l = (l \<noteq> [] \<and> length l \<le> 63 \<and> list_all name_char l)"

definition valid_name :: "string \<Rightarrow> bool" where
  "valid_name name =
     (name \<noteq> [] \<and> length name \<le> 253 \<and> list_all valid_label (split_byte (CHR ''.'') name))"

definition normalize_name :: "text_env \<Rightarrow> string \<Rightarrow> string option" where
  "normalize_name env host =
     (let name = trim_suffix (to_lower env host) ''.'' in
      if name = [] then None
      else if parse_addr name \<noteq> None then None
      else (case idna_to_ascii env name of
              None \<Rightarrow> None
            | Some ascii \<Rightarrow> if valid_name ascii then Some ascii else None))"

section \<open>Special-purpose addresses\<close>

definition non_public :: "ip_prefix list" where
  "non_public = map must_parse_prefix
     [''0.0.0.0/8'', ''100.64.0.0/10'', ''192.0.0.0/24'', ''192.0.2.0/24'', ''198.18.0.0/15'',
      ''198.51.100.0/24'', ''203.0.113.0/24'', ''240.0.0.0/4'', ''64:ff9b::/96'',
      ''64:ff9b:1::/48'', ''100::/64'', ''2001::/23'', ''2001:db8::/32'', ''2002::/16'',
      ''3fff::/20'', ''5f00::/16'', ''fec0::/10'']"

definition public_address :: "ip_addr \<Rightarrow> bool" where
  "public_address a =
     (is_global_unicast a \<and> \<not> is_private a \<and> \<not> list_ex (\<lambda>p. prefix_contains p a) non_public)"

definition special_ranges :: "ip_prefix list" where
  "special_ranges = map must_parse_prefix
     [''10.0.0.0/8'', ''127.0.0.0/8'', ''169.254.0.0/16'', ''172.16.0.0/12'', ''192.168.0.0/16'',
      ''224.0.0.0/4'', ''::/128'', ''::1/128'', ''fc00::/7'', ''fe80::/10'', ''ff00::/8'']
     @ non_public"

definition special_purpose :: "ip_prefix \<Rightarrow> bool" where
  "special_purpose prefix =
     list_ex (\<lambda>r. is4 (prefix_ip r) = is4 (prefix_ip prefix)
       \<and> prefix_bits r \<le> prefix_bits prefix
       \<and> prefix_contains r (prefix_ip prefix)) special_ranges"

definition literal_rule :: "policy \<Rightarrow> ip_addr \<Rightarrow> u16 \<Rightarrow> policy_rule option" where
  "literal_rule p address port =
     find (\<lambda>r. prefix_contains (rule_prefix r) address \<and> permits (rule_ports r) port)
       (pol_literals p)"

definition excepted :: "policy \<Rightarrow> ip_addr \<Rightarrow> u16 \<Rightarrow> bool" where
  "excepted p address port =
     list_ex (\<lambda>r. prefix_contains (rule_prefix r) address \<and> permits (rule_ports r) port)
       (pol_exceptions p)"

definition listed :: "ip_addr list option \<Rightarrow> ip_addr \<Rightarrow> bool" where
  "listed addresses address =
     (case addresses of None \<Rightarrow> False | Some as \<Rightarrow> list_ex (\<lambda>a. a = address) as)"

text \<open>
  The special-purpose table of spec/draft/wire.md Section 5.1, in the order of that document: what
  \<open>public_address\<close> is to reject, stated without netip's classifiers.
\<close>

definition wire_special_ranges :: "ip_prefix list" where
  "wire_special_ranges = map must_parse_prefix
     [''0.0.0.0/8'', ''10.0.0.0/8'', ''100.64.0.0/10'', ''127.0.0.0/8'', ''169.254.0.0/16'',
      ''172.16.0.0/12'', ''192.0.0.0/24'', ''192.0.2.0/24'', ''192.168.0.0/16'', ''198.18.0.0/15'',
      ''198.51.100.0/24'', ''203.0.113.0/24'', ''224.0.0.0/4'', ''240.0.0.0/4'',
      ''::/128'', ''::1/128'', ''64:ff9b::/96'', ''64:ff9b:1::/48'', ''100::/64'', ''2001::/23'',
      ''2001:db8::/32'', ''2002::/16'', ''3fff::/20'', ''5f00::/16'', ''fc00::/7'', ''fe80::/10'',
      ''fec0::/10'', ''ff00::/8'']"

definition special_address :: "ip_addr \<Rightarrow> bool" where
  "special_address a = list_ex (\<lambda>r. prefix_contains r a) wire_special_ranges"

section \<open>The tables evaluated\<close>

lemma wire_special_ranges_eq:
  "wire_special_ranges =
     [Prefix (IP4 0) 9, Prefix (IP4 0x0A000000) 9, Prefix (IP4 0x64400000) 11,
      Prefix (IP4 0x7F000000) 9, Prefix (IP4 0xA9FE0000) 17, Prefix (IP4 0xAC100000) 13,
      Prefix (IP4 0xC0000000) 25, Prefix (IP4 0xC0000200) 25, Prefix (IP4 0xC0A80000) 17,
      Prefix (IP4 0xC6120000) 16, Prefix (IP4 0xC6336400) 25, Prefix (IP4 0xCB007100) 25,
      Prefix (IP4 0xE0000000) 5, Prefix (IP4 0xF0000000) 5,
      Prefix (IP6 0 []) 129, Prefix (IP6 1 []) 129,
      Prefix (IP6 0x0064FF9B000000000000000000000000 []) 97,
      Prefix (IP6 0x0064FF9B000100000000000000000000 []) 49,
      Prefix (IP6 0x01000000000000000000000000000000 []) 65,
      Prefix (IP6 0x20010000000000000000000000000000 []) 24,
      Prefix (IP6 0x20010DB8000000000000000000000000 []) 33,
      Prefix (IP6 0x20020000000000000000000000000000 []) 17,
      Prefix (IP6 0x3FFF0000000000000000000000000000 []) 21,
      Prefix (IP6 0x5F000000000000000000000000000000 []) 17,
      Prefix (IP6 0xFC000000000000000000000000000000 []) 8,
      Prefix (IP6 0xFE800000000000000000000000000000 []) 11,
      Prefix (IP6 0xFEC00000000000000000000000000000 []) 11,
      Prefix (IP6 0xFF000000000000000000000000000000 []) 9]"
  by (simp add: wire_special_ranges_def net_eval)

lemma non_public_eq:
  "non_public =
     [Prefix (IP4 0) 9, Prefix (IP4 0x64400000) 11, Prefix (IP4 0xC0000000) 25,
      Prefix (IP4 0xC0000200) 25, Prefix (IP4 0xC6120000) 16, Prefix (IP4 0xC6336400) 25,
      Prefix (IP4 0xCB007100) 25, Prefix (IP4 0xF0000000) 5,
      Prefix (IP6 0x0064FF9B000000000000000000000000 []) 97,
      Prefix (IP6 0x0064FF9B000100000000000000000000 []) 49,
      Prefix (IP6 0x01000000000000000000000000000000 []) 65,
      Prefix (IP6 0x20010000000000000000000000000000 []) 24,
      Prefix (IP6 0x20010DB8000000000000000000000000 []) 33,
      Prefix (IP6 0x20020000000000000000000000000000 []) 17,
      Prefix (IP6 0x3FFF0000000000000000000000000000 []) 21,
      Prefix (IP6 0x5F000000000000000000000000000000 []) 17,
      Prefix (IP6 0xFEC00000000000000000000000000000 []) 11]"
  by (simp add: non_public_def net_eval)

lemma special_ranges_eq:
  "special_ranges =
     [Prefix (IP4 0x0A000000) 9, Prefix (IP4 0x7F000000) 9, Prefix (IP4 0xA9FE0000) 17,
      Prefix (IP4 0xAC100000) 13, Prefix (IP4 0xC0A80000) 17, Prefix (IP4 0xE0000000) 5,
      Prefix (IP6 0 []) 129, Prefix (IP6 1 []) 129,
      Prefix (IP6 0xFC000000000000000000000000000000 []) 8,
      Prefix (IP6 0xFE800000000000000000000000000000 []) 11,
      Prefix (IP6 0xFF000000000000000000000000000000 []) 9] @ non_public"
  by (simp add: special_ranges_def net_eval)

section \<open>Classifiers as prefixes\<close>

lemma multicast4_iff: "multicast4 w \<longleftrightarrow> drop_bit 28 w = 0xE"
  using and_high_mask [of 24 4 4 w] push_drop_eq_iff [of 4 28 w "0xE0"]
  by (simp add: multicast4_def mask_numeral)

lemma link_local4_iff: "link_local4 w \<longleftrightarrow> drop_bit 16 w = 0xA9FE"
  using split_high_low [where k = 8 and n = 16 and w = w and a = 169 and b = 254]
  by (simp add: link_local4_def take_bit_eq_mask mask_numeral)

lemma private172_iff: "drop_bit 16 (w :: u32) AND 0xF0 = 16 \<longleftrightarrow> drop_bit 20 w AND 15 = 1"
proof -
  have "drop_bit 16 w AND push_bit 4 (mask 4) = push_bit 4 (drop_bit 20 w AND mask 4)"
    by (rule bit_word_eqI) (auto simp: bit_simps dest: bit_imp_le_length)
  moreover have "drop_bit 4 (push_bit 4 (x AND mask 4)) = x AND mask 4" for x :: u32
    by (rule bit_word_eqI) (auto simp: bit_simps)
  moreover have "mask 4 = (15 :: u32)" and "push_bit 4 15 = (0xF0 :: u32)"
    by (simp_all add: mask_numeral)
  ultimately have *: "drop_bit 16 w AND 0xF0 = push_bit 4 (drop_bit 20 w AND 15)"
    "drop_bit 4 (push_bit 4 (drop_bit 20 w AND 15)) = drop_bit 20 w AND 15"
    by metis+
  show ?thesis
  proof
    assume "drop_bit 16 w AND 0xF0 = 16"
    then have "push_bit 4 (drop_bit 20 w AND 15) = 16" by (simp only: * (1))
    from arg_cong [OF this, of "drop_bit 4"] have "drop_bit 20 w AND 15 = drop_bit 4 16"
      by (simp only: * (2))
    then show "drop_bit 20 w AND 15 = 1" by simp
  next
    assume "drop_bit 20 w AND 15 = 1"
    then show "drop_bit 16 w AND 0xF0 = 16" by (simp only: * (1)) simp
  qed
qed

lemma private4_iff:
  "private4 w \<longleftrightarrow> drop_bit 24 w = 10 \<or> drop_bit 20 w = 0xAC1 \<or> drop_bit 16 w = 0xC0A8"
  unfolding private4_def private172_iff
  using split_high_low [where k = 4 and n = 20 and w = w and a = 172 and b = 1]
    split_high_low [where k = 8 and n = 16 and w = w and a = 192 and b = 168]
  by (simp add: take_bit_eq_mask mask_numeral)

lemma link_local6_iff: "drop_bit 112 (w :: u128) AND 0xFFC0 = 0xFE80 \<longleftrightarrow> drop_bit 118 w = 0x3FA"
  using and_high_mask [of 112 6 10 w] push_drop_eq_iff [of 6 118 w "0xFE80"]
  by (simp add: mask_numeral)

lemma private6_iff: "drop_bit 120 (w :: u128) AND 0xFE = 0xFC \<longleftrightarrow> drop_bit 121 w = 0x7E"
  using and_high_mask [of 120 1 7 w] push_drop_eq_iff [of 1 121 w "0xFC"]
  by (simp add: mask_numeral)

lemmas classifier_iffs =
  multicast4_iff link_local4_iff private4_iff link_local6_iff private6_iff

section \<open>Ports\<close>

text \<open>A port set as the loader builds it: every port, or a non-empty list of ranges without port 0.\<close>

definition port_set_wf :: "port_set \<Rightarrow> bool" where
  "port_set_wf p =
     (if any_port p then port_ranges p = []
      else port_ranges p \<noteq> [] \<and> list_all (\<lambda>(lo, hi). 0 < lo \<and> lo \<le> hi) (port_ranges p))"

lemma parse_port_SomeD:
  assumes "parse_port v = Some n"
  shows "0 < n" and "parse_uint 16 v = Some (unat n)"
proof -
  from assms obtain k where k: "parse_uint 16 v = Some k" "k \<noteq> 0" "n = of_nat k"
    by (auto simp: parse_port_def split: option.splits if_splits)
  then have "unat n = k"
    using parse_uint_bound [of 16 v k] by (simp add: unat_of_nat)
  with k show "parse_uint 16 v = Some (unat n)" and "0 < n"
    by (auto simp: word_less_nat_alt)
qed

lemma parse_port_show [rule_match]:
  assumes "0 < n"
  shows "parse_port (show_nat (unat n)) = Some n"
proof -
  have "unat n < 2 ^ 16" using unsigned_less [of n, where 'a = nat] by simp
  with assms show ?thesis
    by (simp add: parse_port_def parse_uint_show_nat word_less_nat_alt)
qed

lemma parse_port_range_wf:
  "parse_port_range t = Inr (lo, hi) \<Longrightarrow> 0 < lo \<and> lo \<le> hi"
  by (auto simp: parse_port_range_def split: prod.splits option.splits if_splits
      dest: parse_port_SomeD(1))

lemma parse_port_list_ranges:
  assumes "parse_port_list acc vs = Inr p"
    and "list_all (\<lambda>(lo, hi). 0 < lo \<and> lo \<le> hi) (port_ranges acc)"
  shows "any_port p = any_port acc
    \<and> list_all (\<lambda>(lo, hi). 0 < lo \<and> lo \<le> hi) (port_ranges p)
    \<and> length (port_ranges p) = length (port_ranges acc) + length vs"
  using assms
proof (induction acc vs rule: parse_port_list.induct)
  case (2 acc v rest)
  from "2.prems"(1) obtain t lo hi where *: "port_text v = Inr t"
    "parse_port_range t = Inr (lo, hi)"
    "parse_port_list (acc\<lparr>port_ranges := port_ranges acc @ [(lo, hi)]\<rparr>) rest = Inr p"
    by (auto split: sum.splits)
  from "2.IH" [OF * (1,2,3)] "2.prems"(2) parse_port_range_wf [OF * (2)] show ?case by simp
qed simp

lemma parse_ports_wf [rule_match]: "parse_ports vs = Inr p \<Longrightarrow> port_set_wf p"
proof (cases vs)
  case (Some xs)
  assume "parse_ports vs = Inr p"
  with Some have *: "xs \<noteq> []" "parse_port_list \<lparr>any_port = False, port_ranges = []\<rparr> xs = Inr p"
    by (auto simp: parse_ports_def split: if_splits)
  from parse_port_list_ranges [OF * (2)] * (1) show "port_set_wf p"
    by (auto simp: port_set_wf_def)
qed (auto simp: parse_ports_def port_set_wf_def)

lemma permits_0: "port_set_wf p \<Longrightarrow> \<not> any_port p \<Longrightarrow> \<not> permits p 0"
  by (auto simp: permits_def port_set_wf_def list_ex_iff list_all_iff)

lemma parse_port_range_show:
  assumes "0 < lo" and "lo \<le> hi"
  shows "parse_port_range (show_nat (unat lo) @ CHR ''-'' # show_nat (unat hi)) = Inr (lo, hi)"
proof -
  have "0 < hi" using assms by simp
  have "CHR ''-'' \<notin> set (show_nat (unat lo))"
    by (rule digit_not_special(5) [OF show_nat_digits])
  with assms \<open>0 < hi\<close> show ?thesis
    by (simp add: parse_port_range_def cut_byte_append parse_port_show not_less)
qed

section \<open>Rule selection\<close>

definition rule_covers :: "u16 \<Rightarrow> string \<Rightarrow> policy_rule \<Rightarrow> bool" where
  "rule_covers port network r =
     (permits (rule_ports r) port \<and> has_transport (rule_transports r) network)"

lemma select_loop_eq:
  "select_loop reason rs port network =
     (case find (rule_covers port network) rs of
        Some r \<Rightarrow> (Some r, [])
      | None \<Rightarrow>
          (None,
           if list_ex (\<lambda>r. permits (rule_ports r) port) rs then ''transport-not-allowed''
           else if rs = [] \<or> reason \<noteq> [] then reason else ''port-not-allowed''))"
  by (induction rs arbitrary: reason) (auto simp: rule_covers_def split: option.splits)

lemma select_rule_eq [rule_match]:
  "select_rule rs port network =
     (case find (rule_covers port network) rs of
        Some r \<Rightarrow> (Some r, [])
      | None \<Rightarrow>
          (None,
           if list_ex (\<lambda>r. permits (rule_ports r) port) rs then ''transport-not-allowed''
           else if rs = [] then [] else ''port-not-allowed''))"
  by (auto simp: select_rule_def select_loop_eq split: option.splits)

lemma select_rule_SomeD:
  assumes "select_rule rs port network = (Some r, reason)"
  shows "r \<in> set rs \<and> rule_covers port network r \<and> reason = []"
  using assms by (auto simp: select_rule_eq find_Some_iff split: option.splits)

lemma select_rule_NoneD:
  assumes "select_rule rs port network = (None, reason)"
  shows "\<forall>r \<in> set rs. \<not> rule_covers port network r" and "reason = [] \<longleftrightarrow> rs = []"
  using assms by (auto simp: select_rule_eq find_None_iff split: option.splits if_splits)

lemma select_rule_set_cong:
  assumes "set rs = set rs'"
  shows "fst (select_rule rs port network) = None \<longleftrightarrow> fst (select_rule rs' port network) = None"
    and "snd (select_rule rs port network) = snd (select_rule rs' port network)"
proof -
  have "find (rule_covers port network) rs = None \<longleftrightarrow> find (rule_covers port network) rs' = None"
    using assms by (auto simp: find_None_iff)
  moreover have "rs = [] \<longleftrightarrow> rs' = []" using assms by (metis set_empty)
  moreover have "list_ex P rs = list_ex P rs'" for P using assms by (auto simp: list_ex_iff)
  ultimately show "fst (select_rule rs port network) = None
      \<longleftrightarrow> fst (select_rule rs' port network) = None"
    and "snd (select_rule rs port network) = snd (select_rule rs' port network)"
    by (cases "find (rule_covers port network) rs"; cases "find (rule_covers port network) rs'";
        simp add: select_rule_eq)+
qed

section \<open>Special-purpose addresses\<close>

lemma special_address_IP4:
  "special_address (IP4 w) \<longleftrightarrow>
     drop_bit 24 w \<in> {0, 10, 127} \<or> drop_bit 22 w = 0x191 \<or> drop_bit 16 w \<in> {0xA9FE, 0xC0A8}
     \<or> drop_bit 20 w = 0xAC1 \<or> drop_bit 8 w \<in> {0xC00000, 0xC00002, 0xC63364, 0xCB0071}
     \<or> drop_bit 17 w = 0x6309 \<or> drop_bit 28 w \<in> {0xE, 0xF}"
  by (simp add: special_address_def wire_special_ranges_eq prefix_contains_def prefix_valid_def
      eq_commute [of _ "drop_bit _ w"]) blast

lemma special_address_IP6:
  "special_address (IP6 w []) \<longleftrightarrow>
     w \<in> {0, 1} \<or> drop_bit 32 w = 0x0064FF9B0000000000000000 \<or> drop_bit 80 w = 0x0064FF9B0001
     \<or> drop_bit 64 w = 0x0100000000000000 \<or> drop_bit 105 w = 0x100080 \<or> drop_bit 96 w = 0x20010DB8
     \<or> drop_bit 112 w \<in> {0x2002, 0x5F00} \<or> drop_bit 108 w = 0x3FFF0 \<or> drop_bit 121 w = 0x7E
     \<or> drop_bit 118 w \<in> {0x3FA, 0x3FB} \<or> drop_bit 120 w = 0xFF"
  by (simp add: special_address_def wire_special_ranges_eq prefix_contains_def prefix_valid_def
      eq_commute [of _ "drop_bit _ w"] eq_commute [of _ w]) blast

lemma public_IP4: "public_address (IP4 w) \<longleftrightarrow> \<not> special_address (IP4 w)"
proof -
  have "w = 0 \<Longrightarrow> drop_bit 24 w = 0" and "w = 0xFFFFFFFF \<Longrightarrow> drop_bit 28 w = 0xF"
    by simp_all
  then show ?thesis
    by (auto simp: public_address_def is_global_unicast_def special_address_IP4 classifier_iffs
        non_public_eq prefix_contains_def prefix_valid_def eq_commute [of _ "drop_bit _ w"])
qed

lemma public_IP6:
  assumes "\<not> is4in6 (IP6 w [])"
  shows "public_address (IP6 w []) \<longleftrightarrow> \<not> special_address (IP6 w [])"
  using assms
  by (auto simp: public_address_def is_global_unicast_def special_address_IP6 classifier_iffs
      non_public_eq prefix_contains_def prefix_valid_def eq_commute [of _ "drop_bit _ w"])

text \<open>
  The boundary's address classifier \<open>publicAddress\<close>, which combines four netip classifiers with a
  table of seventeen prefixes, rejects exactly the addresses of the special-purpose table of the wire
  specification (Section 5.1), for every valid address without zone once an IPv4-mapped prefix has
  been removed.
\<close>

lemma public_address_iff_not_special:
  assumes "zone_of a = []" and "a \<noteq> IPInvalid"
  shows "public_address (unmap a) \<longleftrightarrow> \<not> special_address (unmap a)"
proof (cases a)
  case (IP6 w z)
  with assms show ?thesis
    by (cases "is4in6 (IP6 w [])") (simp_all add: public_IP4 public_IP6)
qed (use assms in \<open>simp_all add: public_IP4\<close>)

text \<open>A metadata-service address reached through its IPv4-mapped form, and a public one.\<close>

lemma special_ranges_wire: "r \<in> set special_ranges \<Longrightarrow> r \<in> set wire_special_ranges"
  by (auto simp: special_ranges_eq non_public_eq wire_special_ranges_eq)

lemma special_purpose_contains:
  assumes "special_purpose p" and "prefix_contains p a"
  shows "special_address a"
proof -
  from assms(1) obtain r where r: "r \<in> set special_ranges"
    "prefix_bits r \<le> prefix_bits p" "prefix_contains r (prefix_ip p)"
    by (auto simp: special_purpose_def list_ex_iff)
  then have "bits_plus_one r \<le> bits_plus_one p" by (simp add: prefix_bits_def)
  from prefix_contains_mono [OF r(3) this assms(2)] special_ranges_wire [OF r(1)]
  show ?thesis by (auto simp: special_address_def list_ex_iff)
qed

end
