(* ===== verification/Policy_Load.thy ===== *)
theory Policy_Load
  imports Policy
begin

text \<open>
  Loading a policy descriptor (sdk/cmd/connect-proxy/policy.go: descriptor, loadDescriptor, addRule,
  parsePrefix). The JSON decoder is a parameter: it maps the file's bytes to the decoded descriptor
  and to whether data follows it, or fails (which covers unknown fields, because the source sets
  DisallowUnknownFields). Everything the loader checks after decoding is modelled, each error as a
  value. The invariant \<open>policy_wf\<close> is what the loader guarantees of every policy it returns.
\<close>

record descriptor_rule =
  dr_id :: string
  dr_name :: string
  dr_suffix :: string
  dr_depth :: int
  dr_ip :: string
  dr_cidr :: string
  dr_ports :: "json_value list option"
  dr_transports :: "string list option"
  dr_resolve :: "string list option"

record descriptor =
  d_schema :: int
  d_version :: string
  d_sandbox :: string
  d_default :: string
  d_rules :: "descriptor_rule list"
  d_resolved :: "descriptor_rule list"
  d_udp :: bool
  d_h2 :: bool

definition parse_prefix :: "string \<Rightarrow> load_error + ip_prefix" where
  "parse_prefix text =
     (case parse_prefix_text text of
        None \<Rightarrow> Inl (BadCIDR text)
      | Some p \<Rightarrow>
          if zone_of (prefix_ip p) \<noteq> [] then Inl (CIDRZone text)
          else if is4in6 (prefix_ip p) then
            (if prefix_bits p < 96 then Inl (MappedPrefixTooShort text)
             else Inr (masked (prefix_from (unmap (prefix_ip p)) (prefix_bits p - 96))))
          else Inr (masked p))"

fun parse_resolve_list :: "ip_addr list \<Rightarrow> string list \<Rightarrow> load_error + ip_addr list" where
  "parse_resolve_list acc [] = Inr acc"
| "parse_resolve_list acc (raw # rest) =
     (case parse_addr raw of
        None \<Rightarrow> Inl (BadResolveAddress raw)
      | Some address \<Rightarrow>
          if zone_of address \<noteq> [] then Inl (BadResolveAddress raw)
          else parse_resolve_list (acc @ [unmap address]) rest)"

definition parse_resolve :: "descriptor_rule \<Rightarrow> load_error + ip_addr list option" where
  "parse_resolve dr =
     (case dr_resolve dr of
        None \<Rightarrow> Inr None
      | Some raws \<Rightarrow>
          if dr_name dr = [] \<or> dr_name dr = ''*'' then Inl ResolveNeedsName
          else if raws = [] then Inl EmptyResolve
          else (case parse_resolve_list [] raws of Inl e \<Rightarrow> Inl e | Inr as \<Rightarrow> Inr (Some as)))"

text \<open>The final \<open>switch\<close> of \<open>addRule\<close>: where the rule is stored.\<close>

definition store_rule ::
  "text_env \<Rightarrow> policy \<Rightarrow> descriptor_rule \<Rightarrow> policy_rule \<Rightarrow> load_error + policy" where
  "store_rule env p dr r =
     (if dr_name dr = ''*'' then Inr (p\<lparr>pol_wildcard := pol_wildcard p @ [r]\<rparr>)
      else if dr_name dr \<noteq> [] then
        (case normalize_name env (dr_name dr) of
           None \<Rightarrow> Inl (BadName (dr_name dr))
         | Some name \<Rightarrow>
             Inr (p\<lparr>pol_names := (pol_names p)(name \<mapsto> names_at p name @ [r])\<rparr>))
      else if dr_suffix dr \<noteq> [] then
        (case normalize_name env (dr_suffix dr) of
           None \<Rightarrow> Inl (BadSuffix (dr_suffix dr))
         | Some suf \<Rightarrow>
             Inr (p\<lparr>pol_suffixes := pol_suffixes p
                      @ [\<lparr>sr_suffix = suf, sr_depth = dr_depth dr, sr_rule = r\<rparr>]\<rparr>))
      else if dr_ip dr \<noteq> [] then
        (case parse_addr (dr_ip dr) of
           None \<Rightarrow> Inl (BadIP (dr_ip dr))
         | Some address \<Rightarrow>
             if zone_of address \<noteq> [] then Inl (BadIP (dr_ip dr))
             else (let a = unmap address in
                   Inr (p\<lparr>pol_literals := pol_literals p
                            @ [r\<lparr>rule_prefix := prefix_from a (int (bit_len a))\<rparr>]\<rparr>)))
      else
        (case parse_prefix (dr_cidr dr) of
           Inl e \<Rightarrow> Inl e
         | Inr pre \<Rightarrow> Inr (p\<lparr>pol_literals := pol_literals p @ [r\<lparr>rule_prefix := pre\<rparr>]\<rparr>)))"

definition rule_kinds :: "descriptor_rule \<Rightarrow> nat" where
  "rule_kinds dr =
     length (filter (\<lambda>f. f \<noteq> []) [dr_name dr, dr_suffix dr, dr_ip dr, dr_cidr dr])"

definition add_rule :: "text_env \<Rightarrow> policy \<Rightarrow> descriptor_rule \<Rightarrow> load_error + policy" where
  "add_rule env p dr =
     (if rule_kinds dr \<noteq> 1 then Inl RuleKinds
      else if length (dr_id dr) > 64 then Inl IdTooLong
      else
        (case parse_ports (dr_ports dr) of
           Inl e \<Rightarrow> Inl e
         | Inr ports \<Rightarrow>
        (case parse_transports (dr_transports dr) of
           Inl e \<Rightarrow> Inl e
         | Inr transports \<Rightarrow>
        (case parse_resolve dr of
           Inl e \<Rightarrow> Inl e
         | Inr resolved \<Rightarrow>
             if dr_depth dr \<noteq> 0 \<and> (dr_suffix dr = [] \<or> dr_depth dr < 0 \<or> dr_depth dr > 126)
             then Inl BadDepth
             else store_rule env p dr
               \<lparr>rule_id = dr_id dr, rule_ports = ports, rule_transports = transports,
                rule_resolve = resolved, rule_prefix = Prefix IPInvalid 0\<rparr>))))"

fun add_rules ::
  "text_env \<Rightarrow> nat \<Rightarrow> policy \<Rightarrow> descriptor_rule list \<Rightarrow> load_error + policy" where
  "add_rules env i p [] = Inr p"
| "add_rules env i p (dr # rest) =
     (case add_rule env p dr of
        Inl e \<Rightarrow> Inl (InRule i e)
      | Inr p' \<Rightarrow> add_rules env (Suc i) p' rest)"

definition only_cidr_and_ports :: "descriptor_rule \<Rightarrow> bool" where
  "only_cidr_and_ports dr =
     (dr_cidr dr \<noteq> [] \<and> dr_name dr = [] \<and> dr_suffix dr = [] \<and> dr_ip dr = []
      \<and> dr_transports dr = None \<and> dr_resolve dr = None \<and> dr_id dr = [] \<and> dr_depth dr = 0)"

fun add_exceptions :: "nat \<Rightarrow> policy \<Rightarrow> descriptor_rule list \<Rightarrow> load_error + policy" where
  "add_exceptions i p [] = Inr p"
| "add_exceptions i p (dr # rest) =
     (if \<not> only_cidr_and_ports dr then Inl (ResolvedFields i)
      else
        (case parse_prefix (dr_cidr dr) of
           Inl e \<Rightarrow> Inl (InResolved i e)
         | Inr pre \<Rightarrow>
             if \<not> special_purpose pre then Inl (NotSpecialPurpose i pre)
             else
               (case parse_ports (dr_ports dr) of
                  Inl e \<Rightarrow> Inl (InResolved i e)
                | Inr ports \<Rightarrow>
                    add_exceptions (Suc i)
                      (p\<lparr>pol_exceptions := pol_exceptions p @
                           [\<lparr>rule_id = [], rule_ports = ports,
                             rule_transports = \<lparr>t_tcp = False, t_udp = False\<rparr>,
                             rule_resolve = None, rule_prefix = pre\<rparr>]\<rparr>) rest)))"

definition empty_policy :: "descriptor \<Rightarrow> string \<Rightarrow> policy" where
  "empty_policy d generation =
     \<lparr>pol_version = d_version d, pol_sandbox = d_sandbox d, pol_generation = generation,
      pol_udp = d_udp d, pol_names = Map.empty, pol_suffixes = [], pol_wildcard = [],
      pol_literals = [], pol_exceptions = []\<rparr>"

definition load_decoded :: "text_env \<Rightarrow> descriptor \<Rightarrow> string \<Rightarrow> load_error + policy" where
  "load_decoded env d generation =
     (if d_schema d \<noteq> 1 then Inl (UnsupportedSchema (d_schema d))
      else if d_version d = [] \<or> length (d_version d) > 256 then Inl VersionRequired
      else if d_sandbox d = [] \<or> length (d_sandbox d) > 256 then Inl SandboxRequired
      else if d_default d \<noteq> ''deny'' then Inl (DefaultNotDeny (d_default d))
      else
        (case add_rules env 0 (empty_policy d generation) (d_rules d) of
           Inl e \<Rightarrow> Inl e
         | Inr p \<Rightarrow> add_exceptions 0 p (d_resolved d)))"

definition load_descriptor ::
  "text_env \<Rightarrow> (string \<Rightarrow> (descriptor \<times> bool) option) \<Rightarrow> string \<Rightarrow> string \<Rightarrow> load_error + policy" where
  "load_descriptor env decode data generation =
     (case decode data of
        None \<Rightarrow> Inl DecodeFailed
      | Some (d, more_data) \<Rightarrow>
          if more_data then Inl TrailingData else load_decoded env d generation)"

section \<open>The invariant of a loaded policy\<close>

definition dialable :: "ip_addr \<Rightarrow> bool" where
  "dialable a = (a \<noteq> IPInvalid \<and> zone_of a = [] \<and> \<not> is4in6 a)"

definition prefix_wf :: "ip_prefix \<Rightarrow> bool" where
  "prefix_wf p =
     (prefix_valid p \<and> dialable (prefix_ip p)
      \<and> bits_plus_one p \<le> Suc (bit_len (prefix_ip p)) \<and> masked p = p)"

definition transports_wf :: "transport_set \<Rightarrow> bool" where
  "transports_wf t = (t_tcp t \<or> t_udp t)"

definition rule_wf :: "policy_rule \<Rightarrow> bool" where
  "rule_wf r =
     (port_set_wf (rule_ports r) \<and> transports_wf (rule_transports r) \<and> length (rule_id r) \<le> 64
      \<and> (case rule_resolve r of None \<Rightarrow> True | Some as \<Rightarrow> as \<noteq> [] \<and> list_all dialable as))"

definition literal_wf :: "policy_rule \<Rightarrow> bool" where
  "literal_wf r = (rule_wf r \<and> rule_resolve r = None \<and> prefix_wf (rule_prefix r))"

definition suffix_wf :: "suffix_rule \<Rightarrow> bool" where
  "suffix_wf s =
     (valid_name (sr_suffix s) \<and> 0 \<le> sr_depth s \<and> sr_depth s \<le> 126
      \<and> rule_wf (sr_rule s) \<and> rule_resolve (sr_rule s) = None)"

definition exception_wf :: "policy_rule \<Rightarrow> bool" where
  "exception_wf r =
     (port_set_wf (rule_ports r) \<and> prefix_wf (rule_prefix r) \<and> special_purpose (rule_prefix r))"

definition names_wf :: "(string \<Rightarrow> policy_rule list option) \<Rightarrow> bool" where
  "names_wf m = (\<forall>name rs. m name = Some rs \<longrightarrow> valid_name name \<and> rs \<noteq> [] \<and> list_all rule_wf rs)"

definition policy_wf :: "policy \<Rightarrow> bool" where
  "policy_wf p =
     (names_wf (pol_names p)
      \<and> list_all suffix_wf (pol_suffixes p)
      \<and> list_all (\<lambda>r. rule_wf r \<and> rule_resolve r = None) (pol_wildcard p)
      \<and> list_all literal_wf (pol_literals p)
      \<and> list_all exception_wf (pol_exceptions p))"

section \<open>What the parsers return\<close>

lemma parse_addr_valid: "parse_addr s = Some a \<Longrightarrow> a \<noteq> IPInvalid"
  by (auto simp: parse_addr_def parse_ipv4_def parse_ipv6_def split: option.splits if_splits prod.splits)

lemma dialable_unmap: "a \<noteq> IPInvalid \<Longrightarrow> zone_of a = [] \<Longrightarrow> dialable (unmap a)"
  by (cases a) (auto simp: dialable_def)

lemma bit_len_mask_addr [simp]: "bit_len (mask_addr n a) = bit_len a"
  by (cases a) auto

lemma mask_addr_mapped: "is4in6 (mask_addr n a) \<Longrightarrow> is4in6 a"
proof (cases a)
  case (IP6 w z)
  assume mapped: "is4in6 (mask_addr n a)"
  let ?m = "push_bit (128 - n) (drop_bit (128 - n) w)"
  from mapped IP6 have m: "drop_bit 32 ?m = 0xFFFF" by simp
  have "128 - n \<le> 32"
  proof (rule ccontr)
    assume "\<not> 128 - n \<le> 32"
    then have "\<not> bit (drop_bit 32 ?m) 0" by (simp add: bit_simps)
    with m show False by simp
  qed
  then have "drop_bit 32 ?m = drop_bit 32 w"
    by (intro bit_word_eqI) (auto simp: bit_simps dest: bit_imp_le_length)
  with m IP6 show ?thesis by simp
qed simp_all

lemma masked_prefix_wf:
  assumes "prefix_valid p" and "dialable (prefix_ip p)"
    and "bits_plus_one p \<le> Suc (bit_len (prefix_ip p))"
  shows "prefix_wf (masked p)"
proof -
  have "mask_addr n (mask_addr n a) = mask_addr n a" for n a by (cases a) simp_all
  moreover have "zone_of (mask_addr n a) = zone_of a" for n a by (cases a) simp_all
  moreover have "mask_addr n a = IPInvalid \<longleftrightarrow> a = IPInvalid" for n a by (cases a) simp_all
  ultimately show ?thesis
    using assms mask_addr_mapped by (auto simp: prefix_wf_def masked_def prefix_valid_def dialable_def)
qed

lemma parse_prefix_text_SomeD:
  assumes "parse_prefix_text s = Some p"
  shows "prefix_valid p" and "zone_of (prefix_ip p) = []" and "prefix_ip p \<noteq> IPInvalid"
    and "bits_plus_one p \<le> Suc (bit_len (prefix_ip p))"
  using assms
  by (auto simp: parse_prefix_text_def prefix_from_def prefix_valid_def without_zone_def Let_def
      split: option.splits if_splits ip_addr.splits dest: parse_addr_valid)

lemma parse_prefix_wf:
  assumes "parse_prefix text = Inr p"
  shows "prefix_wf p"
proof -
  from assms obtain q where q: "parse_prefix_text text = Some q"
    by (auto simp: parse_prefix_def split: option.splits)
  note facts = parse_prefix_text_SomeD [OF q]
  show ?thesis
  proof (cases "is4in6 (prefix_ip q)")
    case False
    with assms q facts have "p = masked q"
      by (auto simp: parse_prefix_def)
    with False facts masked_prefix_wf [of q] show ?thesis by (simp add: dialable_def)
  next
    case True
    then obtain w where w: "prefix_ip q = IP6 w []"
      using facts(2) by (cases "prefix_ip q") auto
    let ?r = "prefix_from (unmap (prefix_ip q)) (prefix_bits q - 96)"
    from True assms q facts have "\<not> prefix_bits q < 96" and p: "p = masked ?r"
      by (auto simp: parse_prefix_def split: if_splits)
    moreover have "prefix_bits q \<le> 128" using facts(4) w by (simp add: prefix_bits_def)
    ultimately have "prefix_valid ?r" "dialable (prefix_ip ?r)"
      "bits_plus_one ?r \<le> Suc (bit_len (prefix_ip ?r))"
      using True w by (auto simp: prefix_from_def prefix_valid_def dialable_def without_zone_def)
    with p masked_prefix_wf show ?thesis by simp
  qed
qed

lemma full_prefix_wf: "dialable a \<Longrightarrow> prefix_wf (prefix_from a (int (bit_len a)))"
  by (cases a)
     (auto simp: prefix_wf_def prefix_from_def prefix_valid_def dialable_def without_zone_def
        masked_def)

lemma parse_resolve_list_dialable:
  "parse_resolve_list acc raws = Inr as \<Longrightarrow> list_all dialable acc
    \<Longrightarrow> list_all dialable as \<and> length as = length acc + length raws"
  by (induction acc raws rule: parse_resolve_list.induct)
     (auto split: option.splits if_splits intro: dialable_unmap dest: parse_addr_valid)

lemma parse_resolve_SomeD:
  assumes "parse_resolve dr = Inr (Some as)"
  shows "as \<noteq> [] \<and> list_all dialable as \<and> dr_name dr \<noteq> [] \<and> dr_name dr \<noteq> ''*''"
  using assms parse_resolve_list_dialable [of "[]"]
  by (fastforce simp: parse_resolve_def split: option.splits if_splits sum.splits)

lemma parse_transport_list_wf:
  "parse_transport_list acc vs = Inr t \<Longrightarrow> vs \<noteq> [] \<or> transports_wf acc \<Longrightarrow> transports_wf t"
  by (induction acc vs rule: parse_transport_list.induct)
     (auto simp: transports_wf_def split: if_splits)

lemma parse_transports_wf: "parse_transports vs = Inr t \<Longrightarrow> transports_wf t"
  using parse_transport_list_wf [of "\<lparr>t_tcp = False, t_udp = False\<rparr>"]
  by (auto simp: parse_transports_def transports_wf_def split: option.splits if_splits)

lemma normalize_name_valid: "normalize_name env host = Some name \<Longrightarrow> valid_name name"
  by (auto simp: normalize_name_def Let_def split: if_splits option.splits)

section \<open>Every load step keeps the invariant\<close>

lemma names_at_wf: "policy_wf p \<Longrightarrow> list_all rule_wf (names_at p name)"
  by (auto simp: policy_wf_def names_wf_def names_at_def split: option.splits)

lemma names_wf_update:
  "names_wf m \<Longrightarrow> valid_name name \<Longrightarrow> rs \<noteq> [] \<Longrightarrow> list_all rule_wf rs
    \<Longrightarrow> names_wf (m(name \<mapsto> rs))"
  by (simp add: names_wf_def)

lemma add_ruleE:
  assumes "add_rule env p dr = Inr p'"
  obtains r where "rule_wf r" and "store_rule env p dr r = Inr p'"
    and "rule_resolve r \<noteq> None \<longrightarrow> dr_name dr \<noteq> [] \<and> dr_name dr \<noteq> ''*''"
    and "rule_kinds dr = 1" and "0 \<le> dr_depth dr" and "dr_depth dr \<le> 126"
    and "rule_id r = dr_id dr" and "parse_ports (dr_ports dr) = Inr (rule_ports r)"
    and "parse_transports (dr_transports dr) = Inr (rule_transports r)"
    and "parse_resolve dr = Inr (rule_resolve r)"
proof -
  from assms obtain ports transports resolved where
    *: "parse_ports (dr_ports dr) = Inr ports"
      "parse_transports (dr_transports dr) = Inr transports"
      "parse_resolve dr = Inr resolved" "length (dr_id dr) \<le> 64" "rule_kinds dr = 1"
      "0 \<le> dr_depth dr" "dr_depth dr \<le> 126"
    and stored: "store_rule env p dr
      \<lparr>rule_id = dr_id dr, rule_ports = ports, rule_transports = transports,
       rule_resolve = resolved, rule_prefix = Prefix IPInvalid 0\<rparr> = Inr p'"
    by (auto simp: add_rule_def split: if_splits sum.splits)
  let ?r = "\<lparr>rule_id = dr_id dr, rule_ports = ports, rule_transports = transports,
    rule_resolve = resolved, rule_prefix = Prefix IPInvalid 0\<rparr>"
  have "rule_wf ?r"
    using * by (auto simp: rule_wf_def split: option.splits
        dest: parse_ports_wf parse_transports_wf parse_resolve_SomeD)
  with that [of ?r] stored * parse_resolve_SomeD show ?thesis by auto
qed

lemma rule_wf_prefix [simp]: "rule_wf (r\<lparr>rule_prefix := x\<rparr>) = rule_wf r"
  by (simp add: rule_wf_def)

lemma store_rule_wf:
  assumes "store_rule env p dr r = Inr p'" and "policy_wf p" and "rule_wf r"
    and "rule_resolve r \<noteq> None \<longrightarrow> dr_name dr \<noteq> [] \<and> dr_name dr \<noteq> ''*''"
    and "0 \<le> dr_depth dr" and "dr_depth dr \<le> 126"
  shows "policy_wf p'"
proof -
  consider (wild) "dr_name dr = ''*''" | (name) "dr_name dr \<noteq> ''*''" "dr_name dr \<noteq> []"
    | (suf) "dr_name dr = []" "dr_suffix dr \<noteq> []"
    | (ip) "dr_name dr = []" "dr_suffix dr = []" "dr_ip dr \<noteq> []"
    | (cidr) "dr_name dr = []" "dr_suffix dr = []" "dr_ip dr = []"
    by blast
  then show ?thesis
  proof cases
    case wild
    with assms show ?thesis by (auto simp: store_rule_def policy_wf_def)
  next
    case name
    with assms(1) obtain n where n: "normalize_name env (dr_name dr) = Some n"
      "p' = p\<lparr>pol_names := (pol_names p)(n \<mapsto> names_at p n @ [r])\<rparr>"
      by (auto simp: store_rule_def split: option.splits)
    with assms names_at_wf [OF assms(2)] normalize_name_valid [OF n(1)] show ?thesis
      by (simp add: policy_wf_def names_wf_update)
  next
    case suf
    with assms show ?thesis
      by (auto simp: store_rule_def policy_wf_def suffix_wf_def split: option.splits
          dest: normalize_name_valid)
  next
    case ip
    with assms(1) obtain a where a: "parse_addr (dr_ip dr) = Some a" "zone_of a = []"
      by (auto simp: store_rule_def split: option.splits if_splits)
    with ip assms full_prefix_wf [OF dialable_unmap [OF parse_addr_valid [OF a(1)] a(2)]]
    show ?thesis by (auto simp: store_rule_def policy_wf_def literal_wf_def Let_def)
  next
    case cidr
    with assms parse_prefix_wf show ?thesis
      by (auto simp: store_rule_def policy_wf_def literal_wf_def split: sum.splits)
  qed
qed

lemma add_rule_wf: "add_rule env p dr = Inr p' \<Longrightarrow> policy_wf p \<Longrightarrow> policy_wf p'"
  by (erule add_ruleE) (blast intro: store_rule_wf)

lemma add_rules_wf: "add_rules env i p drs = Inr p' \<Longrightarrow> policy_wf p \<Longrightarrow> policy_wf p'"
  by (induction env i p drs rule: add_rules.induct) (auto split: sum.splits intro: add_rule_wf)

lemma add_exceptions_wf: "add_exceptions i p drs = Inr p' \<Longrightarrow> policy_wf p \<Longrightarrow> policy_wf p'"
proof (induction i p drs rule: add_exceptions.induct)
  case (2 i p dr rest)
  from "2.prems"(1) obtain pre ports where *: "only_cidr_and_ports dr"
    "parse_prefix (dr_cidr dr) = Inr pre" "special_purpose pre" "parse_ports (dr_ports dr) = Inr ports"
    by (auto split: if_splits sum.splits)
  then have "exception_wf \<lparr>rule_id = [], rule_ports = ports,
    rule_transports = \<lparr>t_tcp = False, t_udp = False\<rparr>, rule_resolve = None, rule_prefix = pre\<rparr>"
    using parse_prefix_wf parse_ports_wf by (simp add: exception_wf_def)
  with "2.prems"(2) * "2.IH" [OF _ * (2) _ * (4)] "2.prems"(1) show ?case
    by (simp add: policy_wf_def)
qed simp

lemma load_decoded_wf:
  assumes "load_decoded env d generation = Inr p"
  shows "policy_wf p"
proof -
  have "policy_wf (empty_policy d generation)" by (simp add: policy_wf_def names_wf_def empty_policy_def)
  with assms show ?thesis
    by (auto simp: load_decoded_def split: if_splits sum.splits
        intro: add_exceptions_wf add_rules_wf)
qed

end
