(* ===== verification/Authorize.thy ===== *)
theory Authorize
  imports Policy_Load
begin

text \<open>
  Authorizing one destination under a loaded policy (sdk/cmd/connect-proxy/policy.go: verdict and
  policy.authorize). The resolver is a parameter: it maps the normalized hostname to the addresses
  it resolves to, or fails. A verdict is allowed when its reason is empty and no resolution error is
  set; its addresses are the only ones the boundary may dial.
\<close>

record verdict =
  v_destination :: string
  v_addresses :: "ip_addr list"
  v_rule :: string
  v_reason :: string
  v_status :: nat
  v_err :: bool

type_synonym resolver = "string \<Rightarrow> ip_addr list option"

definition new_verdict :: "string \<Rightarrow> verdict" where
  "new_verdict dest =
     \<lparr>v_destination = dest, v_addresses = [], v_rule = [], v_reason = [], v_status = 403,
      v_err = False\<rparr>"

definition deny_verdict :: "verdict \<Rightarrow> nat \<Rightarrow> string \<Rightarrow> verdict" where
  "deny_verdict v status reason = v\<lparr>v_status := status, v_reason := reason\<rparr>"

definition authorize_literal ::
  "policy \<Rightarrow> verdict \<Rightarrow> ip_addr \<Rightarrow> string \<Rightarrow> u16 \<Rightarrow> string \<Rightarrow> verdict" where
  "authorize_literal p v0 raw port number network =
     (if zone_of raw \<noteq> [] then deny_verdict v0 403 ''scoped-ip''
      else
        (let address = unmap raw;
             v = v0\<lparr>v_destination := join_host_port (show_addr address) port\<rparr>;
             candidates = filter (\<lambda>r. prefix_contains (rule_prefix r) address) (pol_literals p) in
         (case select_rule candidates number network of
            (Some r, reason) \<Rightarrow> v\<lparr>v_addresses := [address], v_rule := rule_id r\<rparr>
          | (None, reason) \<Rightarrow>
              if reason \<noteq> [] then deny_verdict v 403 reason
              else deny_verdict v 403 ''ip-not-on-allowlist'')))"

definition suffix_matches :: "string \<Rightarrow> suffix_rule \<Rightarrow> bool" where
  "suffix_matches name s =
     (has_suffix name (CHR ''.'' # sr_suffix s)
      \<and> \<not> (sr_depth s > 0
           \<and> int (count_byte (CHR ''.'') (take (length name - length (sr_suffix s) - 1) name)) + 1
               > sr_depth s))"

definition name_candidates :: "policy \<Rightarrow> string \<Rightarrow> policy_rule list" where
  "name_candidates p name =
     names_at p name @ map sr_rule (filter (suffix_matches name) (pol_suffixes p))
       @ pol_wildcard p"

definition keep_address :: "policy \<Rightarrow> policy_rule \<Rightarrow> u16 \<Rightarrow> ip_addr \<Rightarrow> bool" where
  "keep_address p selected number address =
     (listed (rule_resolve selected) address \<or> literal_rule p address number \<noteq> None
      \<or> excepted p address number \<or> public_address address)"

definition checked_addresses ::
  "policy \<Rightarrow> policy_rule \<Rightarrow> u16 \<Rightarrow> ip_addr list \<Rightarrow> ip_addr list" where
  "checked_addresses p selected number resolved =
     filter (\<lambda>a. zone_of a = [] \<and> keep_address p selected number a) (map unmap resolved)"

definition authorize_name ::
  "resolver \<Rightarrow> policy \<Rightarrow> verdict \<Rightarrow> string \<Rightarrow> string \<Rightarrow> u16 \<Rightarrow> string \<Rightarrow> verdict" where
  "authorize_name lookup p v0 name port number network =
     (let v = v0\<lparr>v_destination := join_host_port name port\<rparr> in
      (case select_rule (name_candidates p name) number network of
         (None, reason) \<Rightarrow>
           if reason \<noteq> [] then deny_verdict v 403 reason
           else deny_verdict v 403 ''not-on-allowlist''
       | (Some r, reason) \<Rightarrow>
           (let v1 = v\<lparr>v_rule := rule_id r\<rparr> in
            (case (case rule_resolve r of Some as \<Rightarrow> Some as | None \<Rightarrow> lookup name) of
               None \<Rightarrow> v1\<lparr>v_err := True\<rparr>
             | Some resolved \<Rightarrow>
                 (let kept = checked_addresses p r number resolved;
                      v2 = v1\<lparr>v_addresses := kept\<rparr> in
                  if kept = [] then deny_verdict v2 403 ''resolved-address-denied'' else v2)))))"

definition authorize ::
  "text_env \<Rightarrow> resolver \<Rightarrow> policy \<Rightarrow> string \<Rightarrow> string \<Rightarrow> string \<Rightarrow> verdict" where
  "authorize env lookup p host port network =
     (let v = new_verdict (join_host_port host port) in
      (case parse_port port of
         None \<Rightarrow> deny_verdict v 400 ''malformed-port''
       | Some number \<Rightarrow>
           (case parse_addr (to_lower env host) of
              Some address \<Rightarrow> authorize_literal p v address port number network
            | None \<Rightarrow>
                (case normalize_name env host of
                   None \<Rightarrow> deny_verdict v 400 ''malformed-target''
                 | Some name \<Rightarrow> authorize_name lookup p v name port number network))))"

text \<open>
  The package-level \<open>authorize\<close>, with the current policy (nil before one is loaded) as an argument: the
  addresses, the reason token and whether resolution failed.
\<close>

definition authorize_current ::
  "text_env \<Rightarrow> resolver \<Rightarrow> policy option \<Rightarrow> string \<Rightarrow> string \<Rightarrow> ip_addr list \<times> string \<times> bool" where
  "authorize_current env lookup current host port =
     (case current of
        None \<Rightarrow> ([], ''policy-unavailable'', False)
      | Some p \<Rightarrow>
          (let v = authorize env lookup p host port ''tcp'' in
           (v_addresses v, v_reason v, v_err v)))"

definition allowed :: "verdict \<Rightarrow> bool" where
  "allowed v = (v_reason v = [] \<and> \<not> v_err v)"

section \<open>Shape of a verdict\<close>

lemma select_loop_reason_ne:
  "snd (select_rule rs port network) \<noteq> [] \<Longrightarrow> fst (select_rule rs port network) = None"
  by (auto simp: select_rule_eq split: option.splits)

lemma new_verdict_simps [simp]:
  "v_addresses (new_verdict d) = []" "v_reason (new_verdict d) = []" "v_err (new_verdict d) = False"
  "v_status (new_verdict d) = 403"
  by (simp_all add: new_verdict_def)

lemma deny_verdict_simps [simp]:
  "v_addresses (deny_verdict v s r) = v_addresses v" "v_reason (deny_verdict v s r) = r"
  "v_status (deny_verdict v s r) = s" "v_err (deny_verdict v s r) = v_err v"
  "v_rule (deny_verdict v s r) = v_rule v"
  "v_destination (deny_verdict v s r) = v_destination v"
  by (simp_all add: deny_verdict_def)

definition verdict_shape :: "verdict \<Rightarrow> bool" where
  "verdict_shape v =
     ((v_reason v = [] \<and> \<not> v_err v \<and> v_addresses v \<noteq> [])
      \<or> (v_reason v \<noteq> [] \<and> \<not> v_err v \<and> v_addresses v = [] \<and> v_status v \<in> {400, 403})
      \<or> (v_reason v = [] \<and> v_err v \<and> v_addresses v = []))"

lemma authorize_literal_shape:
  "verdict_shape (authorize_literal p (new_verdict d) raw port number network)"
  by (auto simp: authorize_literal_def verdict_shape_def Let_def split: option.splits prod.splits)

lemma authorize_name_shape:
  "verdict_shape (authorize_name lookup p (new_verdict d) name port number network)"
  by (auto simp: authorize_name_def verdict_shape_def Let_def split: option.splits prod.splits)

lemma authorize_shape:
  "verdict_shape (authorize env lookup p host port network)"
proof -
  have "verdict_shape (deny_verdict (new_verdict d) 400 (c # cs))" for d c cs
    by (simp add: verdict_shape_def)
  then show ?thesis
    by (auto simp: authorize_def authorize_literal_shape authorize_name_shape Let_def
        split: option.splits)
qed

text \<open>
  C15. A verdict of the boundary is exactly one of three: an allowance with at least one address to
  dial, a refusal with a non-empty reason token, HTTP status 400 or 403 and no address, or a failed
  resolution with no reason and no address. Nothing can be dialed unless the destination was allowed.
\<close>

theorem authorize_trichotomy:
  "verdict_shape (authorize env lookup p host port network)"
  by (rule authorize_shape)

section \<open>What an allowance rests on\<close>

text \<open>The address was matched as a literal, or as a resolution result of a matched name.\<close>

definition literal_permits :: "policy \<Rightarrow> ip_addr \<Rightarrow> u16 \<Rightarrow> string \<Rightarrow> bool" where
  "literal_permits p a number network =
     list_ex (\<lambda>r. prefix_contains (rule_prefix r) a \<and> rule_covers number network r) (pol_literals p)"

definition name_permits :: "policy \<Rightarrow> string \<Rightarrow> ip_addr \<Rightarrow> u16 \<Rightarrow> string \<Rightarrow> bool" where
  "name_permits p name a number network =
     list_ex (\<lambda>r. rule_covers number network r \<and> keep_address p r number a) (name_candidates p name)"

lemma authorize_literal_address:
  assumes "a \<in> set (v_addresses (authorize_literal p (new_verdict d) raw port number network))"
  shows "a = unmap raw \<and> zone_of raw = [] \<and> literal_permits p a number network"
proof -
  let ?cs = "filter (\<lambda>r. prefix_contains (rule_prefix r) (unmap raw)) (pol_literals p)"
  from assms obtain r reason where
    sel: "select_rule ?cs number network = (Some r, reason)" and a: "a = unmap raw" "zone_of raw = []"
    by (auto simp: authorize_literal_def Let_def split: option.splits prod.splits if_splits)
  from select_rule_SomeD [OF sel] a show ?thesis
    by (auto simp: literal_permits_def list_ex_iff)
qed

lemma authorize_name_address:
  assumes "a \<in> set (v_addresses (authorize_name lookup p (new_verdict d) name port number network))"
  shows "zone_of a = [] \<and> \<not> is4in6 a \<and> name_permits p name a number network"
proof -
  from assms obtain r reason resolved where
    sel: "select_rule (name_candidates p name) number network = (Some r, reason)"
    and a: "a \<in> set (checked_addresses p r number resolved)"
    by (auto simp: authorize_name_def Let_def split: option.splits prod.splits if_splits)
  from a have "zone_of a = []" "\<not> is4in6 a" "keep_address p r number a"
    by (auto simp: checked_addresses_def)
  with select_rule_SomeD [OF sel] show ?thesis
    by (auto simp: name_permits_def list_ex_iff)
qed

section \<open>A sample policy\<close>

text \<open>
  Input for the witnesses: a policy with one rule of each kind and one exception, as the loader
  builds it.
\<close>

definition sample_rule :: "string \<Rightarrow> u16 \<Rightarrow> ip_prefix \<Rightarrow> policy_rule" where
  "sample_rule i port pre =
     \<lparr>rule_id = i, rule_ports = \<lparr>any_port = False, port_ranges = [(port, port)]\<rparr>,
      rule_transports = \<lparr>t_tcp = True, t_udp = False\<rparr>, rule_resolve = None, rule_prefix = pre\<rparr>"

definition sample_policy :: policy where
  "sample_policy =
     \<lparr>pol_version = ''v1'', pol_sandbox = ''box'', pol_generation = ''g1'', pol_udp = True,
      pol_names = [''api.example.com'' \<mapsto> [sample_rule ''api'' 443 (Prefix IPInvalid 0)]],
      pol_suffixes = [\<lparr>sr_suffix = ''example.org'', sr_depth = 1,
                       sr_rule = sample_rule ''org'' 443 (Prefix IPInvalid 0)\<rparr>],
      pol_wildcard = [],
      pol_literals = [sample_rule ''net'' 443 (Prefix (IP4 0xCB007100) 25)],
      pol_exceptions = [sample_rule [] 443 (Prefix (IP4 0x0A000000) 9)]\<rparr>"

lemmas policy_eval =
  net_eval show_eval permits_def parse_port_def has_transport_def names_at_def select_rule_def
  name_char_def valid_label_def valid_name_def normalize_name_def literal_rule_def excepted_def
  listed_def rule_covers_def suffix_matches_def name_candidates_def keep_address_def
  checked_addresses_def authorize_literal_def authorize_name_def authorize_def
  new_verdict_def deny_verdict_def ascii_env_def sample_rule_def sample_policy_def
  literal_permits_def name_permits_def

section \<open>Properties\<close>

lemma authorize_addressD:
  assumes "a \<in> set (v_addresses (authorize env lookup p host port network))"
  shows "\<exists>number. parse_port port = Some number \<and>
    ((\<exists>raw. parse_addr (to_lower env host) = Some raw \<and> zone_of raw = [] \<and> a = unmap raw
        \<and> literal_permits p a number network)
     \<or> (\<exists>name. parse_addr (to_lower env host) = None \<and> normalize_name env host = Some name
        \<and> zone_of a = [] \<and> \<not> is4in6 a \<and> name_permits p name a number network))"
proof -
  from assms obtain number where number: "parse_port port = Some number"
    by (auto simp: authorize_def Let_def split: option.splits)
  show ?thesis
  proof (cases "parse_addr (to_lower env host)")
    case (Some raw)
    with assms number have
      "a \<in> set (v_addresses (authorize_literal p (new_verdict (join_host_port host port)) raw
         port number network))"
      by (simp add: authorize_def)
    from authorize_literal_address [OF this] number Some show ?thesis by blast
  next
    case None
    with assms number obtain name where name: "normalize_name env host = Some name"
      by (auto simp: authorize_def Let_def split: option.splits)
    with None assms number have
      "a \<in> set (v_addresses (authorize_name lookup p (new_verdict (join_host_port host port)) name
         port number network))"
      by (simp add: authorize_def)
    from authorize_name_address [OF this] number None name show ?thesis by blast
  qed
qed

text \<open>
  C16. Every address a verdict lets the boundary dial was authorized on the requested port and
  transport: a literal destination is its own unmapped address, covered by a literal rule; a
  hostname's address passed the check of Section 5.2 under a rule that matches the normalized name
  (listed in that rule, permitted as a literal for the port, excepted for the port, or public).
\<close>

theorem authorize_addresses_authorized:
  assumes "a \<in> set (v_addresses (authorize env lookup p host port network))"
  shows "\<exists>number. parse_port port = Some number \<and>
    ((\<exists>raw. parse_addr (to_lower env host) = Some raw \<and> zone_of raw = [] \<and> a = unmap raw
        \<and> literal_permits p a number network)
     \<or> (\<exists>name. parse_addr (to_lower env host) = None \<and> normalize_name env host = Some name
        \<and> zone_of a = [] \<and> \<not> is4in6 a \<and> name_permits p name a number network))"
  using assms by (rule authorize_addressD)

theorem authorize_addresses_authorized_witness:
  "\<exists>number. parse_port ''443'' = Some number \<and>
    ((\<exists>raw. parse_addr (to_lower ascii_env ''API.example.com.'') = Some raw \<and> zone_of raw = []
        \<and> IP4 0x08080808 = unmap raw \<and> literal_permits sample_policy (IP4 0x08080808) number ''tcp'')
     \<or> (\<exists>name. parse_addr (to_lower ascii_env ''API.example.com.'') = None
        \<and> normalize_name ascii_env ''API.example.com.'' = Some name
        \<and> zone_of (IP4 0x08080808) = [] \<and> \<not> is4in6 (IP4 0x08080808)
        \<and> name_permits sample_policy name (IP4 0x08080808) number ''tcp''))"
proof (rule authorize_addresses_authorized)
  show "IP4 0x08080808 \<in> set (v_addresses (authorize ascii_env (\<lambda>_. Some [IP4 0x08080808])
    sample_policy ''API.example.com.'' ''443'' ''tcp''))"
    by (simp add: policy_eval public_IP4 special_address_IP4)
qed

text \<open>
  No server-side request forgery through a permitted hostname: when a hostname's verdict offers an
  address of the special-purpose table (loopback, private, link-local, metadata, ...), the policy
  grants that very address for the requested port, by the matched rule's \<open>resolve\<close> list, by a literal
  rule, or by a \<open>resolved_addresses\<close> exception. A name permission alone never reaches such an address.
\<close>

lemma special_address_needs_grant:
  assumes "a \<in> set (v_addresses (authorize env lookup p host port network))"
    and "parse_addr (to_lower env host) = None" and "special_address a"
  shows "\<exists>number name r. parse_port port = Some number \<and> normalize_name env host = Some name
    \<and> r \<in> set (name_candidates p name) \<and> rule_covers number network r
    \<and> (listed (rule_resolve r) a \<or> literal_rule p a number \<noteq> None \<or> excepted p a number)"
proof -
  from authorize_addressD [OF assms(1)] assms(2) obtain number name where
    *: "parse_port port = Some number" "normalize_name env host = Some name"
      "zone_of a = []" "\<not> is4in6 a" "name_permits p name a number network"
    by auto
  have "a \<noteq> IPInvalid"
    using assms(3) by (auto simp: special_address_def prefix_contains_def list_ex_iff)
  with * (3) assms(3) have "\<not> public_address (unmap a)"
    using public_IP4 public_IP6 * (4) by (cases a) auto
  moreover have "unmap a = a" using * (4) by (cases a) auto
  ultimately show ?thesis using *
    by (auto simp: name_permits_def keep_address_def list_ex_iff)
qed

lemma authorize_literal_reason:
  assumes "parse_port port = Some number" and "parse_addr (to_lower env host) = Some raw"
    and "zone_of raw = []"
  shows "v_reason (authorize env lookup p host port network) = []
    \<longleftrightarrow> literal_permits p (unmap raw) number network"
proof -
  let ?cs = "filter (\<lambda>r. prefix_contains (rule_prefix r) (unmap raw)) (pol_literals p)"
  have "literal_permits p (unmap raw) number network \<longleftrightarrow> find (rule_covers number network) ?cs \<noteq> None"
    by (auto simp: literal_permits_def list_ex_iff find_None_iff)
  with assms show ?thesis
    by (cases "find (rule_covers number network) ?cs")
       (auto simp: authorize_def authorize_literal_def select_rule_eq Let_def)
qed

text \<open>
  The decision on an IP literal is the algorithm of wire.md Section 5.2, branch by branch: a scoped
  address is refused, a covering literal rule allows exactly the unmapped address, and otherwise the
  reason tells whether some rule contains the address with the port but not the transport, contains
  it without the port, or none contains it.
\<close>

lemma authorize_literal_decision:
  assumes "parse_port port = Some number" and "parse_addr (to_lower env host) = Some raw"
  shows "let v = authorize env lookup p host port network;
             a = unmap raw;
             here = (\<lambda>r. prefix_contains (rule_prefix r) a) in
    if zone_of raw \<noteq> [] then v_reason v = ''scoped-ip'' \<and> v_addresses v = []
    else if literal_permits p a number network then v_reason v = [] \<and> v_addresses v = [a]
    else v_addresses v = [] \<and> v_status v = 403 \<and> v_reason v =
      (if list_ex (\<lambda>r. here r \<and> permits (rule_ports r) number) (pol_literals p)
       then ''transport-not-allowed''
       else if list_ex here (pol_literals p) then ''port-not-allowed''
       else ''ip-not-on-allowlist'')"
proof -
  let ?here = "\<lambda>r. prefix_contains (rule_prefix r) (unmap raw)"
  let ?cs = "filter ?here (pol_literals p)"
  have perm: "literal_permits p (unmap raw) number network
      \<longleftrightarrow> find (rule_covers number network) ?cs \<noteq> None"
    by (auto simp: literal_permits_def list_ex_iff find_None_iff)
  have port: "list_ex (\<lambda>r. permits (rule_ports r) number) ?cs
      \<longleftrightarrow> list_ex (\<lambda>r. ?here r \<and> permits (rule_ports r) number) (pol_literals p)"
    by (auto simp: list_ex_iff)
  have none: "?cs = [] \<longleftrightarrow> \<not> list_ex ?here (pol_literals p)"
    by (auto simp: list_ex_iff filter_empty_conv)
  have v: "authorize env lookup p host port network = authorize_literal p
      (new_verdict (join_host_port host port)) raw port number network"
    using assms by (simp add: authorize_def)
  show ?thesis
  proof (cases "zone_of raw = []")
    case False
    then show ?thesis by (simp add: v authorize_literal_def)
  next
    case True
    then show ?thesis
      by (cases "find (rule_covers number network) ?cs")
         (auto simp: v authorize_literal_def select_rule_eq perm port none Let_def)
  qed
qed

text \<open>
  Name rules, suffix rules, the wildcard, resolved-address exceptions and the resolver have no
  influence on a literal destination: replacing all of them leaves the verdict unchanged. In
  particular neither the wildcard name nor an exception ever authorizes a literal.
\<close>

lemma literal_ignores_name_rules:
  assumes "parse_addr (to_lower env host) = Some raw"
  shows "authorize env lookup p host port network
    = authorize env lookup'
        (p\<lparr>pol_names := names, pol_suffixes := sufs, pol_wildcard := wild, pol_exceptions := excs\<rparr>)
        host port network"
  using assms by (simp add: authorize_def authorize_literal_def Let_def split: option.split)

section \<open>Suffix rules\<close>

definition labels :: "string \<Rightarrow> string list" where
  "labels name = split_byte (CHR ''.'') name"

lemma suffix_split:
  "has_suffix name (CHR ''.'' # suf) \<longleftrightarrow> (\<exists>front. name = front @ CHR ''.'' # suf)"
  by (simp add: has_suffix_iff)

lemma has_suffix_labels:
  "has_suffix name (CHR ''.'' # suf) \<longleftrightarrow> (\<exists>front. front \<noteq> [] \<and> labels name = front @ labels suf)"
proof
  assume "has_suffix name (CHR ''.'' # suf)"
  then obtain front where "name = front @ CHR ''.'' # suf" by (auto simp: suffix_split)
  then have "labels name = labels front @ labels suf"
    by (simp add: labels_def split_byte_append_sep)
  then show "\<exists>front. front \<noteq> [] \<and> labels name = front @ labels suf"
    by (metis labels_def split_byte_not_Nil)
next
  assume "\<exists>front. front \<noteq> [] \<and> labels name = front @ labels suf"
  then obtain front where f: "front \<noteq> []" "labels name = front @ labels suf" by blast
  have "join_byte (CHR ''.'') (front @ labels suf)
      = join_byte (CHR ''.'') front @ CHR ''.'' # join_byte (CHR ''.'') (labels suf)"
    using f(1)
  proof (induction front)
    case (Cons x xs)
    then show ?case by (cases xs; cases "labels suf") (auto simp: labels_def)
  qed simp
  then have "name = join_byte (CHR ''.'') front @ CHR ''.'' # suf"
    using f(2) by (metis join_split_byte labels_def)
  then show "has_suffix name (CHR ''.'' # suf)" by (auto simp: suffix_split)
qed

text \<open>
  A suffix rule matches a name exactly when the name's labels are some further labels, at least
  one, followed by the suffix's labels, and a positive depth bounds how many there are. So the
  suffix itself never matches, and neither does a name that merely ends in the same text.
\<close>

lemma suffix_matches_iff_labels:
  "suffix_matches name s \<longleftrightarrow>
     (\<exists>front. front \<noteq> [] \<and> labels name = front @ labels (sr_suffix s)
        \<and> (sr_depth s \<le> 0 \<or> int (length front) \<le> sr_depth s))"
proof (cases "has_suffix name (CHR ''.'' # sr_suffix s)")
  case False
  then show ?thesis by (auto simp: suffix_matches_def has_suffix_labels)
next
  case True
  then obtain front where name: "name = front @ CHR ''.'' # sr_suffix s"
    by (auto simp: suffix_split)
  then have split: "labels name = labels front @ labels (sr_suffix s)"
    by (simp add: labels_def split_byte_append_sep)
  have "take (length name - length (sr_suffix s) - 1) name = front"
    by (simp add: name)
  then have depth: "suffix_matches name s
      \<longleftrightarrow> (sr_depth s \<le> 0 \<or> int (length (labels front)) \<le> sr_depth s)"
    using True by (auto simp: suffix_matches_def labels_def length_split_byte)
  have "labels front \<noteq> []" by (simp add: labels_def)
  with split depth show ?thesis by auto
qed

text \<open>A name one label below the suffix matches with depth 1, one two labels below does not.\<close>

section \<open>Order of the rules\<close>

definition without_resolve :: "policy_rule list \<Rightarrow> bool" where
  "without_resolve rs = list_all (\<lambda>r. rule_resolve r = None) rs"

lemma keep_address_without_resolve:
  "rule_resolve r = None \<Longrightarrow> rule_resolve r' = None
    \<Longrightarrow> keep_address p r number a = keep_address p r' number a"
  by (simp add: keep_address_def listed_def)

lemma authorize_name_set_cong:
  assumes sets: "set (name_candidates p name) = set (name_candidates q name)"
    and plain: "without_resolve (name_candidates p name)"
    and same: "\<And>a. literal_rule p a number = None \<longleftrightarrow> literal_rule q a number = None"
      "\<And>a. excepted p a number = excepted q a number"
  shows "v_addresses (authorize_name lookup p v name port number network)
      = v_addresses (authorize_name lookup q v name port number network)
    \<and> v_reason (authorize_name lookup p v name port number network)
      = v_reason (authorize_name lookup q v name port number network)
    \<and> v_err (authorize_name lookup p v name port number network)
      = v_err (authorize_name lookup q v name port number network)"
proof -
  let ?sp = "select_rule (name_candidates p name) number network"
  let ?sq = "select_rule (name_candidates q name) number network"
  note cong = select_rule_set_cong [OF sets, of number network]
  show ?thesis
  proof (cases "fst ?sp")
    case None
    with cong have "fst ?sq = None" "snd ?sq = snd ?sp" by simp_all
    with None show ?thesis
      by (cases ?sp; cases ?sq) (simp add: authorize_name_def Let_def)
  next
    case (Some r)
    with cong(1) obtain r' where r': "fst ?sq = Some r'" by auto
    from Some have "r \<in> set (name_candidates p name)"
      by (cases ?sp) (auto dest: select_rule_SomeD)
    moreover from r' have "r' \<in> set (name_candidates p name)"
      using sets by (cases ?sq) (auto dest: select_rule_SomeD)
    ultimately have plain': "rule_resolve r = None" "rule_resolve r' = None"
      using plain by (auto simp: without_resolve_def list_all_iff)
    have "keep_address p r number a = keep_address q r' number a" for a
      using plain' same by (simp add: keep_address_def listed_def)
    then have "checked_addresses p r number as = checked_addresses q r' number as" for as
      by (simp add: checked_addresses_def)
    with Some r' plain' show ?thesis
      by (cases ?sp; cases ?sq) (simp add: authorize_name_def Let_def deny_verdict_def
          split: option.split)
  qed
qed

definition same_rules :: "policy \<Rightarrow> policy \<Rightarrow> bool" where
  "same_rules p q =
     ((\<forall>name. set (names_at p name) = set (names_at q name))
      \<and> set (pol_suffixes p) = set (pol_suffixes q) \<and> set (pol_wildcard p) = set (pol_wildcard q)
      \<and> set (pol_literals p) = set (pol_literals q)
      \<and> set (pol_exceptions p) = set (pol_exceptions q))"

lemma same_rules_name_candidates:
  "same_rules p q \<Longrightarrow> set (name_candidates p name) = set (name_candidates q name)"
  by (auto simp: same_rules_def name_candidates_def)

lemma same_rules_grants:
  assumes "same_rules p q"
  shows "literal_rule p a number = None \<longleftrightarrow> literal_rule q a number = None"
    and "excepted p a number = excepted q a number"
  using assms by (auto simp: same_rules_def literal_rule_def excepted_def find_None_iff list_ex_iff)

lemma authorize_literal_set_cong:
  assumes "same_rules p q"
  shows "v_addresses (authorize_literal p v raw port number network)
      = v_addresses (authorize_literal q v raw port number network)
    \<and> v_reason (authorize_literal p v raw port number network)
      = v_reason (authorize_literal q v raw port number network)
    \<and> v_err (authorize_literal p v raw port number network)
      = v_err (authorize_literal q v raw port number network)"
proof -
  let ?f = "filter (\<lambda>r. prefix_contains (rule_prefix r) (unmap raw))"
  let ?sp = "select_rule (?f (pol_literals p)) number network"
  let ?sq = "select_rule (?f (pol_literals q)) number network"
  have "set (?f (pol_literals p)) = set (?f (pol_literals q))"
    using assms by (auto simp: same_rules_def)
  note cong = select_rule_set_cong [OF this, of number network]
  from cong show ?thesis
    by (cases ?sp; cases ?sq; cases "fst ?sp"; cases "fst ?sq")
       (simp_all add: authorize_literal_def Let_def deny_verdict_def)
qed

text \<open>
  Without \<open>resolve\<close> lists the rules of a policy are unordered, as policy.md says: two policies with
  the same rules in any order give the same addresses, the same reason token and the same resolution
  error for every destination.
\<close>

lemma rules_unordered_without_resolve:
  assumes "same_rules p q" and "\<And>name. without_resolve (name_candidates p name)"
  shows "v_addresses (authorize env lookup p host port network)
      = v_addresses (authorize env lookup q host port network)
    \<and> v_reason (authorize env lookup p host port network)
      = v_reason (authorize env lookup q host port network)
    \<and> v_err (authorize env lookup p host port network)
      = v_err (authorize env lookup q host port network)"
  using authorize_literal_set_cong [OF assms(1)]
    authorize_name_set_cong [OF same_rules_name_candidates [OF assms(1)] assms(2)
      same_rules_grants [OF assms(1)]]
  by (auto simp: authorize_def Let_def split: option.split)

section \<open>Names that map to addresses\<close>

text \<open>
  The UTS 46 lookup mapping takes the fullwidth digit eight (U+FF18) to the ASCII digit; a policy whose
  only rule is the wildcard name.
\<close>

definition fullwidth_host :: string where
  "fullwidth_host = [CHR 0xEF, CHR 0xBC, CHR 0x98] @ ''.8.8.8''"

definition uts46_env :: text_env where
  "uts46_env = ascii_env\<lparr>idna_to_ascii :=
     (\<lambda>s. if s = fullwidth_host then Some ''8.8.8.8'' else if is_ascii s then Some s else None)\<rparr>"

definition wildcard_policy :: policy where
  "wildcard_policy = sample_policy\<lparr>pol_names := Map.empty, pol_suffixes := [], pol_literals := [],
     pol_exceptions := [], pol_wildcard := [sample_rule ''any'' 443 (Prefix IPInvalid 0)]\<rparr>"

text \<open>
  Addresses are meant never to be names, but the check precedes the IDNA mapping: the host written
  with a fullwidth digit normalizes to the text of an address, so the wildcard name, which must never
  match a literal, admits 8.8.8.8 although the same policy refuses the literal 8.8.8.8.
\<close>

lemma mapped_digits_pass_as_name:
  "normalize_name uts46_env fullwidth_host = Some ''8.8.8.8''
   \<and> parse_addr ''8.8.8.8'' = Some (IP4 0x08080808)
   \<and> v_addresses (authorize uts46_env (\<lambda>n. map_option (\<lambda>a. [a]) (parse_addr n)) wildcard_policy
       fullwidth_host ''443'' ''tcp'') = [IP4 0x08080808]
   \<and> v_reason (authorize uts46_env (\<lambda>n. map_option (\<lambda>a. [a]) (parse_addr n)) wildcard_policy
       ''8.8.8.8'' ''443'' ''tcp'') = ''ip-not-on-allowlist''"
proof -
  have name: "normalize_name uts46_env fullwidth_host = Some ''8.8.8.8''"
    "parse_addr (to_lower uts46_env fullwidth_host) = None"
    "parse_addr (to_lower uts46_env ''8.8.8.8'') = Some (IP4 0x08080808)"
    by (simp_all add: uts46_env_def fullwidth_host_def policy_eval)
  have "v_addresses (authorize uts46_env (\<lambda>n. map_option (\<lambda>a. [a]) (parse_addr n)) wildcard_policy
       fullwidth_host ''443'' ''tcp'') = [IP4 0x08080808]"
    unfolding authorize_def
    by (simp only: name option.case)
       (simp add: wildcard_policy_def policy_eval public_IP4 special_address_IP4)
  moreover have "v_reason (authorize uts46_env (\<lambda>n. map_option (\<lambda>a. [a]) (parse_addr n))
       wildcard_policy ''8.8.8.8'' ''443'' ''tcp'') = ''ip-not-on-allowlist''"
    unfolding authorize_def
    by (simp only: name option.case) (simp add: wildcard_policy_def policy_eval)
  ultimately show ?thesis using name(1) by (simp add: policy_eval)
qed

end
