(* ===== verification/Proxy_Status.thy ===== *)
theory Proxy_Status
  imports Go_Strings
begin

text \<open>
  The Proxy-Status field of a refusal (sdk/pkg/tun2connect/connect.go): what the boundary writes and
  what the client reads. The field value is a string; an absent field is the empty one, as
  \<open>http.Header.Get\<close> gives it.
\<close>

definition proxy_error_type :: "string \<Rightarrow> string" where
  "proxy_error_type reason =
     (if reason \<in> set [''not-on-allowlist'', ''port-not-allowed'', ''transport-not-allowed'',
                     ''udp-disabled'', ''identity-unknown'', ''port-not-permitted'']
      then ''http_request_denied''
      else if reason \<in> set [''ip-not-on-allowlist'', ''resolved-address-denied'', ''scoped-ip'']
      then ''destination_ip_prohibited''
      else if reason = ''resolve-failed'' then ''dns_error''
      else if reason = ''dial-failed'' then ''destination_unavailable''
      else if reason = ''busy'' then ''connection_limit_reached''
      else if reason = ''policy-unavailable'' then ''proxy_configuration_error''
      else if reason = ''unsupported-version'' then ''http_protocol_error''
      else ''http_request_error'')"

definition proxy_status :: "string \<Rightarrow> string \<Rightarrow> string" where
  "proxy_status member reason =
     member @ ''; error='' @ proxy_error_type reason @ ''; reason='' @ reason"

fun reason_param :: "string list \<Rightarrow> string" where
  "reason_param [] = []"
| "reason_param (param # params) =
     (case cut_byte (CHR ''='') (trim_space param) of
        (key, content, ok) \<Rightarrow>
          if ok \<and> key = ''reason'' then trim_byte (CHR 0x22) content else reason_param params)"

definition proxy_status_reason :: "string \<Rightarrow> string" where
  "proxy_status_reason field =
     reason_param (tl (split_byte (CHR '';'') (hd (split_byte (CHR '','') field))))"

section \<open>Reading back what was written\<close>

text \<open>A token of the reason registry: lower-case letters and hyphens, not empty.\<close>

definition token_char :: "char \<Rightarrow> bool" where
  "token_char c = ((97 \<le> byte_of c \<and> byte_of c \<le> 122) \<or> byte_of c = 45)"

definition reason_token :: "string \<Rightarrow> bool" where
  "reason_token s = (s \<noteq> [] \<and> list_all token_char s)"

definition plain_char :: "char \<Rightarrow> bool" where
  "plain_char c = (token_char c \<or> byte_of c = 95)"

lemma plain_char_not:
  "plain_char c \<Longrightarrow> c \<noteq> CHR '','' \<and> c \<noteq> CHR '';'' \<and> c \<noteq> CHR ''='' \<and> c \<noteq> CHR 0x22 \<and> c \<noteq> CHR '' ''"
  by (auto simp: plain_char_def token_char_def byte_of_def)

lemma token_plain: "token_char c \<Longrightarrow> plain_char c"
  by (simp add: plain_char_def)

lemma proxy_error_type_plain: "list_all plain_char (proxy_error_type reason)"
  by (simp add: proxy_error_type_def plain_char_def token_char_def byte_of_def)

lemma trim_left_any_id:
  assumes "s = [] \<or> hd s \<notin> set (map hd (filter (\<lambda>p. p \<noteq> []) pats))"
  shows "trim_left_any pats s = s"
proof -
  have "find (\<lambda>p. p \<noteq> [] \<and> has_prefix s p) pats = None"
  proof (rule ccontr)
    assume "find (\<lambda>p. p \<noteq> [] \<and> has_prefix s p) pats \<noteq> None"
    then obtain p where "p \<in> set pats" "p \<noteq> []" "has_prefix s p"
      by (auto simp: find_None_iff)
    moreover from this(2,3) have "s \<noteq> [] \<and> hd s = hd p"
      by (auto simp: has_prefix_iff)
    ultimately show False using assms by auto
  qed
  then show ?thesis by (subst trim_left_any.simps) simp
qed

definition visible_char :: "char \<Rightarrow> bool" where
  "visible_char c = (32 < byte_of c \<and> byte_of c < 128)"

lemma plain_visible: "plain_char c \<Longrightarrow> visible_char c"
  by (auto simp: plain_char_def token_char_def visible_char_def)

lemma space_encodings_bounds:
  "list_all (\<lambda>p. p \<noteq> [] \<and> \<not> visible_char (hd p) \<and> \<not> visible_char (last p)) space_encodings"
  by (simp add: space_encodings_def visible_char_def byte_of_def)

lemma trim_space_leading_blank:
  assumes "s \<noteq> []" and "visible_char (hd s)" and "visible_char (last s)"
  shows "trim_space (CHR '' '' # s) = s"
proof -
  have first: "hd s \<notin> set (map hd (filter (\<lambda>p. p \<noteq> []) space_encodings))"
    using assms(2) space_encodings_bounds by (auto simp: list_all_iff)
  have final: "hd (rev s) \<notin> set (map hd (filter (\<lambda>p. p \<noteq> []) (map rev space_encodings)))"
    using assms(1,3) space_encodings_bounds by (auto simp: hd_rev list_all_iff)
  have "find (\<lambda>p. p \<noteq> [] \<and> has_prefix (CHR '' '' # s) p) space_encodings = Some [CHR '' '']"
    by (simp add: space_encodings_def has_prefix_def)
  then have "trim_left_any space_encodings (CHR '' '' # s) = trim_left_any space_encodings s"
    by (subst trim_left_any.simps) simp
  then show ?thesis
    using first final by (simp add: trim_space_def trim_left_any_id)
qed

lemma trim_byte_absent: "c \<notin> set s \<Longrightarrow> trim_byte c s = s"
proof -
  have "dropWhile (\<lambda>x. x = c) t = t" if "c \<notin> set t" for t
    using that by (cases t) auto
  then show "c \<notin> set s \<Longrightarrow> trim_byte c s = s" by (simp add: trim_byte_def)
qed

lemma proxy_status_reason_status:
  assumes "reason_token reason" and "CHR '','' \<notin> set member" and "CHR '';'' \<notin> set member"
  shows "proxy_status_reason (proxy_status member reason) = reason"
proof -
  let ?et = "proxy_error_type reason"
  have r: "c \<in> set reason \<Longrightarrow> plain_char c" for c
    using assms(1) by (auto simp: reason_token_def list_all_iff intro: token_plain)
  have e: "c \<in> set ?et \<Longrightarrow> plain_char c" for c
    using proxy_error_type_plain by (auto simp: list_all_iff)
  have free: "CHR '','' \<notin> set reason" "CHR '';'' \<notin> set reason" "CHR 0x22 \<notin> set reason"
    "CHR '','' \<notin> set ?et" "CHR '';'' \<notin> set ?et" "CHR ''='' \<notin> set ?et"
    using r e plain_char_not by blast+
  have "CHR '','' \<notin> set (proxy_status member reason)"
    using assms(2) free by (simp add: proxy_status_def)
  then have whole: "hd (split_byte (CHR '','') (proxy_status member reason)) = proxy_status member reason"
    by (simp add: split_byte_absent)
  have split: "split_byte (CHR '';'') (proxy_status member reason)
      = [member, '' error='' @ ?et, '' reason='' @ reason]"
  proof -
    have "proxy_status member reason
        = member @ CHR '';'' # ('' error='' @ ?et) @ CHR '';'' # ('' reason='' @ reason)"
      by (simp add: proxy_status_def)
    moreover have "CHR '';'' \<notin> set ('' error='' @ ?et)" "CHR '';'' \<notin> set ('' reason='' @ reason)"
      using free by simp_all
    ultimately show ?thesis
      using assms(3) split_byte_append [of _ member]
        split_byte_append [of _ "'' error='' @ ?et" "'' reason='' @ reason"]
        split_byte_absent [of _ "'' reason='' @ reason"]
      by (metis append.assoc)
  qed
  have ne: "reason \<noteq> []" "?et \<noteq> []"
    using assms(1) by (auto simp: reason_token_def proxy_error_type_def)
  have pe: "plain_char (CHR ''e'')" "plain_char (CHR ''r'')"
    by (simp_all add: plain_char_def token_char_def byte_of_def)
  have t1: "trim_space ('' error='' @ ?et) = ''error='' @ ?et"
    using trim_space_leading_blank [of "''error='' @ ?et"] ne pe e [of "last ?et"]
    by (simp add: plain_visible)
  have t2: "trim_space ('' reason='' @ reason) = ''reason='' @ reason"
    using trim_space_leading_blank [of "''reason='' @ reason"] ne pe r [of "last reason"]
    by (simp add: plain_visible)
  have c1: "cut_byte (CHR ''='') (''error='' @ ?et) = (''error'', ?et, True)"
    and c2: "cut_byte (CHR ''='') (''reason='' @ reason) = (''reason'', reason, True)"
    by simp_all
  show ?thesis
    using trim_byte_absent [OF free(3)] t1 t2 c1 c2
    unfolding proxy_status_reason_def whole split by simp
qed

text \<open>
  The client reads exactly the reason token the boundary wrote: for every member name without list
  syntax and every token of letters and hyphens, the reason parameter of the built field is the token.
\<close>

lemma refusal_reason_read_back:
  assumes "reason_token reason" and "CHR '','' \<notin> set member" and "CHR '';'' \<notin> set member"
  shows "proxy_status_reason (proxy_status member reason) = reason"
  using assms by (rule proxy_status_reason_status)

lemma refusal_reason_read_back_witness:
  "proxy_status_reason (proxy_status ''boundary'' ''not-on-allowlist'') = ''not-on-allowlist''"
  by (rule refusal_reason_read_back) (simp_all add: reason_token_def token_char_def byte_of_def)

end
