(* ===== verification/Http_Head.thy ===== *)
theory Http_Head
  imports Policy Stream_Codec
begin

text \<open>
  Request heads of the boundary (sdk/cmd/connect-proxy/main.go: boundedReader, readHead, connectTarget,
  sameAuthority, upgradeTarget, isUpgrade, masqueTarget). Reading a line and a header block
  (net/textproto), parsing a request URI (net/url) and the token tests of golang.org/x/net/http/httpguts
  are the fields of \<open>http_lib\<close>; every decision the source takes on their results is modelled.
\<close>

section \<open>Bounding the head\<close>

datatype read_failure =
    Refused nat string
  | ReadEOF
  | ReadUnexpectedEOF
  | ReadDeadline
  | ReadOther

record bounded_reader =
  br_source :: bytes
  br_remaining :: int

definition max_head_bytes :: int where "max_head_bytes = push_bit 10 64"

text \<open>
  One \<open>Read\<close> into a buffer of \<open>n\<close> bytes when the connection has at most \<open>ready\<close> bytes at hand;
  an empty source ends with \<open>ReadEOF\<close>.
\<close>

definition source_read :: "bytes \<Rightarrow> nat \<Rightarrow> nat \<Rightarrow> read_failure + (bytes \<times> bytes)" where
  "source_read src n ready =
     (if src = [] then Inl ReadEOF
      else (let k = min n (max 1 ready) in Inr (take k src, drop k src)))"

definition bounded_read ::
  "bounded_reader \<Rightarrow> nat \<Rightarrow> nat \<Rightarrow> (read_failure + bytes) \<times> bounded_reader" where
  "bounded_read b n ready =
     (if br_remaining b < 0 then
        (case source_read (br_source b) n ready of
           Inl e \<Rightarrow> (Inl e, b)
         | Inr (got, rest) \<Rightarrow> (Inr got, b\<lparr>br_source := rest\<rparr>))
      else if br_remaining b = 0 then (Inl (Refused 431 ''head-too-large''), b)
      else
        (let n' = (if int n > br_remaining b then nat (br_remaining b) else n) in
         (case source_read (br_source b) n' ready of
            Inl e \<Rightarrow> (Inl e, b)
          | Inr (got, rest) \<Rightarrow>
              (Inr got, b\<lparr>br_source := rest, br_remaining := br_remaining b - int (length got)\<rparr>))))"

text \<open>A sequence of reads, as the buffered reader issues them: all bytes they return.\<close>

fun bounded_reads :: "bounded_reader \<Rightarrow> (nat \<times> nat) list \<Rightarrow> bytes \<times> bounded_reader" where
  "bounded_reads b [] = ([], b)"
| "bounded_reads b ((n, ready) # xs) =
     (case bounded_read b n ready of
        (Inl e, b1) \<Rightarrow> bounded_reads b1 xs
      | (Inr got, b1) \<Rightarrow> (case bounded_reads b1 xs of (more_got, b2) \<Rightarrow> (got @ more_got, b2)))"

section \<open>Heads\<close>

type_synonym mime_header = "(string \<times> string list) list"

record http_lib =
  read_line :: "reader \<Rightarrow> read_failure + (string \<times> reader)"
  read_mime_header :: "reader \<Rightarrow> read_failure + (mime_header \<times> reader)"
  valid_header_field_name :: "string \<Rightarrow> bool"
  valid_host_header :: "string \<Rightarrow> bool"
  header_values_contain_token :: "string list \<Rightarrow> string \<Rightarrow> bool"
  parse_request_uri :: "string \<Rightarrow> (bool \<times> string) option"

record http_head =
  hd_method :: string
  hd_target :: string
  hd_major :: nat
  hd_minor :: nat
  hd_header :: mime_header

definition header_values :: "mime_header \<Rightarrow> string \<Rightarrow> string list" where
  "header_values h key = (case map_of h key of None \<Rightarrow> [] | Some vs \<Rightarrow> vs)"

definition header_get :: "mime_header \<Rightarrow> string \<Rightarrow> string" where
  "header_get h key = (case header_values h key of [] \<Rightarrow> [] | v # _ \<Rightarrow> v)"

definition parse_http_version :: "string \<Rightarrow> (nat \<times> nat) option" where
  "parse_http_version vers =
     (if vers = ''HTTP/1.1'' then Some (1, 1)
      else if vers = ''HTTP/1.0'' then Some (1, 0)
      else if \<not> has_prefix vers ''HTTP/'' \<or> length vers \<noteq> 8 \<or> vers ! 6 \<noteq> CHR ''.'' then None
      else
        (case (parse_uint 64 [vers ! 5], parse_uint 64 [vers ! 7]) of
           (Some major, Some minor) \<Rightarrow> Some (major, minor)
         | _ \<Rightarrow> None))"

definition head_error_passed :: "read_failure \<Rightarrow> read_failure" where
  "head_error_passed e = (if e = ReadOther then Refused 400 ''malformed-header'' else e)"

definition check_head ::
  "http_lib \<Rightarrow> string \<Rightarrow> string \<Rightarrow> nat \<Rightarrow> nat \<Rightarrow> mime_header \<Rightarrow> read_failure + http_head" where
  "check_head lib method target major minor header =
     (if length (header_values header ''Host'') > 1 then Inl (Refused 400 ''duplicate-host'')
      else if list_ex (\<lambda>(key, _). \<not> valid_header_field_name lib key) header then
        Inl (Refused 400 ''malformed-header'')
      else if minor \<ge> 1 \<and> header_values header ''Host'' = [] then
        Inl (Refused 400 ''missing-host'')
      else Inr \<lparr>hd_method = method, hd_target = target, hd_major = major, hd_minor = minor,
                hd_header = header\<rparr>)"

definition read_head :: "http_lib \<Rightarrow> reader \<Rightarrow> read_failure + (http_head \<times> reader)" where
  "read_head lib r =
     (case read_line lib r of
        Inl e \<Rightarrow> Inl e
      | Inr (line, r1) \<Rightarrow>
          (case cut_byte (CHR '' '') line of
             (method, rest, found) \<Rightarrow>
               (case cut_byte (CHR '' '') rest of
                  (target, proto, found_proto) \<Rightarrow>
                    if \<not> found \<or> \<not> found_proto \<or> target = [] \<or> CHR '' '' \<in> set proto
                       \<or> \<not> valid_header_field_name lib method
                    then Inl (Refused 400 ''malformed-request-line'')
                    else
                      (case parse_http_version proto of
                         None \<Rightarrow> Inl (Refused 505 ''unsupported-version'')
                       | Some (major, minor) \<Rightarrow>
                           if major \<noteq> 1 then Inl (Refused 505 ''unsupported-version'')
                           else
                             (case read_mime_header lib r1 of
                                Inl e \<Rightarrow> Inl (head_error_passed e)
                              | Inr (header, r2) \<Rightarrow>
                                  (case check_head lib method target major minor header of
                                     Inl e \<Rightarrow> Inl e
                                   | Inr h \<Rightarrow> Inr (h, r2)))))))"

section \<open>Targets\<close>

definition same_authority :: "text_env \<Rightarrow> string \<Rightarrow> string \<Rightarrow> bool" where
  "same_authority env a b =
     (case (split_host_port a, split_host_port b) of
        (Some (host_a, port_a), Some (host_b, port_b)) \<Rightarrow>
          if port_a \<noteq> port_b then False
          else
            (case parse_addr host_a of
               Some addr_a \<Rightarrow> parse_addr host_b = Some addr_a
             | None \<Rightarrow> equal_fold env (trim_suffix host_a ''.'') (trim_suffix host_b ''.''))
      | _ \<Rightarrow> False)"

text \<open>The reason token on the left, host and port on the right.\<close>

definition connect_target ::
  "text_env \<Rightarrow> http_lib \<Rightarrow> http_head \<Rightarrow> string + (string \<times> string)" where
  "connect_target env lib h =
     (if \<not> valid_host_header lib (hd_target h) then Inl ''malformed-target''
      else
        (case split_host_port (hd_target h) of
           None \<Rightarrow> Inl ''malformed-target''
         | Some (host, port) \<Rightarrow>
             if host = [] then Inl ''malformed-target''
             else if parse_port port = None then Inl ''malformed-port''
             else if header_get (hd_header h) ''Host'' \<noteq> []
                     \<and> \<not> same_authority env (header_get (hd_header h) ''Host'') (hd_target h)
             then Inl ''authority-mismatch''
             else Inr (host, port)))"

definition is_upgrade :: "http_lib \<Rightarrow> http_head \<Rightarrow> bool" where
  "is_upgrade lib h =
     header_values_contain_token lib (header_values (hd_header h) ''Upgrade'') ''connect-udp''"

definition upgrade_target :: "http_lib \<Rightarrow> http_head \<Rightarrow> string option" where
  "upgrade_target lib h =
     (if \<not> header_values_contain_token lib (header_values (hd_header h) ''Connection'') ''Upgrade''
         \<or> \<not> header_values_contain_token lib (header_values (hd_header h) ''Upgrade'') ''connect-udp''
      then None
      else
        (case parse_request_uri lib (hd_target h) of
           None \<Rightarrow> None
         | Some (has_user, path) \<Rightarrow> if has_user then None else Some path))"

fun path_unescape :: "string \<Rightarrow> string option" where
  "path_unescape [] = Some []"
| "path_unescape (c # cs) =
     (if c = CHR ''%'' then
        (case cs of
           h # l # rest \<Rightarrow>
             (case (hex_value h, hex_value l) of
                (Some x, Some y) \<Rightarrow>
                  map_option (Cons (char_of (x * 16 + y))) (path_unescape rest)
              | _ \<Rightarrow> None)
         | _ \<Rightarrow> None)
      else map_option (Cons c) (path_unescape cs))"

definition masque_target :: "string \<Rightarrow> (string \<times> string) option" where
  "masque_target path =
     (case split_byte (CHR ''/'') (trim_byte (CHR ''/'') path) of
        [s0, s1, s2, s3, s4] \<Rightarrow>
          if s0 \<noteq> ''.well-known'' \<or> s1 \<noteq> ''masque'' \<or> s2 \<noteq> ''udp'' then None
          else
            (case path_unescape s3 of
               None \<Rightarrow> None
             | Some host \<Rightarrow> if host = [] then None else Some (host, s4))
      | _ \<Rightarrow> None)"

section \<open>Properties of the bounded reader\<close>

lemma source_readD:
  "source_read src n ready = Inr (got, rest) \<Longrightarrow> src = got @ rest \<and> length got \<le> n"
  by (auto simp: source_read_def Let_def split: if_splits)

lemma bounded_read_limit:
  assumes "bounded_read b n ready = (Inr got, b')" and "0 \<le> br_remaining b"
  shows "br_source b = got @ br_source b'" and "0 \<le> br_remaining b'"
    and "int (length got) + br_remaining b' = br_remaining b"
proof -
  let ?n = "if int n > br_remaining b then nat (br_remaining b) else n"
  from assms obtain rest where r: "source_read (br_source b) ?n ready = Inr (got, rest)"
    and b': "b' = b\<lparr>br_source := rest, br_remaining := br_remaining b - int (length got)\<rparr>"
    by (auto simp: bounded_read_def Let_def split: if_splits sum.splits)
  have "int ?n \<le> br_remaining b" using assms(2) by simp
  with source_readD [OF r] b' show "br_source b = got @ br_source b'" and "0 \<le> br_remaining b'"
    and "int (length got) + br_remaining b' = br_remaining b" by auto
qed

lemma bounded_read_error: "bounded_read b n ready = (Inl e, b') \<Longrightarrow> b' = b"
  by (auto simp: bounded_read_def Let_def split: if_splits sum.splits)

text \<open>
  However the buffered reader sizes its reads and however the bytes arrive, no more than the head
  limit is ever taken from the connection while it is in force: the bytes returned are the first
  bytes of the connection in order, the budget falls by exactly their number, and once it is spent
  every further read is refused as 431 head-too-large.
\<close>

lemma head_bytes_bounded:
  assumes "0 \<le> br_remaining b" and "bounded_reads b xs = (got, b')"
  shows "br_source b = got @ br_source b' \<and> 0 \<le> br_remaining b'
    \<and> int (length got) + br_remaining b' = br_remaining b
    \<and> (int (length got) = br_remaining b
         \<longrightarrow> fst (bounded_read b' n ready) = Inl (Refused 431 ''head-too-large''))"
proof -
  have "br_source b = got @ br_source b' \<and> 0 \<le> br_remaining b'
      \<and> int (length got) + br_remaining b' = br_remaining b"
    using assms
  proof (induction xs arbitrary: b got b')
    case (Cons x xs)
    obtain m k where x: "x = (m, k)" by fastforce
    obtain res b1 where r: "bounded_read b m k = (res, b1)" by fastforce
    show ?case
    proof (cases res)
      case (Inl e)
      with r have "b1 = b" using bounded_read_error by blast
      with Cons.prems(2) x r Inl have "bounded_reads b xs = (got, b')" by simp
      from Cons.IH [OF Cons.prems(1) this] show ?thesis .
    next
      case (Inr g)
      obtain g2 b2 where g2: "bounded_reads b1 xs = (g2, b2)" by fastforce
      note step = bounded_read_limit [OF r [unfolded Inr] Cons.prems(1)]
      have "got = g @ g2" "b' = b2" using Cons.prems(2) x r Inr g2 by simp_all
      with Cons.IH [OF step(2) g2] step(1,3) show ?thesis by simp
    qed
  qed simp
  then show ?thesis by (auto simp: bounded_read_def)
qed

section \<open>Properties of heads and targets\<close>

lemma check_head_cases:
  "check_head lib method target major minor header = Inl e
    \<Longrightarrow> \<exists>reason. e = Refused 400 reason
          \<and> reason \<in> {''duplicate-host'', ''malformed-header'', ''missing-host''}"
  by (auto simp: check_head_def split: if_splits)

lemma read_head_refusals:
  assumes "read_head lib r = Inl (Refused status reason)"
  shows "(status, reason) \<in> {(400, ''malformed-request-line''), (505, ''unsupported-version''),
      (400, ''malformed-header''), (400, ''duplicate-host''), (400, ''missing-host'')}
    \<or> (\<exists>r. read_line lib r = Inl (Refused status reason))
    \<or> (\<exists>r. read_mime_header lib r = Inl (Refused status reason))"
  using assms
  by (auto simp: read_head_def head_error_passed_def dest!: check_head_cases
      split: sum.splits prod.splits if_splits option.splits)

text \<open>
  C39. A head the boundary acts on is one whose request line has exactly three fields, a method that is
  a token and an HTTP/1 version, whose field names are all tokens, and which has at most one Host field
  and, from HTTP/1.1 on, exactly one.
\<close>

theorem accepted_head_wellformed:
  assumes "read_head lib r = Inr (h, r')"
  shows "hd_major h = 1 \<and> valid_header_field_name lib (hd_method h) \<and> hd_target h \<noteq> []
    \<and> CHR '' '' \<notin> set (hd_method h) \<and> CHR '' '' \<notin> set (hd_target h)
    \<and> list_all (\<lambda>(key, _). valid_header_field_name lib key) (hd_header h)
    \<and> length (header_values (hd_header h) ''Host'') \<le> 1
    \<and> (1 \<le> hd_minor h \<longrightarrow> length (header_values (hd_header h) ''Host'') = 1)"
proof -
  from assms obtain verb target proto r1 minor header r2 where
    l: "CHR '' '' \<notin> set verb" "CHR '' '' \<notin> set target" "target \<noteq> []" "valid_header_field_name lib verb"
    and c: "check_head lib verb target 1 minor header = Inr h"
    by (auto simp: read_head_def split: sum.splits prod.splits if_splits option.splits
        dest!: cut_byte_foundD)
  from c have h: "h = \<lparr>hd_method = verb, hd_target = target, hd_major = 1, hd_minor = minor,
      hd_header = header\<rparr>" and "\<not> list_ex (\<lambda>(key, _). \<not> valid_header_field_name lib key) header"
    "length (header_values header ''Host'') \<le> 1"
    "1 \<le> minor \<longrightarrow> header_values header ''Host'' \<noteq> []"
    by (auto simp: check_head_def split: if_splits)
  moreover from this(4,3) have "1 \<le> minor \<longrightarrow> length (header_values header ''Host'') = 1"
    by (cases "header_values header ''Host''") auto
  ultimately show ?thesis using l by (auto simp: list_ex_iff list_all_iff)
qed

text \<open>Library functions for the witnesses, which read one fixed CONNECT request.\<close>

definition sample_lib :: http_lib where
  "sample_lib =
     \<lparr>read_line = (\<lambda>r. Inr (''CONNECT api.example.com:443 HTTP/1.1'', r)),
      read_mime_header = (\<lambda>r. Inr ([(''Host'', [''API.example.com.:443''])], r)),
      valid_header_field_name = (\<lambda>s. s \<noteq> []), valid_host_header = (\<lambda>s. True),
      header_values_contain_token = (\<lambda>vs tok. tok \<in> set vs),
      parse_request_uri = (\<lambda>s. Some (False, s))\<rparr>"

definition sample_head :: http_head where
  "sample_head = \<lparr>hd_method = ''CONNECT'', hd_target = ''api.example.com:443'', hd_major = 1, hd_minor = 1,
     hd_header = [(''Host'', [''API.example.com.:443''])]\<rparr>"

lemma sample_read_head: "read_head sample_lib r = Inr (sample_head, r)"
  by (simp add: read_head_def sample_lib_def sample_head_def check_head_def parse_http_version_def
      header_values_def)

theorem accepted_head_wellformed_witness:
  "hd_major sample_head = 1 \<and> length (header_values (hd_header sample_head) ''Host'') = 1"
  using accepted_head_wellformed [OF sample_read_head] by (simp add: sample_head_def)

lemma trim_suffix_dot_lower:
  "trim_suffix (map lower_byte s) ''.'' = map lower_byte (trim_suffix s ''.'')"
proof -
  have dot: "lower_byte c = CHR ''.'' \<longleftrightarrow> c = CHR ''.''" for c
  proof -
    have "''abcdefghijklmnopqrstuvwxyz'' ! i \<noteq> CHR ''.''" if "i < 26" for i
    proof -
      have "CHR ''.'' \<notin> set ''abcdefghijklmnopqrstuvwxyz''" by simp
      then show ?thesis using that nth_mem [of i "''abcdefghijklmnopqrstuvwxyz''"] by force
    qed
    then show ?thesis by (auto simp: lower_byte_def byte_of_def)
  qed
  show ?thesis
  proof (cases s rule: rev_cases)
    case (snoc xs x)
    then show ?thesis
      using dot by (cases "x = CHR ''.''") (auto simp: trim_suffix_def has_suffix_def lower_byte_def byte_of_def)
  qed (simp add: trim_suffix_def has_suffix_def)
qed

lemma set_split_host_port:
  "split_host_port a = Some (host, port) \<Longrightarrow> set host \<subseteq> set a"
  by (auto simp: split_host_port_def Let_def split: option.splits if_splits
      dest: in_set_takeD in_set_dropD in_set_butlastD)

text \<open>
  The Host field cannot name another destination than the CONNECT target: when the boundary accepts
  the two as the same authority and they are ASCII names, their ports are equal and they normalize to
  the same policy name, so policy decides on what both of them say.
\<close>

lemma host_field_names_target:
  assumes "same_authority env a b" and "is_ascii a" and "is_ascii b"
    and "split_host_port a = Some (host_a, port_a)" and "split_host_port b = Some (host_b, port_b)"
    and "parse_addr host_a = None"
  shows "port_a = port_b \<and> normalize_name env host_a = normalize_name env host_b"
proof -
  have ascii: "is_ascii host_a" "is_ascii host_b"
    using assms(2,3) set_split_host_port [OF assms(4)] set_split_host_port [OF assms(5)]
    by (auto simp: is_ascii_def list_all_iff)
  have "is_ascii (trim_suffix host_a ''.'')" "is_ascii (trim_suffix host_b ''.'')"
    using ascii set_trim_suffix [of host_a "''.''"] set_trim_suffix [of host_b "''.''"]
    by (auto simp: is_ascii_def list_all_iff)
  with assms have "port_a = port_b"
    and "map lower_byte (trim_suffix host_a ''.'') = map lower_byte (trim_suffix host_b ''.'')"
    by (auto simp: same_authority_def equal_fold_def split: if_splits)
  with ascii show ?thesis
    by (simp add: normalize_name_def to_lower_def trim_suffix_dot_lower)
qed

end
