(* ===== verification/Boundary.thy ===== *)
theory Boundary
  imports Authorize Proxy_Status Http_Head Capsule
begin

text \<open>
  The boundary server (sdk/cmd/connect-proxy/main.go): audit records, the decision to open a tunnel,
  the CONNECT and connect-udp handlers on both wires. A handler is a function to the list of its
  effects in order (audit lines, responses, dials, tunnels); what the outside world answers, the
  resolver, the dialer, the clock and the TLS stack, is in the record \<open>boundary\<close>, which also holds the
  policy pointer. \<open>main\<close> stores that pointer once before it listens, so a handler reads one value.
\<close>

section \<open>Effects and environment\<close>

record audit_record =
  ar_time :: string
  ar_listener :: string
  ar_sandbox :: string
  ar_generation :: string
  ar_policy :: string
  ar_wire :: string
  ar_transport :: string
  ar_destination :: string
  ar_address :: string
  ar_peer :: string
  ar_connection :: string
  ar_rule :: string
  ar_decision :: string
  ar_reason :: string

datatype event =
    Audit audit_record
  | Deny nat string
  | Dial string string
  | Accept nat
  | Tunnel string string
  | Panic

text \<open>
  The dialer answers by the number of the attempt, the network and the address text: the remote
  address of the connection, or \<open>None\<close> for an error.
\<close>

record boundary =
  bnd_env :: text_env
  bnd_lookup :: resolver
  bnd_dial :: "nat \<Rightarrow> string \<Rightarrow> string \<Rightarrow> string option"
  bnd_current :: "policy option"
  bnd_listener :: string
  bnd_now :: string

definition blank_record :: audit_record where
  "blank_record =
     \<lparr>ar_time = [], ar_listener = [], ar_sandbox = [], ar_generation = [], ar_policy = [],
      ar_wire = [], ar_transport = [], ar_destination = [], ar_address = [], ar_peer = [],
      ar_connection = [], ar_rule = [], ar_decision = [], ar_reason = []\<rparr>"

definition audited :: "boundary \<Rightarrow> audit_record \<Rightarrow> audit_record" where
  "audited b r =
     (let r1 = r\<lparr>ar_time := bnd_now b, ar_listener := bnd_listener b\<rparr> in
      case bnd_current b of
        None \<Rightarrow> r1
      | Some p \<Rightarrow> r1\<lparr>ar_sandbox := pol_sandbox p, ar_policy := pol_version p,
                   ar_generation := pol_generation p\<rparr>)"

definition audit :: "boundary \<Rightarrow> audit_record \<Rightarrow> event" where
  "audit b r = Audit (audited b r)"

definition boundary_status :: "string \<Rightarrow> string" where
  "boundary_status reason = proxy_status ''boundary'' reason"

record session =
  s_peer :: string
  s_id :: string

definition new_session :: "string \<Rightarrow> u64 \<Rightarrow> session \<times> u64" where
  "new_session peer connections =
     (\<lparr>s_peer = peer, s_id = show_nat (unat (connections + 1))\<rparr>, connections + 1)"

section \<open>Opening an upstream connection\<close>

text \<open>\<open>NoConn\<close> is the pair of a nil connection and a nil error, for an empty address list.\<close>

datatype dial_result = Dialed string | DialFailed | NoConn

fun dial_authorized ::
  "(nat \<Rightarrow> string \<Rightarrow> string \<Rightarrow> string option) \<Rightarrow> nat \<Rightarrow> string \<Rightarrow> ip_addr list \<Rightarrow> string
    \<Rightarrow> dial_result \<Rightarrow> event list \<times> dial_result" where
  "dial_authorized dial i network [] port err = ([], err)"
| "dial_authorized dial i network (address # addresses) port err =
     (let target = join_host_port (show_addr address) port in
      (case dial i network target of
         Some remote \<Rightarrow> ([Dial network target], Dialed remote)
       | None \<Rightarrow>
           (case dial_authorized dial (Suc i) network addresses port DialFailed of
              (events, result) \<Rightarrow> (Dial network target # events, result))))"

text \<open>The events of the decision and the remote address of the tunnel, \<open>None\<close> when there is none.\<close>

definition connect_upstream ::
  "boundary \<Rightarrow> string \<Rightarrow> string \<Rightarrow> string \<Rightarrow> string \<Rightarrow> session \<Rightarrow> event list \<times> string option" where
  "connect_upstream b wire network host port s =
     (let rec = blank_record\<lparr>ar_wire := wire, ar_transport := network,
                  ar_destination := join_host_port host port, ar_peer := s_peer s,
                  ar_connection := s_id s\<rparr> in
      (case bnd_current b of
         None \<Rightarrow>
           ([audit b (rec\<lparr>ar_decision := ''fail'', ar_reason := ''policy-unavailable''\<rparr>),
             Deny 503 ''policy-unavailable''], None)
       | Some p \<Rightarrow>
           if network = ''udp'' \<and> \<not> pol_udp p then
             ([audit b (rec\<lparr>ar_decision := ''block'', ar_reason := ''udp-disabled''\<rparr>),
               Deny 403 ''udp-disabled''], None)
           else
             (let v = authorize (bnd_env b) (bnd_lookup b) p host port network;
                  rec1 = rec\<lparr>ar_destination := v_destination v\<rparr> in
              if v_reason v \<noteq> [] then
                ([audit b (rec1\<lparr>ar_decision := ''block'', ar_reason := v_reason v\<rparr>),
                  Deny (v_status v) (v_reason v)], None)
              else if v_err v then
                ([audit b (rec1\<lparr>ar_decision := ''fail'', ar_reason := ''resolve-failed''\<rparr>),
                  Deny 502 ''resolve-failed''], None)
              else
                (case dial_authorized (bnd_dial b) 0 network (v_addresses v) port NoConn of
                   (dials, DialFailed) \<Rightarrow>
                     (dials @ [audit b (rec1\<lparr>ar_decision := ''fail'', ar_reason := ''dial-failed''\<rparr>),
                               Deny 502 ''dial-failed''], None)
                 | (dials, NoConn) \<Rightarrow> (dials @ [Panic], None)
                 | (dials, Dialed remote) \<Rightarrow>
                     (dials @ [audit b (rec1\<lparr>ar_decision := ''allow'', ar_address := remote,
                                             ar_rule := v_rule v\<rparr>)], Some remote)))))"

definition refuse ::
  "boundary \<Rightarrow> string \<Rightarrow> string \<Rightarrow> string \<Rightarrow> session \<Rightarrow> nat \<Rightarrow> string \<Rightarrow> event list" where
  "refuse b wire network destination s status reason =
     [audit b (blank_record\<lparr>ar_wire := wire, ar_transport := network, ar_destination := destination,
                 ar_peer := s_peer s, ar_connection := s_id s, ar_decision := ''block'',
                 ar_reason := reason\<rparr>),
      Deny status reason]"

definition malformed ::
  "boundary \<Rightarrow> string \<Rightarrow> string \<Rightarrow> string \<Rightarrow> session \<Rightarrow> string \<Rightarrow> event list" where
  "malformed b wire network destination s reason = refuse b wire network destination s 400 reason"

definition open_tunnel ::
  "boundary \<Rightarrow> string \<Rightarrow> string \<Rightarrow> string \<Rightarrow> string \<Rightarrow> session \<Rightarrow> nat \<Rightarrow> event list" where
  "open_tunnel b wire network host port s status =
     (case connect_upstream b wire network host port s of
        (events, None) \<Rightarrow> events
      | (events, Some remote) \<Rightarrow> events @ [Accept status, Tunnel network remote])"

section \<open>HTTP/1.1\<close>

definition handle_connect :: "boundary \<Rightarrow> http_lib \<Rightarrow> http_head \<Rightarrow> session \<Rightarrow> event list" where
  "handle_connect b lib h s =
     (case connect_target (bnd_env b) lib h of
        Inl reason \<Rightarrow> malformed b ''h1'' ''tcp'' (hd_target h) s reason
      | Inr (host, port) \<Rightarrow> open_tunnel b ''h1'' ''tcp'' host port s 200)"

definition handle_connect_udp :: "boundary \<Rightarrow> http_lib \<Rightarrow> http_head \<Rightarrow> session \<Rightarrow> event list" where
  "handle_connect_udp b lib h s =
     (case upgrade_target lib h of
        None \<Rightarrow> malformed b ''h1'' ''udp'' (hd_target h) s ''malformed-upgrade''
      | Some path \<Rightarrow>
          (case masque_target path of
             None \<Rightarrow> malformed b ''h1'' ''udp'' (hd_target h) s ''malformed-template''
           | Some (host, port) \<Rightarrow> open_tunnel b ''h1'' ''udp'' host port s 101))"

text \<open>A TLS connection carries the outcome of its handshake: the peer's certificates, or failure.\<close>

record certificate =
  cert_uris :: "string list"
  cert_dns_names :: "string list"
  cert_common_name :: string

datatype connection = PlainConn | TLSConn "certificate list option"

definition peer_identity :: "certificate list \<Rightarrow> string" where
  "peer_identity certs =
     (case certs of
        [] \<Rightarrow> []
      | leaf # _ \<Rightarrow>
          (case cert_uris leaf of
             u # _ \<Rightarrow> u
           | [] \<Rightarrow> (case cert_dns_names leaf of n # _ \<Rightarrow> n | [] \<Rightarrow> cert_common_name leaf)))"

definition session_peer :: "connection \<Rightarrow> string option" where
  "session_peer conn =
     (case conn of
        PlainConn \<Rightarrow> Some []
      | TLSConn None \<Rightarrow> None
      | TLSConn (Some certs) \<Rightarrow> Some (peer_identity certs))"

definition dispatch :: "boundary \<Rightarrow> http_lib \<Rightarrow> http_head \<Rightarrow> session \<Rightarrow> event list" where
  "dispatch b lib h s =
     (if hd_method h = ''CONNECT'' then handle_connect b lib h s
      else if hd_method h = ''GET'' \<and> is_upgrade lib h then handle_connect_udp b lib h s
      else refuse b ''h1'' [] [] s 405 ''connect-only'')"

definition serve ::
  "boundary \<Rightarrow> http_lib \<Rightarrow> connection \<Rightarrow> reader \<Rightarrow> u64 \<Rightarrow> event list \<times> u64" where
  "serve b lib conn r connections =
     (case session_peer conn of
        None \<Rightarrow>
          ([audit b (blank_record\<lparr>ar_wire := ''h1'', ar_decision := ''fail'', ar_reason := ''tls-failed''\<rparr>)],
           connections)
      | Some peer \<Rightarrow>
          (case new_session peer connections of
             (s, connections1) \<Rightarrow>
               ((case read_head lib r of
                   Inl (Refused status reason) \<Rightarrow>
                     [audit b (blank_record\<lparr>ar_wire := ''h1'', ar_peer := s_peer s,
                                 ar_connection := s_id s, ar_decision := ''block'',
                                 ar_reason := reason\<rparr>),
                      Deny status reason]
                 | Inl _ \<Rightarrow> []
                 | Inr (h, _) \<Rightarrow> dispatch b lib h s), connections1)))"

section \<open>HTTP/2\<close>

record h2_request =
  h2_method :: string
  h2_protocol :: string
  h2_path :: string
  h2_host :: string

definition serve_h2 :: "boundary \<Rightarrow> session \<Rightarrow> h2_request \<Rightarrow> event list" where
  "serve_h2 b s r =
     (if h2_method r \<noteq> ''CONNECT'' then refuse b ''h2'' [] [] s 405 ''connect-only''
      else if h2_protocol r \<noteq> [] then
        (if h2_protocol r \<noteq> ''connect-udp'' then
           malformed b ''h2'' [] (h2_path r) s ''unsupported-protocol''
         else
           (case masque_target (h2_path r) of
              None \<Rightarrow> malformed b ''h2'' ''udp'' (h2_path r) s ''malformed-template''
            | Some (host, port) \<Rightarrow> open_tunnel b ''h2'' ''udp'' host port s 200))
      else
        (case split_host_port (h2_host r) of
           None \<Rightarrow> malformed b ''h2'' ''tcp'' (h2_host r) s ''malformed-target''
         | Some (host, port) \<Rightarrow>
             if host = [] then malformed b ''h2'' ''tcp'' (h2_host r) s ''malformed-target''
             else if parse_port port = None then malformed b ''h2'' ''tcp'' (h2_host r) s ''malformed-port''
             else open_tunnel b ''h2'' ''tcp'' host port s 200))"

section \<open>Reading a list of effects\<close>

definition audits :: "event list \<Rightarrow> audit_record list" where
  "audits es = concat (map (\<lambda>e. case e of Audit r \<Rightarrow> [r] | _ \<Rightarrow> []) es)"

definition denials :: "event list \<Rightarrow> (nat \<times> string) list" where
  "denials es = concat (map (\<lambda>e. case e of Deny status reason \<Rightarrow> [(status, reason)] | _ \<Rightarrow> []) es)"

definition tunnels :: "event list \<Rightarrow> (string \<times> string) list" where
  "tunnels es = concat (map (\<lambda>e. case e of Tunnel network remote \<Rightarrow> [(network, remote)] | _ \<Rightarrow> []) es)"

text \<open>
  One decision, fully accounted for: one audit record; with decision \<open>allow\<close> there is no refusal and one
  tunnel, to the recorded address over the recorded transport; otherwise there is no tunnel and one
  refusal, with the recorded reason. A nil connection is never used.
\<close>

definition one_decision :: "event list \<Rightarrow> bool" where
  "one_decision es =
     (case audits es of
        [r] \<Rightarrow>
          Panic \<notin> set es
          \<and> (if ar_decision r = ''allow''
             then denials es = [] \<and> tunnels es = [(ar_transport r, ar_address r)]
             else tunnels es = [] \<and> map snd (denials es) = [ar_reason r] \<and> ar_reason r \<noteq> [])
      | _ \<Rightarrow> False)"

lemma effects_simps [simp]:
  "audits [] = []" "denials [] = []" "tunnels [] = []"
  "audits (Audit r # es) = r # audits es" "denials (Audit r # es) = denials es"
  "tunnels (Audit r # es) = tunnels es"
  "audits (Deny st w # es) = audits es" "denials (Deny st w # es) = (st, w) # denials es"
  "tunnels (Deny st w # es) = tunnels es"
  "audits (Dial n a # es) = audits es" "denials (Dial n a # es) = denials es"
  "tunnels (Dial n a # es) = tunnels es"
  "audits (Accept st # es) = audits es" "denials (Accept st # es) = denials es"
  "tunnels (Accept st # es) = tunnels es"
  "audits (Tunnel n a # es) = audits es" "denials (Tunnel n a # es) = denials es"
  "tunnels (Tunnel n a # es) = (n, a) # tunnels es"
  by (simp_all add: audits_def denials_def tunnels_def)

lemma effects_append [simp]:
  "audits (xs @ ys) = audits xs @ audits ys" "denials (xs @ ys) = denials xs @ denials ys"
  "tunnels (xs @ ys) = tunnels xs @ tunnels ys"
  by (simp_all add: audits_def denials_def tunnels_def)

lemma denials_iff: "(status, reason) \<in> set (denials es) \<longleftrightarrow> Deny status reason \<in> set es"
proof (induction es)
  case (Cons e es)
  then show ?case by (cases e) (auto simp: denials_def)
qed simp

lemma audited_fields [simp]:
  "ar_decision (audited b r) = ar_decision r" "ar_reason (audited b r) = ar_reason r"
  "ar_transport (audited b r) = ar_transport r" "ar_address (audited b r) = ar_address r"
  "ar_destination (audited b r) = ar_destination r" "ar_rule (audited b r) = ar_rule r"
  by (simp_all add: audited_def Let_def split: option.split)

section \<open>Dials\<close>

lemma dial_authorized_effects:
  assumes "dial_authorized dial i network addresses port err = (events, result)"
  shows "audits events = [] \<and> denials events = [] \<and> tunnels events = [] \<and> Panic \<notin> set events
    \<and> (\<forall>e \<in> set events. \<exists>a \<in> set addresses. e = Dial network (join_host_port (show_addr a) port))"
  using assms
proof (induction addresses arbitrary: i err events)
  case (Cons a as)
  show ?case
  proof (cases "dial i network (join_host_port (show_addr a) port)")
    case None
    with Cons.prems obtain es where
      "dial_authorized dial (Suc i) network as port DialFailed = (es, result)"
      "events = Dial network (join_host_port (show_addr a) port) # es"
      by (auto simp: Let_def split: prod.splits)
    with Cons.IH [OF this(1)] show ?thesis by auto
  qed (use Cons.prems in auto)
qed simp

lemma dial_authorized_result:
  "snd (dial_authorized dial i network addresses port err)
     \<in> (if addresses = [] then {err} else {DialFailed} \<union> range Dialed)"
proof (induction addresses arbitrary: i err)
  case (Cons a as)
  from Cons.IH [of "Suc i" DialFailed] show ?case
    by (auto simp: Let_def split: option.splits prod.splits if_splits)
qed simp

text \<open>
  The boundary tries the checked addresses in order and stops at the first that answers: what it
  dials is an initial part of the list, every attempt before the last failed, and a connection is the
  one the last attempt gave.
\<close>

lemma dials_in_order_until_first_answer:
  assumes "dial_authorized dial i network addresses port NoConn = (events, result)"
    and "addresses \<noteq> []"
  shows "\<exists>n \<le> length addresses. 0 < n
    \<and> events = map (\<lambda>a. Dial network (join_host_port (show_addr a) port)) (take n addresses)
    \<and> (\<forall>k < n - 1. dial (i + k) network (join_host_port (show_addr (addresses ! k)) port) = None)
    \<and> (case dial (i + (n - 1)) network (join_host_port (show_addr (addresses ! (n - 1))) port) of
         Some remote \<Rightarrow> result = Dialed remote
       | None \<Rightarrow> result = DialFailed \<and> n = length addresses)"
proof -
  have "\<exists>n \<le> length addresses. 0 < n
    \<and> events = map (\<lambda>a. Dial network (join_host_port (show_addr a) port)) (take n addresses)
    \<and> (\<forall>k < n - 1. dial (i + k) network (join_host_port (show_addr (addresses ! k)) port) = None)
    \<and> (case dial (i + (n - 1)) network (join_host_port (show_addr (addresses ! (n - 1))) port) of
         Some remote \<Rightarrow> result = Dialed remote
       | None \<Rightarrow> result = DialFailed \<and> n = length addresses)"
    if "dial_authorized dial i network addresses port err = (events, result)" for err
    using that assms(2)
  proof (induction addresses arbitrary: i err events)
    case (Cons a as)
    let ?t = "\<lambda>a. join_host_port (show_addr a) port"
    show ?case
    proof (cases "dial i network (?t a)")
      case (Some remote)
      with Cons.prems show ?thesis by (intro exI [of _ 1]) (auto simp: Let_def)
    next
      case None
      obtain es where es: "dial_authorized dial (Suc i) network as port DialFailed = (es, result)"
        and events: "events = Dial network (?t a) # es"
        using Cons.prems(1) None by (auto simp: Let_def split: prod.splits)
      show ?thesis
      proof (cases "as = []")
        case True
        with es events None show ?thesis by (intro exI [of _ 1]) auto
      next
        case False
        from Cons.IH [OF es False] obtain n where n: "n \<le> length as" "0 < n"
          "es = map (\<lambda>a. Dial network (?t a)) (take n as)"
          "\<forall>k < n - 1. dial (Suc i + k) network (?t (as ! k)) = None"
          "case dial (Suc i + (n - 1)) network (?t (as ! (n - 1))) of
             Some remote \<Rightarrow> result = Dialed remote
           | None \<Rightarrow> result = DialFailed \<and> n = length as" by blast
        have "\<forall>k < n. dial (i + k) network (?t ((a # as) ! k)) = None"
        proof (intro allI impI)
          fix k
          assume "k < n"
          with n(4) None show "dial (i + k) network (?t ((a # as) ! k)) = None"
            by (cases k) auto
        qed
        moreover have "Suc i + (n - 1) = i + n" "(a # as) ! n = as ! (n - 1)"
          using n(2) by (simp_all add: nth_Cons')
        ultimately show ?thesis
          using n events by (intro exI [of _ "Suc n"]) (auto split: option.splits)
      qed
    qed
  qed simp
  from this [OF assms(1)] show ?thesis .
qed

section \<open>One decision per request\<close>

text \<open>The outcomes of \<open>connect_upstream\<close>, once the shape of a verdict rules the nil connection out.\<close>

lemma connect_upstream_cases:
  assumes "connect_upstream b wire network host port s = (events, upstream)"
  obtains (refused) r status where "upstream = None" and "events = [audit b r, Deny status (ar_reason r)]"
      and "ar_decision r \<in> {''fail'', ''block''}" and "ar_reason r \<noteq> []"
  | (dialed) p v dials result where "bnd_current b = Some p" and "network = ''udp'' \<longrightarrow> pol_udp p"
      and "v = authorize (bnd_env b) (bnd_lookup b) p host port network" and "allowed v"
      and "dial_authorized (bnd_dial b) 0 network (v_addresses v) port NoConn = (dials, result)"
      and "(\<exists>r. result = DialFailed \<and> upstream = None
              \<and> events = dials @ [audit b r, Deny 502 (ar_reason r)]
              \<and> ar_decision r = ''fail'' \<and> ar_reason r = ''dial-failed'')
         \<or> (\<exists>remote r. result = Dialed remote \<and> upstream = Some remote \<and> events = dials @ [audit b r]
              \<and> ar_decision r = ''allow'' \<and> ar_transport r = network \<and> ar_address r = remote)"
proof (cases "bnd_current b")
  case None
  with assms show ?thesis
    by (intro refused) (auto simp: connect_upstream_def Let_def)
next
  case (Some p)
  define v where "v = authorize (bnd_env b) (bnd_lookup b) p host port network"
  note shape = authorize_shape [of "bnd_env b" "bnd_lookup b" p host port network, folded v_def]
  show ?thesis
  proof (cases "network = ''udp'' \<and> \<not> pol_udp p \<or> \<not> allowed v")
    case True
    then consider "network = ''udp'' \<and> \<not> pol_udp p"
      | "\<not> (network = ''udp'' \<and> \<not> pol_udp p)" "v_reason v \<noteq> []"
      | "\<not> (network = ''udp'' \<and> \<not> pol_udp p)" "v_reason v = []" "v_err v"
      by (auto simp: allowed_def)
    then show ?thesis
    proof cases
      case 1
      with assms Some show ?thesis by (intro refused) (auto simp: connect_upstream_def Let_def)
    next
      case 2
      with assms Some show ?thesis
        by (intro refused) (auto simp: connect_upstream_def Let_def simp flip: v_def)
    next
      case 3
      with assms Some show ?thesis
        by (intro refused) (auto simp: connect_upstream_def Let_def simp flip: v_def)
    qed
  next
    case False
    then have ok: "allowed v" and udp: "network = ''udp'' \<longrightarrow> pol_udp p" by auto
    obtain dials result where d:
      "dial_authorized (bnd_dial b) 0 network (v_addresses v) port NoConn = (dials, result)" by fastforce
    have "v_addresses v \<noteq> []" using shape ok by (auto simp: verdict_shape_def allowed_def)
    with dial_authorized_result [of "bnd_dial b" 0 network "v_addresses v" port NoConn] d
    have "result = DialFailed \<or> (\<exists>remote. result = Dialed remote)" by auto
    let ?rec = "blank_record\<lparr>ar_wire := wire, ar_transport := network, ar_peer := s_peer s,
      ar_connection := s_id s, ar_destination := v_destination v\<rparr>"
    have ev: "(events, upstream) = (case result of
        DialFailed \<Rightarrow> (dials @ [audit b (?rec\<lparr>ar_decision := ''fail'', ar_reason := ''dial-failed''\<rparr>),
          Deny 502 ''dial-failed''], None)
      | NoConn \<Rightarrow> (dials @ [Panic], None)
      | Dialed remote \<Rightarrow> (dials @ [audit b (?rec\<lparr>ar_decision := ''allow'', ar_address := remote,
          ar_rule := v_rule v\<rparr>)], Some remote))"
      using assms Some udp d ok
      by (auto simp: connect_upstream_def Let_def allowed_def simp flip: v_def split: dial_result.split)
    from \<open>result = DialFailed \<or> _\<close> show ?thesis
    proof (elim disjE exE)
      assume "result = DialFailed"
      with ev show ?thesis
        by (intro dialed [OF Some udp v_def ok d] disjI1
            exI [of _ "?rec\<lparr>ar_decision := ''fail'', ar_reason := ''dial-failed''\<rparr>"]) simp
    next
      fix remote
      assume "result = Dialed remote"
      with ev show ?thesis
        by (intro dialed [OF Some udp v_def ok d] disjI2 exI [of _ remote]
            exI [of _ "?rec\<lparr>ar_decision := ''allow'', ar_address := remote, ar_rule := v_rule v\<rparr>"]) simp
    qed
  qed
qed

lemma one_decision_refused:
  "ar_decision r \<in> {''fail'', ''block''} \<Longrightarrow> ar_reason r \<noteq> [] \<Longrightarrow> audits dials = [] \<Longrightarrow> denials dials = []
    \<Longrightarrow> tunnels dials = [] \<Longrightarrow> Panic \<notin> set dials
    \<Longrightarrow> one_decision (dials @ [audit b r, Deny status (ar_reason r)])"
  by (auto simp: one_decision_def audit_def)

lemma open_tunnel_one_decision: "one_decision (open_tunnel b wire network host port s status)"
proof -
  obtain events upstream where c: "connect_upstream b wire network host port s = (events, upstream)"
    by fastforce
  then show ?thesis
  proof (cases rule: connect_upstream_cases)
    case (refused r st)
    with c one_decision_refused [of r "[]" b st] show ?thesis by (simp add: open_tunnel_def)
  next
    case (dialed p v dials result)
    note eff = dial_authorized_effects [OF dialed(5)]
    from dialed(6) show ?thesis
    proof (elim disjE exE conjE)
      fix r
      assume "upstream = None" "events = dials @ [audit b r, Deny 502 (ar_reason r)]"
        "ar_decision r = ''fail''" "ar_reason r = ''dial-failed''"
      with c eff one_decision_refused [of r dials b 502] show ?thesis by (simp add: open_tunnel_def)
    next
      fix remote r
      assume "upstream = Some remote" "events = dials @ [audit b r]"
        "ar_decision r = ''allow''" "ar_transport r = network" "ar_address r = remote"
      with c eff show ?thesis by (simp add: open_tunnel_def one_decision_def audit_def)
    qed
  qed
qed

lemma refuse_one_decision: "reason \<noteq> [] \<Longrightarrow> one_decision (refuse b wire network dest s status reason)"
  by (simp add: refuse_def one_decision_def audit_def)

lemma connect_target_reason: "connect_target env lib h = Inl reason
  \<Longrightarrow> reason \<in> {''malformed-target'', ''malformed-port'', ''authority-mismatch''}"
  by (auto simp: connect_target_def split: if_splits option.splits)

lemma one_decision_dispatch: "one_decision (dispatch b lib h s)"
  by (auto simp: dispatch_def handle_connect_def handle_connect_udp_def malformed_def
      open_tunnel_one_decision dest: connect_target_reason intro!: refuse_one_decision
      split: sum.split option.split prod.split)

lemma one_decision_serve_h2: "one_decision (serve_h2 b s req)"
  by (auto simp: serve_h2_def malformed_def open_tunnel_one_decision intro!: refuse_one_decision
      split: option.split prod.split)

text \<open>
  C12. Every request with a readable head, on either wire and whatever it asks for, ends in exactly one
  decision with exactly one audit record: an allowed request gets one tunnel, to the address and over
  the transport the record names, and every other request one refusal whose reason is the record's
  and no tunnel. No branch dereferences a missing connection.
\<close>

theorem one_audit_record_per_decision:
  "one_decision (dispatch b lib h s) \<and> one_decision (serve_h2 b s req)"
  by (simp add: one_decision_dispatch one_decision_serve_h2)

section \<open>Only what policy grants is dialed\<close>

lemma open_tunnel_dials:
  assumes "Dial n target \<in> set (open_tunnel b wire network host port s status)"
  shows "n = network \<and> (\<exists>p a. bnd_current b = Some p \<and> (network = ''udp'' \<longrightarrow> pol_udp p)
    \<and> target = join_host_port (show_addr a) port
    \<and> a \<in> set (v_addresses (authorize (bnd_env b) (bnd_lookup b) p host port network)))"
proof -
  obtain events upstream where c: "connect_upstream b wire network host port s = (events, upstream)"
    by fastforce
  with assms have d: "Dial n target \<in> set events"
    by (auto simp: open_tunnel_def split: option.splits)
  from c show ?thesis
  proof (cases rule: connect_upstream_cases)
    case (refused r st)
    with d show ?thesis by (simp add: audit_def)
  next
    case (dialed p v dials result)
    from d dialed(6) have "Dial n target \<in> set dials" by (auto simp: audit_def)
    with dial_authorized_effects [OF dialed(5)] dialed(1,2,3) show ?thesis by fastforce
  qed
qed

lemma refuse_no_dial: "Dial n target \<notin> set (refuse b wire network dest s status reason)"
  by (simp add: refuse_def audit_def)

text \<open>
  What a request asks for, read off the request alone: the host and the port of a CONNECT request are
  those of its target (of its authority, on HTTP/2) over TCP, and those of a connect-udp request are in
  the path of its template over UDP. No other request asks for anything.
\<close>

definition asks_h1 :: "http_lib \<Rightarrow> http_head \<Rightarrow> string \<Rightarrow> (string \<times> string) option" where
  "asks_h1 lib h network =
     (if hd_method h = ''CONNECT'' \<and> network = ''tcp'' then split_host_port (hd_target h)
      else if hd_method h = ''GET'' \<and> is_upgrade lib h \<and> network = ''udp'' then
        (case parse_request_uri lib (hd_target h) of
           Some (False, path) \<Rightarrow> masque_target path
         | _ \<Rightarrow> None)
      else None)"

definition asks_h2 :: "h2_request \<Rightarrow> string \<Rightarrow> (string \<times> string) option" where
  "asks_h2 req network =
     (if h2_method req \<noteq> ''CONNECT'' then None
      else if h2_protocol req = [] \<and> network = ''tcp'' then split_host_port (h2_host req)
      else if h2_protocol req = ''connect-udp'' \<and> network = ''udp'' then masque_target (h2_path req)
      else None)"

lemma connect_target_asks: "connect_target env lib h = Inr (host, port) \<Longrightarrow> split_host_port (hd_target h) = Some (host, port)"
  by (auto simp: connect_target_def split: option.splits if_splits)

lemma upgrade_target_path: "upgrade_target lib h = Some path \<Longrightarrow> parse_request_uri lib (hd_target h) = Some (False, path)"
  by (auto simp: upgrade_target_def split: option.splits if_splits)

lemma dispatch_dials:
  assumes "Dial n target \<in> set (dispatch b lib h s)"
  shows "\<exists>network host port status. asks_h1 lib h network = Some (host, port)
    \<and> Dial n target \<in> set (open_tunnel b ''h1'' network host port s status)"
proof (cases "hd_method h = ''CONNECT''")
  case True
  with assms obtain host port where t: "connect_target (bnd_env b) lib h = Inr (host, port)"
    and d: "Dial n target \<in> set (open_tunnel b ''h1'' ''tcp'' host port s 200)"
    by (auto simp: dispatch_def handle_connect_def malformed_def refuse_no_dial split: sum.splits)
  from connect_target_asks [OF t] True have "asks_h1 lib h ''tcp'' = Some (host, port)"
    by (simp add: asks_h1_def)
  with d show ?thesis by blast
next
  case False
  with assms have up: "hd_method h = ''GET''" "is_upgrade lib h"
    and "Dial n target \<in> set (handle_connect_udp b lib h s)"
    by (auto simp: dispatch_def refuse_no_dial split: if_splits)
  then obtain path host port where "upgrade_target lib h = Some path" "masque_target path = Some (host, port)"
    and d: "Dial n target \<in> set (open_tunnel b ''h1'' ''udp'' host port s 101)"
    by (auto simp: handle_connect_udp_def malformed_def refuse_no_dial split: option.splits)
  with up upgrade_target_path have "asks_h1 lib h ''udp'' = Some (host, port)" by (simp add: asks_h1_def)
  with d show ?thesis by blast
qed

lemma serve_h2_dials:
  assumes "Dial n target \<in> set (serve_h2 b s req)"
  shows "\<exists>network host port status. asks_h2 req network = Some (host, port)
    \<and> Dial n target \<in> set (open_tunnel b ''h2'' network host port s status)"
proof -
  from assms have connect: "h2_method req = ''CONNECT''"
    by (auto simp: serve_h2_def refuse_no_dial split: if_splits)
  show ?thesis
  proof (cases "h2_protocol req = []")
    case True
    with assms connect obtain host port where "split_host_port (h2_host req) = Some (host, port)"
      and "Dial n target \<in> set (open_tunnel b ''h2'' ''tcp'' host port s 200)"
      by (auto simp: serve_h2_def malformed_def refuse_no_dial split: if_splits option.splits)
    moreover from this(1) True connect have "asks_h2 req ''tcp'' = Some (host, port)" by (simp add: asks_h2_def)
    ultimately show ?thesis by blast
  next
    case False
    with assms connect obtain host port where "h2_protocol req = ''connect-udp''"
      and "masque_target (h2_path req) = Some (host, port)"
      and "Dial n target \<in> set (open_tunnel b ''h2'' ''udp'' host port s 200)"
      by (auto simp: serve_h2_def malformed_def refuse_no_dial split: if_splits option.splits)
    moreover from this(1,2) connect have "asks_h2 req ''udp'' = Some (host, port)" by (simp add: asks_h2_def)
    ultimately show ?thesis by blast
  qed
qed

lemma permitted_special_address:
  assumes "special_address a" and "zone_of a = []" and "\<not> is4in6 a" and "name_permits p name a number n"
  shows "literal_rule p a number \<noteq> None \<or> excepted p a number
    \<or> list_ex (\<lambda>r. rule_covers number n r \<and> listed (rule_resolve r) a) (name_candidates p name)"
proof -
  from assms(1) have "a \<noteq> IPInvalid"
    by (auto simp: special_address_def prefix_contains_def list_ex_iff)
  with assms(1-3) public_IP4 public_IP6 have "\<not> public_address a" by (cases a) auto
  with assms(4) show ?thesis by (auto simp: name_permits_def keep_address_def list_ex_iff)
qed

text \<open>
  C11. The boundary never opens a connection that its policy does not grant to what was asked for. On both
  wires, every dial of a request is on the request's own port, over the transport it asked for, to an
  address that the authorization of exactly its host and port over that transport returned, with a
  policy loaded, and over UDP only when the policy enables it. If that address is special-purpose, the
  policy names it: by a literal rule, by an exception, or by the \<open>resolve\<close> list of a name rule that
  matches the request's own normalized host, port and transport.
\<close>

theorem boundary_dials_only_granted:
  assumes "(events, asks) \<in> {(dispatch b lib h s, asks_h1 lib h), (serve_h2 b s req, asks_h2 req)}"
    and "Dial n target \<in> set events"
  shows "\<exists>p a host port number. asks n = Some (host, port)
    \<and> bnd_current b = Some p \<and> (n = ''udp'' \<longrightarrow> pol_udp p)
    \<and> target = join_host_port (show_addr a) port \<and> parse_port port = Some number
    \<and> a \<in> set (v_addresses (authorize (bnd_env b) (bnd_lookup b) p host port n))
    \<and> (special_address a \<longrightarrow> literal_permits p a number n \<or> literal_rule p a number \<noteq> None
         \<or> excepted p a number
         \<or> (\<exists>name. normalize_name (bnd_env b) host = Some name
              \<and> list_ex (\<lambda>r. rule_covers number n r \<and> listed (rule_resolve r) a) (name_candidates p name)))"
proof -
  from assms obtain wire network host port status where asked: "asks network = Some (host, port)"
    and d: "Dial n target \<in> set (open_tunnel b wire network host port s status)"
    using dispatch_dials [of n target b lib h s] serve_h2_dials [of n target b s req] by auto
  from open_tunnel_dials [OF d] obtain p a where n: "n = network" and p: "bnd_current b = Some p"
    "n = ''udp'' \<longrightarrow> pol_udp p" "target = join_host_port (show_addr a) port"
    "a \<in> set (v_addresses (authorize (bnd_env b) (bnd_lookup b) p host port n))"
    by auto
  from authorize_addressD [OF p(4)] obtain number where number: "parse_port port = Some number"
    and why: "literal_permits p a number n
      \<or> (\<exists>name. normalize_name (bnd_env b) host = Some name \<and> zone_of a = [] \<and> \<not> is4in6 a
           \<and> name_permits p name a number n)"
    by blast
  from why permitted_special_address have "special_address a \<longrightarrow> literal_permits p a number n
      \<or> literal_rule p a number \<noteq> None \<or> excepted p a number
      \<or> (\<exists>name. normalize_name (bnd_env b) host = Some name
           \<and> list_ex (\<lambda>r. rule_covers number n r \<and> listed (rule_resolve r) a) (name_candidates p name))"
    by blast
  with asked n p number show ?thesis by blast
qed

text \<open>A boundary with the sample policy, for the witnesses.\<close>

definition sample_boundary :: boundary where
  "sample_boundary =
     \<lparr>bnd_env = ascii_env, bnd_lookup = (\<lambda>_. Some [IP4 0x08080808]),
      bnd_dial = (\<lambda>i network target. Some target), bnd_current = Some sample_policy,
      bnd_listener = ''unix:///run/b.sock'', bnd_now = ''2025-01-01T00:00:00Z''\<rparr>"

definition sample_request :: h2_request where
  "sample_request = \<lparr>h2_method = ''CONNECT'', h2_protocol = [], h2_path = [], h2_host = ''api.example.com:443''\<rparr>"

lemmas boundary_eval =
  policy_eval sample_boundary_def sample_request_def serve_h2_def open_tunnel_def connect_upstream_def
  split_host_port_def public_IP4 special_address_IP4 Let_def

theorem boundary_dials_only_granted_witness:
  "Dial ''tcp'' ''8.8.8.8:443'' \<in> set (serve_h2 sample_boundary \<lparr>s_peer = [], s_id = ''1''\<rparr> sample_request)
   \<and> (\<exists>p a. bnd_current sample_boundary = Some p \<and> ''8.8.8.8:443'' = join_host_port (show_addr a) ''443''
        \<and> a \<in> set (v_addresses (authorize ascii_env (bnd_lookup sample_boundary) p ''api.example.com'' ''443'' ''tcp'')))"
proof -
  let ?s = "\<lparr>s_peer = [], s_id = ''1''\<rparr>"
  have d: "Dial ''tcp'' ''8.8.8.8:443'' \<in> set (serve_h2 sample_boundary ?s sample_request)"
    by (simp add: boundary_eval)
  have "asks_h2 sample_request ''tcp'' = Some (''api.example.com'', ''443'')"
    by (simp add: boundary_eval asks_h2_def)
  with boundary_dials_only_granted [of "serve_h2 sample_boundary ?s sample_request" "asks_h2 sample_request"
      sample_boundary sample_lib sample_head ?s sample_request, OF _ d] d
  show ?thesis by (auto simp: sample_boundary_def)
qed

section \<open>Refusals as the client sees them\<close>

text \<open>Every reason token with which this boundary refuses, with its HTTP status.\<close>

definition boundary_reasons :: "(nat \<times> string) list" where
  "boundary_reasons =
     [(503, ''policy-unavailable''), (403, ''udp-disabled''), (502, ''resolve-failed''),
      (502, ''dial-failed''), (400, ''authority-mismatch''), (400, ''malformed-upgrade''),
      (400, ''malformed-template''), (400, ''unsupported-protocol''), (405, ''connect-only''),
      (400, ''malformed-request-line''), (505, ''unsupported-version''), (400, ''malformed-header''),
      (400, ''duplicate-host''), (400, ''missing-host''), (431, ''head-too-large''),
      (400, ''malformed-port''), (400, ''malformed-target''), (403, ''scoped-ip''),
      (403, ''port-not-allowed''), (403, ''transport-not-allowed''), (403, ''ip-not-on-allowlist''),
      (403, ''not-on-allowlist''), (403, ''resolved-address-denied'')]"

lemma boundary_reason_mem:
  "(503, ''policy-unavailable'') \<in> set boundary_reasons"
  "(403, ''udp-disabled'') \<in> set boundary_reasons"
  "(502, ''resolve-failed'') \<in> set boundary_reasons"
  "(502, ''dial-failed'') \<in> set boundary_reasons"
  "(400, ''authority-mismatch'') \<in> set boundary_reasons"
  "(400, ''malformed-upgrade'') \<in> set boundary_reasons"
  "(400, ''malformed-template'') \<in> set boundary_reasons"
  "(400, ''unsupported-protocol'') \<in> set boundary_reasons"
  "(405, ''connect-only'') \<in> set boundary_reasons"
  "(400, ''malformed-request-line'') \<in> set boundary_reasons"
  "(505, ''unsupported-version'') \<in> set boundary_reasons"
  "(400, ''malformed-header'') \<in> set boundary_reasons"
  "(400, ''duplicate-host'') \<in> set boundary_reasons"
  "(400, ''missing-host'') \<in> set boundary_reasons"
  "(431, ''head-too-large'') \<in> set boundary_reasons"
  "(400, ''malformed-port'') \<in> set boundary_reasons"
  "(400, ''malformed-target'') \<in> set boundary_reasons"
  "(403, ''scoped-ip'') \<in> set boundary_reasons"
  "(403, ''port-not-allowed'') \<in> set boundary_reasons"
  "(403, ''transport-not-allowed'') \<in> set boundary_reasons"
  "(403, ''ip-not-on-allowlist'') \<in> set boundary_reasons"
  "(403, ''not-on-allowlist'') \<in> set boundary_reasons"
  "(403, ''resolved-address-denied'') \<in> set boundary_reasons"
  by (simp_all add: boundary_reasons_def)

lemma select_rule_reasons:
  assumes "select_rule rs number network = (sel, reason)" and "reason \<noteq> []"
  shows "(403, reason) \<in> set boundary_reasons"
proof -
  from assms have "reason = ''port-not-allowed'' \<or> reason = ''transport-not-allowed''"
    by (auto simp: select_rule_eq split: option.splits if_splits)
  then show ?thesis using boundary_reason_mem by auto
qed

lemma authorize_reasons:
  assumes "v = authorize env lookup p host port network" and "v_reason v \<noteq> []"
  shows "(v_status v, v_reason v) \<in> set boundary_reasons"
proof -
  let ?ok = "\<lambda>w. v_reason w = [] \<or> (v_status w, v_reason w) \<in> set boundary_reasons"
  have "?ok (authorize_literal p (new_verdict d) raw port number network)" for d raw number
    by (auto simp: authorize_literal_def boundary_reason_mem Let_def
        dest: select_rule_reasons split: prod.splits option.splits)
  moreover have "?ok (authorize_name lookup p (new_verdict d) nm port number network)" for d nm number
    by (auto simp: authorize_name_def boundary_reason_mem Let_def
        dest: select_rule_reasons split: prod.splits option.splits)
  ultimately have "?ok (authorize env lookup p host port network)"
    by (simp add: authorize_def boundary_reason_mem Let_def split: option.split)
  with assms show ?thesis by simp
qed

lemma open_tunnel_denials:
  assumes "Deny st reason \<in> set (open_tunnel b wire network host port s status)"
  shows "(st, reason) \<in> set boundary_reasons"
proof (cases "bnd_current b")
  case None
  with assms show ?thesis
    by (auto simp: open_tunnel_def connect_upstream_def Let_def boundary_reason_mem audit_def)
next
  case (Some p)
  let ?v = "authorize (bnd_env b) (bnd_lookup b) p host port network"
  obtain dials result where d:
    "dial_authorized (bnd_dial b) 0 network (v_addresses ?v) port NoConn = (dials, result)" by fastforce
  have "Deny st reason \<notin> set dials" using dial_authorized_effects [OF d] by auto
  with assms Some d authorize_reasons [of ?v, OF refl] show ?thesis
    by (auto simp: open_tunnel_def connect_upstream_def Let_def boundary_reason_mem audit_def
        split: if_splits dial_result.splits)
qed

lemma refuse_denials:
  "(status, reason) \<in> set boundary_reasons
    \<Longrightarrow> Deny st why \<in> set (refuse b wire network dest s status reason) \<Longrightarrow> (st, why) \<in> set boundary_reasons"
  by (simp add: refuse_def audit_def)

lemma connect_target_refusal:
  "connect_target env lib h = Inl reason \<Longrightarrow> (400, reason) \<in> set boundary_reasons"
  using connect_target_reason [of env lib h reason] boundary_reason_mem by auto

lemma dispatch_denials:
  "Deny st reason \<in> set (dispatch b lib h s) \<Longrightarrow> (st, reason) \<in> set boundary_reasons"
  by (auto simp: dispatch_def handle_connect_def handle_connect_udp_def malformed_def boundary_reason_mem
      dest: refuse_denials [rotated] connect_target_refusal open_tunnel_denials
      split: if_splits sum.splits option.splits)

lemma serve_h2_denials:
  "Deny st reason \<in> set (serve_h2 b s req) \<Longrightarrow> (st, reason) \<in> set boundary_reasons"
  by (auto simp: serve_h2_def malformed_def boundary_reason_mem
      dest: refuse_denials [rotated] open_tunnel_denials split: if_splits option.splits)

lemma boundary_reasons_tokens:
  "(status, reason) \<in> set boundary_reasons \<Longrightarrow> reason_token reason \<and> 400 \<le> status \<and> status < 600"
proof -
  have "list_all (\<lambda>(status, reason). reason_token reason \<and> 400 \<le> status \<and> status < 600) boundary_reasons"
    by (simp add: boundary_reasons_def reason_token_def token_char_def byte_of_def)
  then show "(status, reason) \<in> set boundary_reasons \<Longrightarrow> reason_token reason \<and> 400 \<le> status \<and> status < 600"
    by (auto simp: list_all_iff)
qed

text \<open>
  What the library's readers may refuse with: only the bounded reader under them makes such an error.
\<close>

definition refuses_only_large_heads :: "http_lib \<Rightarrow> bool" where
  "refuses_only_large_heads lib =
     (\<forall>r status reason. read_line lib r = Inl (Refused status reason)
          \<or> read_mime_header lib r = Inl (Refused status reason)
        \<longrightarrow> status = 431 \<and> reason = ''head-too-large'')"

lemma serve_denials:
  assumes "refuses_only_large_heads lib" and "Deny st reason \<in> set (fst (serve b lib conn r n))"
  shows "(st, reason) \<in> set boundary_reasons"
proof -
  from assms(2) obtain peer where peer: "session_peer conn = Some peer"
    by (auto simp: serve_def audit_def split: option.splits)
  show ?thesis
  proof (cases "read_head lib r")
    case (Inl e)
    with assms(2) peer have e: "e = Refused st reason"
      by (auto simp: serve_def audit_def split: prod.splits read_failure.splits)
    from read_head_refusals [OF Inl [unfolded e]] assms(1) boundary_reason_mem show ?thesis
      by (auto simp: refuses_only_large_heads_def)
  next
    case (Inr x)
    with assms(2) peer show ?thesis
      by (auto simp: serve_def split: prod.splits dest: dispatch_denials)
  qed
qed

text \<open>
  A connection on the HTTP/1.1 wire is accounted for in every case: a failed TLS handshake leaves one
  \<open>tls-failed\<close> record and nothing else, a peer that goes away or stalls before its head is complete leaves
  no effect at all, and every other connection ends in one decision with one audit record. It takes
  one connection number unless the handshake failed.
\<close>

lemma serve_accounts_for_connection:
  "case serve b lib conn r n of (events, n') \<Rightarrow>
     (case (session_peer conn, read_head lib r) of
        (None, _) \<Rightarrow> (\<exists>rec. events = [Audit rec] \<and> ar_reason rec = ''tls-failed'') \<and> n' = n
      | (Some peer, Inl (Refused status reason)) \<Rightarrow>
          (\<exists>rec. events = [Audit rec, Deny status reason] \<and> ar_reason rec = reason
             \<and> ar_decision rec = ''block'' \<and> ar_peer rec = peer) \<and> n' = n + 1
      | (Some peer, Inl _) \<Rightarrow> events = [] \<and> n' = n + 1
      | (Some peer, Inr _) \<Rightarrow> one_decision events \<and> n' = n + 1)"
  using one_decision_dispatch
  by (auto simp: serve_def new_session_def audit_def audited_def Let_def
      split: option.split sum.split read_failure.split)

end
