(* ===== verification/Client.thy ===== *)
theory Client
  imports Boundary
begin

text \<open>
  The adapter's boundary clients (sdk/pkg/tun2connect/connect.go and connect_h2.go): the requests they
  build for a flow, how they find the final response, and what they make of it; and the two ends
  together, a client's request as the boundary reads it. Writing and parsing the messages is the HTTP
  library's work: a request is its parts, a response its status and header.
\<close>

section \<open>Requests\<close>

record http_request =
  rq_method :: string
  rq_host :: string
  rq_path :: string
  rq_raw_path :: string
  rq_header :: mime_header

definition client_authority :: "string \<Rightarrow> string" where
  "client_authority authority = (if authority \<noteq> [] then authority else ''boundary'')"

text \<open>\<open>url.PathEscape\<close> escapes every byte but the unreserved ones and some that are safe in a segment.\<close>

definition path_segment_safe :: "char \<Rightarrow> bool" where
  "path_segment_safe c =
     (let n = byte_of c in
      (48 \<le> n \<and> n \<le> 57) \<or> (65 \<le> n \<and> n \<le> 90) \<or> (97 \<le> n \<and> n \<le> 122)
      \<or> c \<in> set ''-_.~$&+:=@'')"

definition upper_hex :: "nat \<Rightarrow> char" where
  "upper_hex n = ''0123456789ABCDEF'' ! n"

definition escape_byte :: "char \<Rightarrow> string" where
  "escape_byte c = [CHR ''%'', upper_hex (byte_of c div 16), upper_hex (byte_of c mod 16)]"

definition path_escape :: "string \<Rightarrow> string" where
  "path_escape s = concat (map (\<lambda>c. if path_segment_safe c then [c] else escape_byte c) s)"

definition encode_host :: "string \<Rightarrow> string" where
  "encode_host host =
     concat (map (\<lambda>c. if c = CHR '':'' then ''%3A'' else [c]) (path_escape host))"

definition masque_path :: "string \<Rightarrow> u16 \<Rightarrow> string" where
  "masque_path host port =
     ''/.well-known/masque/udp/'' @ host @ ''/'' @ show_nat (unat port) @ ''/''"

definition tcp_request :: "mime_header \<Rightarrow> string \<Rightarrow> u16 \<Rightarrow> http_request" where
  "tcp_request extra name port =
     \<lparr>rq_method = ''CONNECT'', rq_host = join_host_port name (show_nat (unat port)), rq_path = [],
      rq_raw_path = [], rq_header = extra\<rparr>"

definition udp_request :: "string \<Rightarrow> mime_header \<Rightarrow> string \<Rightarrow> u16 \<Rightarrow> http_request" where
  "udp_request authority extra name port =
     \<lparr>rq_method = ''GET'', rq_host = client_authority authority, rq_path = masque_path name port,
      rq_raw_path = masque_path (encode_host name) port,
      rq_header = [(''Connection'', [''Upgrade'']), (''Upgrade'', [''connect-udp'']),
                   (''Capsule-Protocol'', [''?1''])] @ extra\<rparr>"

definition udp_request_h2 :: "string \<Rightarrow> mime_header \<Rightarrow> string \<Rightarrow> u16 \<Rightarrow> http_request" where
  "udp_request_h2 authority extra name port =
     \<lparr>rq_method = ''CONNECT'', rq_host = client_authority authority, rq_path = masque_path name port,
      rq_raw_path = masque_path (encode_host name) port,
      rq_header = [('':protocol'', [''connect-udp'']), (''Capsule-Protocol'', [''?1''])] @ extra\<rparr>"

section \<open>Responses\<close>

record http_response =
  rs_status :: nat
  rs_text :: string
  rs_header :: mime_header

datatype client_error =
    TransportError
  | TooManyInterim
  | DialError nat string string

definition max_interim_responses :: nat where "max_interim_responses = 8"

text \<open>The responses as they arrive; a failed read, or the end of the connection, is \<open>None\<close>.\<close>

fun read_final_response :: "nat \<Rightarrow> http_response option list \<Rightarrow> client_error + http_response" where
  "read_final_response interim [] = Inl TransportError"
| "read_final_response interim (None # rs) = Inl TransportError"
| "read_final_response interim (Some r # rs) =
     (if rs_status r < 100 \<or> rs_status r \<ge> 200 \<or> rs_status r = 101 then Inr r
      else if interim \<ge> max_interim_responses then Inl TooManyInterim
      else read_final_response (Suc interim) rs)"

definition refusal :: "http_response \<Rightarrow> client_error" where
  "refusal r =
     DialError (rs_status r) (rs_text r) (proxy_status_reason (header_get (rs_header r) ''Proxy-Status''))"

text \<open>Whether a dial yields a tunnel: \<open>Inr ()\<close>, or the error the flow is refused with.\<close>

definition dial_tcp :: "http_response option list \<Rightarrow> client_error + unit" where
  "dial_tcp responses =
     (case read_final_response 0 responses of
        Inl e \<Rightarrow> Inl e
      | Inr r \<Rightarrow> if rs_status r < 200 \<or> rs_status r > 299 then Inl (refusal r) else Inr ())"

definition dial_udp :: "http_response option list \<Rightarrow> client_error + unit" where
  "dial_udp responses =
     (case read_final_response 0 responses of
        Inl e \<Rightarrow> Inl e
      | Inr r \<Rightarrow>
          if rs_status r \<noteq> 101 \<or> header_get (rs_header r) ''Upgrade'' \<noteq> ''connect-udp''
          then Inl (refusal r) else Inr ())"

text \<open>HTTP/2: the library returns the final response or an error.\<close>

definition dial_h2 :: "http_response option \<Rightarrow> client_error + unit" where
  "dial_h2 response =
     (case response of
        None \<Rightarrow> Inl TransportError
      | Some r \<Rightarrow> if rs_status r < 200 \<or> rs_status r > 299 then Inl (refusal r) else Inr ())"

section \<open>What the boundary reads\<close>

text \<open>A client's request on the HTTP/2 wire, and the head of its HTTP/1.1 CONNECT.\<close>

definition as_h2_request :: "http_request \<Rightarrow> h2_request" where
  "as_h2_request r =
     \<lparr>h2_method = rq_method r, h2_protocol = header_get (rq_header r) '':protocol'',
      h2_path = rq_path r, h2_host = rq_host r\<rparr>"

definition as_head :: "http_request \<Rightarrow> http_head" where
  "as_head r =
     \<lparr>hd_method = rq_method r, hd_target = rq_host r, hd_major = 1, hd_minor = 1,
      hd_header = (''Host'', [rq_host r]) # rq_header r\<rparr>"

lemma show_nat_plain:
  "CHR ''['' \<notin> set (show_nat n)" "CHR '']'' \<notin> set (show_nat n)" "CHR '':'' \<notin> set (show_nat n)"
  "CHR ''/'' \<notin> set (show_nat n)" "CHR ''%'' \<notin> set (show_nat n)"
  using digit_not_special [OF show_nat_digits] by auto

lemma split_hostport:
  "CHR ''['' \<notin> set name \<Longrightarrow> CHR '']'' \<notin> set name
    \<Longrightarrow> split_host_port (join_host_port name (show_nat n)) = Some (name, show_nat n)"
  by (simp add: split_join_host_port show_nat_plain)

lemma path_unescape_plain: "CHR ''%'' \<notin> set s \<Longrightarrow> path_unescape s = Some s"
  by (induction s rule: path_unescape.induct) auto

lemma masque_target_path:
  assumes "name \<noteq> []" and "CHR ''/'' \<notin> set name" and "CHR ''%'' \<notin> set name"
  shows "masque_target (masque_path name port) = Some (name, show_nat (unat port))"
proof -
  let ?p = "show_nat (unat port)"
  let ?body = "''.well-known'' @ CHR ''/'' # ''masque'' @ CHR ''/'' # ''udp'' @ CHR ''/'' # name @ CHR ''/'' # ?p"
  have path: "masque_path name port = CHR ''/'' # ?body @ ''/''" by (simp add: masque_path_def)
  have "last ?p \<noteq> CHR ''/''" using show_nat_plain(4) last_in_set [of ?p] by force
  then have trim: "trim_byte (CHR ''/'') (masque_path name port) = ?body"
    unfolding path trim_byte_def by (cases "rev ?p") (auto simp: hd_rev [symmetric])
  have "split_byte (CHR ''/'') ?body = [''.well-known'', ''masque'', ''udp'', name, ?p]"
    using assms(2) by (simp add: split_byte_append split_byte_absent show_nat_plain)
  then show ?thesis
    using assms(1) by (simp add: masque_target_def trim path_unescape_plain [OF assms(3)])
qed

lemma equal_fold_refl: "is_ascii s \<Longrightarrow> equal_fold env s s"
  by (simp add: equal_fold_def)

lemma same_authority_refl:
  "split_host_port a = Some (host, port) \<Longrightarrow> is_ascii host \<Longrightarrow> same_authority env a a"
proof -
  assume "split_host_port a = Some (host, port)" and "is_ascii host"
  moreover from this(2) have "is_ascii (trim_suffix host ''.'')"
    using set_trim_suffix [of host "''.''"] by (auto simp: is_ascii_def list_all_iff)
  ultimately show "same_authority env a a"
    by (auto simp: same_authority_def equal_fold_refl split: option.split)
qed

text \<open>
  Client and boundary agree on the destination: for every ASCII host without brackets and every port,
  the HTTP/1.1 CONNECT the client sends is accepted as exactly that host and port, and so is its CONNECT
  stream on HTTP/2; and for a host without slash and percent sign so is its connect-udp request. What
  follows in the boundary is the policy decision on what the flow asked for.
\<close>

lemma requests_reach_policy:
  assumes "name \<noteq> []" and "is_ascii name" and "CHR ''['' \<notin> set name" and "CHR '']'' \<notin> set name"
    and "port \<noteq> 0" and "valid_host_header lib (join_host_port name (show_nat (unat port)))"
    and "header_get extra '':protocol'' = []" and "CHR ''/'' \<notin> set name" and "CHR ''%'' \<notin> set name"
  shows "connect_target env lib (as_head (tcp_request extra name port)) = Inr (name, show_nat (unat port))
    \<and> serve_h2 b s (as_h2_request (tcp_request extra name port))
        = open_tunnel b ''h2'' ''tcp'' name (show_nat (unat port)) s 200
    \<and> serve_h2 b s (as_h2_request (udp_request_h2 authority extra name port))
        = open_tunnel b ''h2'' ''udp'' name (show_nat (unat port)) s 200
    \<and> masque_target (rq_path (udp_request authority extra name port)) = Some (name, show_nat (unat port))"
proof -
  let ?hp = "join_host_port name (show_nat (unat port))"
  note split = split_hostport [OF assms(3,4), of "unat port"]
  have port: "parse_port (show_nat (unat port)) = Some port"
    by (rule parse_port_show) (use assms(5) in \<open>simp add: word_neq_0_conv\<close>)
  note masque = masque_target_path [OF assms(1,8,9), of port]
  have "same_authority env ?hp ?hp" by (rule same_authority_refl [OF split assms(2)])
  moreover have "header_get (hd_header (as_head (tcp_request extra name port))) ''Host'' = ?hp"
    by (simp add: as_head_def tcp_request_def header_get_def header_values_def)
  ultimately have "connect_target env lib (as_head (tcp_request extra name port))
      = Inr (name, show_nat (unat port))"
    using assms(1,6) split port by (simp add: connect_target_def as_head_def tcp_request_def)
  moreover have "serve_h2 b s (as_h2_request (tcp_request extra name port))
      = open_tunnel b ''h2'' ''tcp'' name (show_nat (unat port)) s 200"
    using assms(1,7) split port by (simp add: serve_h2_def as_h2_request_def tcp_request_def)
  moreover have "serve_h2 b s (as_h2_request (udp_request_h2 authority extra name port))
      = open_tunnel b ''h2'' ''udp'' name (show_nat (unat port)) s 200"
    using masque by (simp add: serve_h2_def as_h2_request_def udp_request_h2_def header_get_def
        header_values_def)
  ultimately show ?thesis using masque by (simp add: udp_request_def)
qed

text \<open>
  The final response is found whatever interim responses precede it: up to eight are skipped, the
  first final one (101 included) decides, and a ninth interim response is an error, so a boundary cannot
  hold a dial by sending them without end. The responses read are at most nine.
\<close>

lemma interim_responses_bounded:
  assumes "list_all (\<lambda>r. 100 \<le> rs_status r \<and> rs_status r < 200 \<and> rs_status r \<noteq> 101) interim"
  shows "read_final_response 0 (map Some interim @ Some final # rest) =
    (if length interim \<le> 8 then
       (if 100 \<le> rs_status final \<and> rs_status final < 200 \<and> rs_status final \<noteq> 101
        then read_final_response (length interim) (Some final # rest) else Inr final)
     else Inl TooManyInterim)"
proof -
  have "read_final_response k (map Some interim @ Some final # rest) =
    (if k + length interim \<le> 8 then
       (if 100 \<le> rs_status final \<and> rs_status final < 200 \<and> rs_status final \<noteq> 101
        then read_final_response (k + length interim) (Some final # rest) else Inr final)
     else Inl TooManyInterim)" if "k \<le> 8" for k
    using that assms
  proof (induction interim arbitrary: k)
    case (Cons r rs)
    then show ?case by (cases "k = 8") (auto simp: max_interim_responses_def)
  qed (auto simp: max_interim_responses_def)
  from this [of 0] show ?thesis by simp
qed

lemma interim_responses_bounded_witness:
  "dial_tcp [Some \<lparr>rs_status = 103, rs_text = [], rs_header = []\<rparr>, Some \<lparr>rs_status = 200, rs_text = [], rs_header = []\<rparr>]
     = Inr ()"
proof -
  let ?i = "[\<lparr>rs_status = 103, rs_text = [], rs_header = []\<rparr>]"
  have "list_all (\<lambda>r. 100 \<le> rs_status r \<and> rs_status r < 200 \<and> rs_status r \<noteq> 101) ?i" by simp
  from interim_responses_bounded [OF this, of "\<lparr>rs_status = 200, rs_text = [], rs_header = []\<rparr>" "[]"]
  show ?thesis by (simp add: dial_tcp_def)
qed

text \<open>The answer the boundary writes for a refusal, as the client's library hands it over.\<close>

definition deny_response :: "nat \<Rightarrow> string \<Rightarrow> string \<Rightarrow> http_response" where
  "deny_response status text reason =
     \<lparr>rs_status = status, rs_text = text, rs_header = [(''Proxy-Status'', [boundary_status reason])]\<rparr>"

text \<open>
  C24. A refusal arrives as what it was: whenever the boundary denies a request on either wire, the
  client's dial fails with the status and the reason token that the boundary also wrote to its audit
  record. No denial is taken for a tunnel.
\<close>

theorem denial_reaches_client:
  assumes "Deny st reason \<in> set (dispatch b lib h s) \<union> set (serve_h2 b s req)"
  shows "dial_tcp [Some (deny_response st text reason)] = Inl (DialError st text reason)
    \<and> dial_udp [Some (deny_response st text reason)] = Inl (DialError st text reason)
    \<and> dial_h2 (Some (deny_response st text reason)) = Inl (DialError st text reason)
    \<and> (\<exists>events rec. events \<in> {dispatch b lib h s, serve_h2 b s req}
         \<and> audits events = [rec] \<and> ar_reason rec = reason)"
proof -
  have mem: "(st, reason) \<in> set boundary_reasons"
    using assms dispatch_denials serve_h2_denials by blast
  note ok = boundary_reasons_tokens [OF mem]
  then have read: "proxy_status_reason (boundary_status reason) = reason"
    by (simp add: boundary_status_def proxy_status_reason_status)
  have acc: "\<exists>rec. audits es = [rec] \<and> ar_reason rec = reason" if "one_decision es" "Deny st reason \<in> set es" for es
  proof -
    from that(2) have d: "(st, reason) \<in> set (denials es)" by (simp add: denials_iff)
    with that(1) show ?thesis
      by (auto simp: one_decision_def split: list.splits if_splits)
  qed
  have "\<exists>events rec. events \<in> {dispatch b lib h s, serve_h2 b s req} \<and> audits events = [rec]
      \<and> ar_reason rec = reason"
    using assms acc [OF one_decision_dispatch] acc [OF one_decision_serve_h2] by (metis UnE insertCI)
  with ok read show ?thesis
    by (simp add: dial_tcp_def dial_udp_def dial_h2_def deny_response_def refusal_def header_get_def
        header_values_def)
qed

theorem denial_reaches_client_witness:
  "dial_h2 (Some (deny_response 405 ''405 Method Not Allowed'' ''connect-only''))
     = Inl (DialError 405 ''405 Method Not Allowed'' ''connect-only'')"
proof -
  have "Deny 405 ''connect-only'' \<in> set (dispatch sample_boundary sample_lib sample_head \<lparr>s_peer = [], s_id = []\<rparr>)
    \<union> set (serve_h2 sample_boundary \<lparr>s_peer = [], s_id = []\<rparr> (sample_request\<lparr>h2_method := ''GET''\<rparr>))"
    by (simp add: serve_h2_def sample_request_def refuse_def)
  from denial_reaches_client [OF this] show ?thesis by blast
qed

text \<open>
  The path of a connect-udp request is decoded twice, once by the URL parser and once by the
  template parser: a host with a percent sign, which the client escapes once, is refused as a malformed
  template, while the same host escaped twice is accepted.
\<close>

lemma percent_host_decoded_twice:
  "masque_target (rq_path (udp_request [] [] ''fe80::1%eth0'' 53)) = None
   \<and> masque_target (masque_path ''fe80::1%25eth0'' 53) = Some (''fe80::1%eth0'', ''53'')"
  by (simp add: udp_request_def masque_path_def masque_target_def trim_byte_def text_eval hex_value_def
      char_of_def bit_Suc_0_iff)

end
