(* ===== verification/Descriptor_Semantics.thy ===== *)
theory Descriptor_Semantics
  imports Authorize
begin

text \<open>
  What a policy descriptor means, read off the descriptor itself (spec/draft/policy.md and wire.md
  Sections 5.2 and 6), and the refinement: the loaded policy grants exactly what the descriptor says.
  The left-hand sides are the decisions of the loaded policy, the right-hand sides quantify over the
  rules as they are written in the file, in any order.
\<close>

section \<open>The meaning of one descriptor rule\<close>

definition dr_covers :: "descriptor_rule \<Rightarrow> u16 \<Rightarrow> string \<Rightarrow> bool" where
  "dr_covers dr number network =
     ((case parse_ports (dr_ports dr) of Inl _ \<Rightarrow> False | Inr ps \<Rightarrow> permits ps number)
      \<and> (case parse_transports (dr_transports dr) of Inl _ \<Rightarrow> False
         | Inr ts \<Rightarrow> has_transport ts network))"

definition dr_is_literal :: "descriptor_rule \<Rightarrow> bool" where
  "dr_is_literal dr = (dr_name dr = [] \<and> dr_suffix dr = [])"

text \<open>An \<open>ip\<close> rule contains one address, a \<open>cidr\<close> rule those of its prefix.\<close>

definition dr_contains :: "descriptor_rule \<Rightarrow> ip_addr \<Rightarrow> bool" where
  "dr_contains dr a =
     (if dr_ip dr \<noteq> [] then
        (case parse_addr (dr_ip dr) of None \<Rightarrow> False | Some x \<Rightarrow> a = unmap x)
      else (case parse_prefix (dr_cidr dr) of Inl _ \<Rightarrow> False | Inr pre \<Rightarrow> prefix_contains pre a))"

definition dr_literal_permits :: "descriptor_rule \<Rightarrow> ip_addr \<Rightarrow> u16 \<Rightarrow> string \<Rightarrow> bool" where
  "dr_literal_permits dr a number network =
     (dr_is_literal dr \<and> dr_contains dr a \<and> dr_covers dr number network)"

definition dr_matches_name :: "text_env \<Rightarrow> descriptor_rule \<Rightarrow> string \<Rightarrow> bool" where
  "dr_matches_name env dr name =
     (dr_name dr = ''*''
      \<or> dr_name dr \<noteq> [] \<and> dr_name dr \<noteq> ''*'' \<and> normalize_name env (dr_name dr) = Some name
      \<or> dr_name dr = [] \<and> dr_suffix dr \<noteq> []
        \<and> (case normalize_name env (dr_suffix dr) of None \<Rightarrow> False
           | Some suf \<Rightarrow> suffix_matches name
               \<lparr>sr_suffix = suf, sr_depth = dr_depth dr,
                sr_rule = sample_rule [] 1 (Prefix IPInvalid 0)\<rparr>))"

definition dr_name_permits :: "text_env \<Rightarrow> descriptor_rule \<Rightarrow> string \<Rightarrow> u16 \<Rightarrow> string \<Rightarrow> bool" where
  "dr_name_permits env dr name number network =
     (dr_matches_name env dr name \<and> dr_covers dr number network)"

definition dr_excepts :: "descriptor_rule \<Rightarrow> ip_addr \<Rightarrow> u16 \<Rightarrow> bool" where
  "dr_excepts dr a number =
     ((case parse_prefix (dr_cidr dr) of Inl _ \<Rightarrow> False | Inr pre \<Rightarrow> prefix_contains pre a)
      \<and> (case parse_ports (dr_ports dr) of Inl _ \<Rightarrow> False | Inr ps \<Rightarrow> permits ps number))"

section \<open>One rule at a time\<close>

definition name_covered :: "policy \<Rightarrow> string \<Rightarrow> u16 \<Rightarrow> string \<Rightarrow> bool" where
  "name_covered p name number network =
     list_ex (rule_covers number network) (name_candidates p name)"

lemma full_prefix_contains:
  assumes "dialable x" and "zone_of a = []"
  shows "prefix_contains (prefix_from x (int (bit_len x))) a \<longleftrightarrow> a = x"
  using assms
  by (cases x; cases a)
     (auto simp: prefix_contains_def prefix_from_def prefix_valid_def without_zone_def dialable_def)

lemma suffix_matches_rule: "suffix_matches name (s\<lparr>sr_rule := r\<rparr>) = suffix_matches name s"
  by (simp add: suffix_matches_def)

lemma rule_covers_dr:
  assumes "parse_ports (dr_ports dr) = Inr (rule_ports r)"
    and "parse_transports (dr_transports dr) = Inr (rule_transports r)"
  shows "rule_covers number network r = dr_covers dr number network"
  using assms by (simp add: rule_covers_def dr_covers_def)

lemma rule_covers_prefix [simp]:
  "rule_covers number network (r\<lparr>rule_prefix := x\<rparr>) = rule_covers number network r"
  by (simp add: rule_covers_def)

lemma store_rule_literal:
  assumes "store_rule env p dr r = Inr p'" and "zone_of a = []"
    and "rule_covers number network r = dr_covers dr number network"
  shows "literal_permits p' a number network
    \<longleftrightarrow> literal_permits p a number network \<or> dr_literal_permits dr a number network"
proof (cases "dr_is_literal dr \<and> dr_ip dr \<noteq> []")
  case True
  with assms(1) obtain x where x: "parse_addr (dr_ip dr) = Some x" "zone_of x = []"
    and p': "p' = p\<lparr>pol_literals := pol_literals p
      @ [r\<lparr>rule_prefix := prefix_from (unmap x) (int (bit_len (unmap x)))\<rparr>]\<rparr>"
    by (auto simp: store_rule_def dr_is_literal_def Let_def split: option.splits if_splits)
  note full = full_prefix_contains [OF dialable_unmap [OF parse_addr_valid [OF x(1)] x(2)] assms(2)]
  show ?thesis using True x assms(3)
    by (auto simp: p' literal_permits_def dr_literal_permits_def dr_contains_def full)
next
  case False
  with assms(1,3) show ?thesis
    by (auto simp: store_rule_def literal_permits_def dr_literal_permits_def dr_contains_def
        dr_is_literal_def split: option.splits sum.splits if_splits)
qed

lemma names_at_update: "names_at (p\<lparr>pol_names := (pol_names p)(n \<mapsto> rs)\<rparr>) m
    = (if m = n then rs else names_at p m)"
  by (simp add: names_at_def)

lemma store_rule_name:
  assumes "store_rule env p dr r = Inr p'"
    and "rule_covers number network r = dr_covers dr number network"
  shows "name_covered p' name number network
    \<longleftrightarrow> name_covered p name number network \<or> dr_name_permits env dr name number network"
proof -
  consider (wild) "dr_name dr = ''*''" | (name) "dr_name dr \<noteq> ''*''" "dr_name dr \<noteq> []"
    | (suf) "dr_name dr = []" "dr_suffix dr \<noteq> []"
    | (literal) "dr_name dr = []" "dr_suffix dr = []"
    by blast
  then show ?thesis
  proof cases
    case wild
    with assms show ?thesis
      by (auto simp: store_rule_def name_covered_def name_candidates_def names_at_def
          dr_name_permits_def dr_matches_name_def)
  next
    case name
    with assms(1) obtain n where n: "normalize_name env (dr_name dr) = Some n"
      "p' = p\<lparr>pol_names := (pol_names p)(n \<mapsto> names_at p n @ [r])\<rparr>"
      by (auto simp: store_rule_def split: option.splits)
    with name assms(2) show ?thesis
      by (auto simp: name_covered_def name_candidates_def names_at_update
          dr_name_permits_def dr_matches_name_def)
  next
    case suf
    with assms(1) obtain n where n: "normalize_name env (dr_suffix dr) = Some n"
      "p' = p\<lparr>pol_suffixes := pol_suffixes p
         @ [\<lparr>sr_suffix = n, sr_depth = dr_depth dr, sr_rule = r\<rparr>]\<rparr>"
      by (auto simp: store_rule_def split: option.splits)
    have "suffix_matches name \<lparr>sr_suffix = n, sr_depth = dr_depth dr, sr_rule = r\<rparr>
      = suffix_matches name \<lparr>sr_suffix = n, sr_depth = dr_depth dr,
          sr_rule = sample_rule [] 1 (Prefix IPInvalid 0)\<rparr>"
      by (simp add: suffix_matches_def)
    with suf n assms(2) show ?thesis
      by (auto simp: name_covered_def name_candidates_def names_at_def
          dr_name_permits_def dr_matches_name_def)
  next
    case literal
    with assms(1) obtain ls where "p' = p\<lparr>pol_literals := ls\<rparr>"
      by (auto simp: store_rule_def Let_def split: option.splits sum.splits if_splits)
    with literal show ?thesis
      by (simp add: name_covered_def name_candidates_def names_at_def dr_name_permits_def
          dr_matches_name_def)
  qed
qed

lemma store_rule_exceptions:
  "store_rule env p dr r = Inr p' \<Longrightarrow> pol_exceptions p' = pol_exceptions p"
  by (auto simp: store_rule_def Let_def split: if_splits option.splits sum.splits)

section \<open>All rules\<close>

lemma add_rules_literal:
  assumes "add_rules env i p drs = Inr p'" and "zone_of a = []"
  shows "literal_permits p' a number network \<longleftrightarrow> literal_permits p a number network
    \<or> list_ex (\<lambda>dr. dr_literal_permits dr a number network) drs"
  using assms(1)
proof (induction env i p drs rule: add_rules.induct)
  case (2 env i p dr rest)
  then obtain q where q: "add_rule env p dr = Inr q" "add_rules env (Suc i) q rest = Inr p'"
    by (auto split: sum.splits)
  then show ?case using "2.IH" [OF q]
    by (auto elim!: add_ruleE simp: store_rule_literal [OF _ assms(2) rule_covers_dr])
qed simp

lemma add_rules_name:
  assumes "add_rules env i p drs = Inr p'"
  shows "name_covered p' name number network \<longleftrightarrow> name_covered p name number network
    \<or> list_ex (\<lambda>dr. dr_name_permits env dr name number network) drs"
  using assms
proof (induction env i p drs rule: add_rules.induct)
  case (2 env i p dr rest)
  then obtain q where q: "add_rule env p dr = Inr q" "add_rules env (Suc i) q rest = Inr p'"
    by (auto split: sum.splits)
  then show ?case using "2.IH" [OF q]
    by (auto elim!: add_ruleE simp: store_rule_name [OF _ rule_covers_dr])
qed simp

lemma add_rules_exceptions:
  "add_rules env i p drs = Inr p' \<Longrightarrow> pol_exceptions p' = pol_exceptions p"
  by (induction env i p drs rule: add_rules.induct)
     (auto split: sum.splits elim!: add_ruleE dest: store_rule_exceptions)

lemma add_exceptions_excepted:
  assumes "add_exceptions i p drs = Inr p'"
  shows "excepted p' a number \<longleftrightarrow> excepted p a number \<or> list_ex (\<lambda>dr. dr_excepts dr a number) drs"
  using assms
proof (induction i p drs rule: add_exceptions.induct)
  case (2 i p dr rest)
  from "2.prems" obtain pre ports where *: "only_cidr_and_ports dr"
    "parse_prefix (dr_cidr dr) = Inr pre" "special_purpose pre" "parse_ports (dr_ports dr) = Inr ports"
    by (auto split: if_splits sum.splits)
  from "2.prems" * "2.IH" [OF _ * (2) _ * (4)] show ?case
    by (auto simp: excepted_def dr_excepts_def)
qed simp

lemma add_exceptions_frame:
  "add_exceptions i p drs = Inr p' \<Longrightarrow> \<exists>es. p' = p\<lparr>pol_exceptions := es\<rparr>"
proof (induction i p drs rule: add_exceptions.induct)
  case (1 i p)
  then show ?case by (intro exI [of _ "pol_exceptions p"]) simp
next
  case (2 i p dr rest)
  from "2.prems" obtain pre ports where *: "only_cidr_and_ports dr"
    "parse_prefix (dr_cidr dr) = Inr pre" "special_purpose pre" "parse_ports (dr_ports dr) = Inr ports"
    by (auto split: if_splits sum.splits)
  from "2.prems" * "2.IH" [OF _ * (2) _ * (4)] show ?case by auto
qed

lemma load_decodedE:
  assumes "load_decoded env d generation = Inr p"
  obtains p1 es where "add_rules env 0 (empty_policy d generation) (d_rules d) = Inr p1"
    and "add_exceptions 0 p1 (d_resolved d) = Inr p" and "p = p1\<lparr>pol_exceptions := es\<rparr>"
proof -
  from assms obtain p1 where p1: "add_rules env 0 (empty_policy d generation) (d_rules d) = Inr p1"
    "add_exceptions 0 p1 (d_resolved d) = Inr p"
    by (auto simp: load_decoded_def split: if_splits sum.splits)
  with add_exceptions_frame [OF p1(2)] that show ?thesis by blast
qed

lemma empty_policy_grants:
  "literal_permits (empty_policy d g) a n t = False"
  "name_covered (empty_policy d g) name n t = False"
  "excepted (empty_policy d g) a n = False"
  by (simp_all add: empty_policy_def literal_permits_def name_covered_def name_candidates_def
      names_at_def excepted_def)

lemma load_literal_permits:
  assumes "load_decoded env d generation = Inr p" and "zone_of a = []"
  shows "literal_permits p a number network
    \<longleftrightarrow> list_ex (\<lambda>dr. dr_literal_permits dr a number network) (d_rules d)"
  using assms
  by (elim load_decodedE)
     (auto simp: literal_permits_def [of "_\<lparr>pol_exceptions := _\<rparr>"] literal_permits_def [symmetric]
       add_rules_literal empty_policy_grants)

lemma load_name_covered:
  assumes "load_decoded env d generation = Inr p"
  shows "name_covered p name number network
    \<longleftrightarrow> list_ex (\<lambda>dr. dr_name_permits env dr name number network) (d_rules d)"
proof -
  have "name_covered (q\<lparr>pol_exceptions := es\<rparr>) name number network
      = name_covered q name number network" for q es
    by (simp add: name_covered_def name_candidates_def names_at_def)
  with assms show ?thesis
    by (elim load_decodedE) (auto simp: add_rules_name empty_policy_grants)
qed

lemma load_excepted:
  assumes "load_decoded env d generation = Inr p"
  shows "excepted p a number \<longleftrightarrow> list_ex (\<lambda>dr. dr_excepts dr a number) (d_resolved d)"
proof -
  from assms obtain p1 where p1: "add_rules env 0 (empty_policy d generation) (d_rules d) = Inr p1"
    "add_exceptions 0 p1 (d_resolved d) = Inr p"
    by (elim load_decodedE)
  from add_rules_exceptions [OF p1(1)] have "\<not> excepted p1 a number"
    by (simp add: excepted_def empty_policy_def)
  with add_exceptions_excepted [OF p1(2)] show ?thesis by simp
qed

section \<open>Properties\<close>

text \<open>
  The descriptor of the witnesses: an address rule, a host rule, a suffix rule and one exception.
\<close>

definition plain_rule :: descriptor_rule where
  "plain_rule =
     \<lparr>dr_id = [], dr_name = [], dr_suffix = [], dr_depth = 0, dr_ip = [], dr_cidr = [],
      dr_ports = Some [JNumber 443], dr_transports = None, dr_resolve = None\<rparr>"

definition sample_descriptor :: descriptor where
  "sample_descriptor =
     \<lparr>d_schema = 1, d_version = ''v1'', d_sandbox = ''box'', d_default = ''deny'',
      d_rules = [plain_rule\<lparr>dr_ip := ''203.0.113.10''\<rparr>, plain_rule\<lparr>dr_name := ''API.example.com.''\<rparr>,
                 plain_rule\<lparr>dr_suffix := ''example.org'', dr_depth := 1\<rparr>],
      d_resolved = [plain_rule\<lparr>dr_cidr := ''10.0.0.0/8''\<rparr>], d_udp = True, d_h2 = False\<rparr>"

definition sample_decode :: "string \<Rightarrow> (descriptor \<times> bool) option" where
  "sample_decode data = (if data = ''{}'' then Some (sample_descriptor, False) else None)"

lemmas load_eval =
  policy_eval load_descriptor_def load_decoded_def add_rule_def store_rule_def rule_kinds_def
  parse_ports_def port_text_def float_to_int64_def parse_port_range_def parse_transports_def
  parse_resolve_def parse_prefix_def only_cidr_and_ports_def empty_policy_def plain_rule_def
  sample_descriptor_def sample_decode_def special_purpose_def special_ranges_eq

lemma load_descriptorE:
  assumes "load_descriptor env decode data generation = Inr p"
  obtains d where "decode data = Some (d, False)" and "load_decoded env d generation = Inr p"
  using assms by (auto simp: load_descriptor_def split: option.splits if_splits)

lemma sample_load:
  "\<exists>p. load_descriptor ascii_env sample_decode ''{}'' ''g1'' = Inr p"
  by (simp add: load_eval)

text \<open>
  Every policy the loader returns is well formed: each port set is the full one or non-empty ranges
  from 1 upwards, each rule has a transport, names and suffixes are valid normalized hostnames, depths
  lie in 0 to 126, resolve lists are non-empty, belong to name rules and hold unmapped addresses
  without zone, prefixes are masked and unmapped, and every exception lies in a special-purpose range.
\<close>

lemma load_descriptor_wf:
  assumes "load_descriptor env decode data generation = Inr p"
  shows "policy_wf p"
  using assms by (auto elim!: load_descriptorE intro: load_decoded_wf)

text \<open>
  C21. An IP literal is allowed under a loaded descriptor exactly when some rule of the file, wherever it
  stands, is an \<open>ip\<close> or \<open>cidr\<close> rule that contains the unmapped address and whose ports and transports
  include the requested ones.
\<close>

theorem descriptor_literal_refinement:
  assumes "load_descriptor env decode data generation = Inr p" and "decode data = Some (d, m)"
    and "parse_port port = Some number" and "parse_addr (to_lower env host) = Some raw"
    and "zone_of raw = []"
  shows "allowed (authorize env lookup p host port network)
    \<longleftrightarrow> list_ex (\<lambda>dr. dr_literal_permits dr (unmap raw) number network) (d_rules d)"
proof -
  from assms(1,2) have load: "load_decoded env d generation = Inr p"
    by (auto elim!: load_descriptorE)
  have "zone_of (unmap raw) = []" using assms(5) by (simp add: zone_of_unmap)
  note lit = load_literal_permits [OF load this, of number network]
  have "v_err (authorize env lookup p host port network) = False"
    using assms(3,4) authorize_literal_shape
    by (auto simp: authorize_def authorize_literal_def Let_def split: option.split prod.split)
  with authorize_literal_reason [OF assms(3,4,5), of lookup p network] show ?thesis
    by (simp add: allowed_def lit)
qed

theorem descriptor_literal_refinement_witness:
  "\<exists>p. allowed (authorize ascii_env (\<lambda>_. None) p ''203.0.113.10'' ''443'' ''tcp'')
     \<and> \<not> allowed (authorize ascii_env (\<lambda>_. None) p ''203.0.113.11'' ''443'' ''tcp'')"
proof -
  obtain p where p: "load_descriptor ascii_env sample_decode ''{}'' ''g1'' = Inr p"
    using sample_load by blast
  have d: "sample_decode ''{}'' = Some (sample_descriptor, False)" by (simp add: sample_decode_def)
  have h: "parse_port ''443'' = Some 443"
    "parse_addr (to_lower ascii_env ''203.0.113.10'') = Some (IP4 0xCB00710A)"
    "parse_addr (to_lower ascii_env ''203.0.113.11'') = Some (IP4 0xCB00710B)"
    by (simp_all add: policy_eval)
  have z: "zone_of (IP4 w) = []" for w by simp
  show ?thesis
    using descriptor_literal_refinement [OF p d h(1,2) z, of "\<lambda>_. None" "''tcp''"]
      descriptor_literal_refinement [OF p d h(1,3) z, of "\<lambda>_. None" "''tcp''"]
    by (intro exI [of _ p])
       (simp add: load_eval dr_literal_permits_def dr_is_literal_def dr_contains_def dr_covers_def)
qed

lemma authorize_name_reason:
  "v_reason (authorize_name lookup p (new_verdict dest) name port number network) \<in>
     {[], ''resolved-address-denied''} \<longleftrightarrow> name_covered p name number network"
proof (cases "select_rule (name_candidates p name) number network")
  case (Pair sel reason)
  show ?thesis
  proof (cases sel)
    case None
    with Pair select_rule_NoneD [of "name_candidates p name" number network reason]
    have no: "\<not> name_covered p name number network" by (auto simp: name_covered_def list_ex_iff)
    from None Pair have "reason \<in> {[], ''transport-not-allowed'', ''port-not-allowed''}"
      by (auto simp: select_rule_eq split: option.splits if_splits)
    with None Pair no show ?thesis by (auto simp: authorize_name_def Let_def)
  next
    case (Some r)
    with Pair select_rule_SomeD [of "name_candidates p name" number network r reason]
    have "name_covered p name number network" by (auto simp: name_covered_def list_ex_iff)
    with Pair Some show ?thesis
      by (auto simp: authorize_name_def Let_def split: option.split)
  qed
qed

text \<open>
  C13. A hostname passes the name rules of a loaded descriptor exactly when some rule of the file, wherever
  it stands, matches the normalized name (by equal name, by the wildcard or by suffix and depth) with
  the requested port and transport; what remains is then only the check of the resolved addresses.
\<close>

theorem descriptor_name_refinement:
  assumes "load_descriptor env decode data generation = Inr p" and "decode data = Some (d, m)"
    and "parse_port port = Some number" and "parse_addr (to_lower env host) = None"
    and "normalize_name env host = Some name"
  shows "v_reason (authorize env lookup p host port network) \<in> {[], ''resolved-address-denied''}
    \<longleftrightarrow> list_ex (\<lambda>dr. dr_name_permits env dr name number network) (d_rules d)"
proof -
  from assms(1,2) have load: "load_decoded env d generation = Inr p"
    by (auto elim!: load_descriptorE)
  have "authorize env lookup p host port network
    = authorize_name lookup p (new_verdict (join_host_port host port)) name port number network"
    using assms(3,4,5) by (simp add: authorize_def)
  then show ?thesis by (simp only: authorize_name_reason load_name_covered [OF load])
qed

theorem descriptor_name_refinement_witness:
  "\<exists>p. v_reason (authorize ascii_env (\<lambda>_. None) p ''a.Example.ORG'' ''443'' ''tcp'')
       \<in> {[], ''resolved-address-denied''}
     \<and> v_reason (authorize ascii_env (\<lambda>_. None) p ''a.b.example.org'' ''443'' ''tcp'')
       \<notin> {[], ''resolved-address-denied''}"
proof -
  obtain p where p: "load_descriptor ascii_env sample_decode ''{}'' ''g1'' = Inr p"
    using sample_load by blast
  have d: "sample_decode ''{}'' = Some (sample_descriptor, False)" by (simp add: sample_decode_def)
  have h: "parse_port ''443'' = Some 443"
    "parse_addr (to_lower ascii_env ''a.Example.ORG'') = None"
    "normalize_name ascii_env ''a.Example.ORG'' = Some ''a.example.org''"
    "parse_addr (to_lower ascii_env ''a.b.example.org'') = None"
    "normalize_name ascii_env ''a.b.example.org'' = Some ''a.b.example.org''"
    by (simp_all add: policy_eval)
  note eval = load_eval dr_name_permits_def dr_matches_name_def dr_covers_def
  show ?thesis
    using descriptor_name_refinement [OF p d h(1,2,3), of "\<lambda>_. None" "''tcp''"]
      descriptor_name_refinement [OF p d h(1,4,5), of "\<lambda>_. None" "''tcp''"]
    by (intro exI [of _ p]) (simp add: eval)
qed

text \<open>
  C26. A \<open>resolved_addresses\<close> entry of a loaded descriptor never excepts an address outside the
  special-purpose table: the exceptions of the loaded policy are exactly those of the file, and each
  address one of them covers is special-purpose.
\<close>

theorem exceptions_stay_special:
  assumes "load_descriptor env decode data generation = Inr p" and "decode data = Some (d, m)"
    and "excepted p a number"
  shows "special_address a \<and> list_ex (\<lambda>dr. dr_excepts dr a number) (d_resolved d)"
proof -
  from assms(1,2) have load: "load_decoded env d generation = Inr p"
    by (auto elim!: load_descriptorE)
  from load_decoded_wf [OF load] have "list_all exception_wf (pol_exceptions p)"
    by (simp add: policy_wf_def)
  with assms(3) have "special_address a"
    by (auto simp: excepted_def list_ex_iff list_all_iff exception_wf_def
        intro: special_purpose_contains)
  with load_excepted [OF load] assms(3) show ?thesis by simp
qed

theorem exceptions_stay_special_witness:
  "\<exists>p. excepted p (IP4 0x0A000001) 443 \<and> special_address (IP4 0x0A000001)"
proof -
  obtain p where p: "load_descriptor ascii_env sample_decode ''{}'' ''g1'' = Inr p"
    using sample_load by blast
  have d: "sample_decode ''{}'' = Some (sample_descriptor, False)" by (simp add: sample_decode_def)
  from p d have "load_decoded ascii_env sample_descriptor ''g1'' = Inr p"
    by (auto elim!: load_descriptorE)
  then have "excepted p (IP4 0x0A000001) 443"
    unfolding load_excepted [OF \<open>load_decoded _ _ _ = _\<close>] by (simp add: load_eval dr_excepts_def)
  with exceptions_stay_special [OF p d this] show ?thesis by blast
qed

text \<open>
  Two rules for one name, of which only the second pins the addresses the name may resolve to, and a
  resolver that answers with a private address the pin does not list.
\<close>

definition pinned_rules :: descriptor where
  "pinned_rules = sample_descriptor
     \<lparr>d_rules := [plain_rule\<lparr>dr_name := ''db.example''\<rparr>,
        plain_rule\<lparr>dr_name := ''db.example'', dr_resolve := Some [''10.0.0.1'']\<rparr>],
      d_resolved := []\<rparr>"

definition answer_private :: resolver where
  "answer_private name = Some [IP4 0x0A000001]"

text \<open>
  The order of the rules of a file decides a request when one matching rule has a \<open>resolve\<close> list and
  another has none: with the pinning rule first the listed private address is dialed, with the two rules
  swapped the same request is denied, although a matching rule that allows it is present.
\<close>

lemma rule_order_matters:
  "\<exists>p q. load_decoded ascii_env pinned_rules g = Inr p
     \<and> load_decoded ascii_env (pinned_rules\<lparr>d_rules := rev (d_rules pinned_rules)\<rparr>) g = Inr q
     \<and> v_reason (authorize ascii_env answer_private p ''db.example'' ''443'' ''tcp'')
         = ''resolved-address-denied''
     \<and> allowed (authorize ascii_env answer_private q ''db.example'' ''443'' ''tcp'')"
  by (simp add: load_eval pinned_rules_def answer_private_def allowed_def public_address_def
      private4_def)

end
