(* ===== verification/End_To_End.thy ===== *)
theory End_To_End
  imports Guest_Flows Client Descriptor_Semantics
begin

text \<open>
  The whole path of a guest flow: its DNS query, the worker of the engine or the namespace proxy that
  dials it, the client's request on either wire, the boundary's decision and its answer, the client's
  reading of that answer. The boundary takes the place of the dialer of the flow workers.
\<close>

section \<open>One dial over one boundary\<close>

datatype wire = H1 | H2

text \<open>The head of the HTTP/1.1 upgrade: the request line carried_by the escaped path.\<close>

definition as_upgrade_head :: "http_request \<Rightarrow> http_head" where
  "as_upgrade_head r =
     \<lparr>hd_method = rq_method r, hd_target = rq_raw_path r, hd_major = 1, hd_minor = 1,
      hd_header = (''Host'', [rq_host r]) # rq_header r\<rparr>"

record link =
  lk_boundary :: boundary
  lk_lib :: http_lib
  lk_session :: session
  lk_wire :: wire
  lk_authority :: string
  lk_extra :: mime_header

definition link_events :: "link \<Rightarrow> string \<Rightarrow> string \<Rightarrow> u16 \<Rightarrow> event list" where
  "link_events l network host port =
     (let b = lk_boundary l; s = lk_session l;
          tcp = tcp_request (lk_extra l) host port in
      case lk_wire l of
        H1 \<Rightarrow>
          if network = ''udp'' then
            dispatch b (lk_lib l)
              (as_upgrade_head (udp_request (lk_authority l) (lk_extra l) host port)) s
          else dispatch b (lk_lib l) (as_head tcp) s
      | H2 \<Rightarrow>
          if network = ''udp'' then
            serve_h2 b s (as_h2_request (udp_request_h2 (lk_authority l) (lk_extra l) host port))
          else serve_h2 b s (as_h2_request tcp))"

text \<open>The response the boundary writes for what it decided; none when the connection just ends.\<close>

definition accept_response :: "nat \<Rightarrow> http_response" where
  "accept_response status =
     \<lparr>rs_status = status, rs_text = (if status = 101 then ''101 Switching Protocols'' else ''200 OK''),
      rs_header =
        (if status = 101
         then [(''Connection'', [''Upgrade'']), (''Upgrade'', [''connect-udp'']),
               (''Capsule-Protocol'', [''?1''])]
         else [])\<rparr>"

fun boundary_answer :: "event list \<Rightarrow> http_response option" where
  "boundary_answer [] = None"
| "boundary_answer (Accept status # es) = Some (accept_response status)"
| "boundary_answer (Deny status reason # es) = Some (deny_response status (show_nat status) reason)"
| "boundary_answer (e # es) = boundary_answer es"

definition link_dial :: "link \<Rightarrow> string \<Rightarrow> string \<Rightarrow> u16 \<Rightarrow> client_error + unit" where
  "link_dial l network host port =
     (let answer = boundary_answer (link_events l network host port) in
      case lk_wire l of
        H1 \<Rightarrow> if network = ''udp'' then dial_udp [answer] else dial_tcp [answer]
      | H2 \<Rightarrow> dial_h2 answer)"

definition link_dialer :: "link \<Rightarrow> string \<Rightarrow> string \<Rightarrow> u16 \<Rightarrow> unit option" where
  "link_dialer l network host port =
     (case link_dial l network host port of Inl _ \<Rightarrow> None | Inr c \<Rightarrow> Some c)"

section \<open>What the HTTP library does for a dial\<close>

definition plain_host :: "string \<Rightarrow> bool" where
  "plain_host host =
     (host \<noteq> [] \<and> list_all (\<lambda>c. byte_of c < 128 \<and> c \<notin> set ''[]/%'') host)"

text \<open>
  The documented behaviour a dial relies on: the host header check accepts the authority, the token
  test finds a token in a field that is just the token, and parsing an escaped path gives its segments
  decoded and no user.
\<close>

definition lib_reads :: "http_lib \<Rightarrow> string \<Rightarrow> u16 \<Rightarrow> bool" where
  "lib_reads lib host port =
     (valid_host_header lib (join_host_port host (show_nat (unat port)))
      \<and> header_values_contain_token lib [''connect-udp''] ''connect-udp''
      \<and> header_values_contain_token lib [''Upgrade''] ''Upgrade''
      \<and> parse_request_uri lib (masque_path (encode_host host) port)
          = Some (False, masque_path host port))"

definition plain_extra :: "mime_header \<Rightarrow> bool" where
  "plain_extra extra = list_all (\<lambda>kv. fst kv \<notin> {''Host'', '':protocol'', ''Connection'', ''Upgrade''}) extra"

definition open_link :: "link \<Rightarrow> string \<Rightarrow> u16 \<Rightarrow> bool" where
  "open_link l host port =
     (plain_host host \<and> port \<noteq> 0 \<and> lib_reads (lk_lib l) host port \<and> plain_extra (lk_extra l))"

text \<open>The request arrives as a decision on exactly the host, port and transport that were asked for.\<close>

definition accept_status :: "wire \<Rightarrow> string \<Rightarrow> nat" where
  "accept_status w network = (if w = H1 \<and> network = ''udp'' then 101 else 200)"

lemma plain_extra_none:
  "plain_extra extra \<Longrightarrow> header_get extra '':protocol'' = []"
  "plain_extra extra \<Longrightarrow> header_values extra ''Upgrade'' = []"
  by (auto simp: plain_extra_def header_get_def header_values_def list_all_iff map_of_eq_None_iff
      split: option.splits dest!: map_of_SomeD)

lemma plain_hostD:
  assumes "plain_host host"
  shows "host \<noteq> []" "is_ascii host" "CHR ''['' \<notin> set host" "CHR '']'' \<notin> set host"
    "CHR ''/'' \<notin> set host" "CHR ''%'' \<notin> set host"
  using assms by (auto simp: plain_host_def is_ascii_def list_all_iff)

lemma link_events_open:
  assumes "open_link l host port"
  shows "\<exists>w. link_events l network host port
    = open_tunnel (lk_boundary l) w (if network = ''udp'' then ''udp'' else ''tcp'') host
        (show_nat (unat port)) (lk_session l) (accept_status (lk_wire l) network)"
proof -
  let ?p = "show_nat (unat port)" and ?lib = "lk_lib l" and ?extra = "lk_extra l"
  have plain: "plain_host host" and port: "port \<noteq> 0" and reads: "lib_reads ?lib host port"
    and extra: "plain_extra ?extra"
    using assms by (simp_all add: open_link_def)
  note h = plain_hostD [OF plain]
  note split = split_hostport [OF h(3,4), of "unat port"]
  have number: "parse_port ?p = Some port"
    by (rule parse_port_show) (use port in \<open>simp add: word_neq_0_conv\<close>)
  note masque = masque_target_path [OF h(1,5,6), of port]
  note none = plain_extra_none [OF extra]
  have tcp1: "dispatch (lk_boundary l) ?lib (as_head (tcp_request ?extra host port)) (lk_session l)
      = open_tunnel (lk_boundary l) ''h1'' ''tcp'' host ?p (lk_session l) 200"
  proof -
    have "same_authority env (join_host_port host ?p) (join_host_port host ?p)" for env
      by (rule same_authority_refl [OF split h(2)])
    then show ?thesis
      using reads split number h(1)
      by (simp add: dispatch_def handle_connect_def connect_target_def as_head_def tcp_request_def
          lib_reads_def header_get_def header_values_def)
  qed
  have udp1: "dispatch (lk_boundary l) ?lib
        (as_upgrade_head (udp_request (lk_authority l) ?extra host port)) (lk_session l)
      = open_tunnel (lk_boundary l) ''h1'' ''udp'' host ?p (lk_session l) 101"
    using reads masque
    by (simp add: dispatch_def is_upgrade_def upgrade_target_def handle_connect_udp_def
        as_upgrade_head_def udp_request_def lib_reads_def header_values_def)
  have tcp2: "serve_h2 (lk_boundary l) (lk_session l) (as_h2_request (tcp_request ?extra host port))
      = open_tunnel (lk_boundary l) ''h2'' ''tcp'' host ?p (lk_session l) 200"
    using split number h(1) none(1) by (simp add: serve_h2_def as_h2_request_def tcp_request_def)
  have udp2: "serve_h2 (lk_boundary l) (lk_session l)
        (as_h2_request (udp_request_h2 (lk_authority l) ?extra host port))
      = open_tunnel (lk_boundary l) ''h2'' ''udp'' host ?p (lk_session l) 200"
    using masque
    by (simp add: serve_h2_def as_h2_request_def udp_request_h2_def header_get_def header_values_def)
  show ?thesis
    using tcp1 udp1 tcp2 udp2
    by (cases "lk_wire l") (auto simp: link_events_def Let_def accept_status_def)
qed

section \<open>What the client makes of the decision\<close>

text \<open>The remote address of the tunnel that the boundary opens for a request, if it opens one.\<close>

definition upstream_of :: "boundary \<Rightarrow> string \<Rightarrow> string \<Rightarrow> string \<Rightarrow> string option" where
  "upstream_of b network host port =
     (case bnd_current b of
        None \<Rightarrow> None
      | Some p \<Rightarrow>
          (let v = authorize (bnd_env b) (bnd_lookup b) p host port network in
           if network = ''udp'' \<and> \<not> pol_udp p \<or> \<not> allowed v then None
           else
             (case snd (dial_authorized (bnd_dial b) 0 network (v_addresses v) port NoConn) of
                Dialed remote \<Rightarrow> Some remote
              | _ \<Rightarrow> None)))"

lemma connect_upstream_upstream:
  "snd (connect_upstream b w network host port s) = upstream_of b network host port"
  by (auto simp: connect_upstream_def upstream_of_def Let_def allowed_def
      split: option.split dial_result.split prod.split)

lemma boundary_answer_skip:
  "list_all (\<lambda>e. case e of Audit _ \<Rightarrow> True | Dial _ _ \<Rightarrow> True | _ \<Rightarrow> False) es
    \<Longrightarrow> boundary_answer (es @ fs) = boundary_answer fs"
proof (induction es)
  case (Cons e es)
  then show ?case by (cases e) auto
qed simp

lemma open_tunnel_answer:
  "case upstream_of b network host port of
     Some remote \<Rightarrow> boundary_answer (open_tunnel b w network host port s status)
         = Some (accept_response status)
       \<and> tunnels (open_tunnel b w network host port s status) = [(network, remote)]
   | None \<Rightarrow> \<exists>st reason. (st, reason) \<in> set boundary_reasons
       \<and> Deny st reason \<in> set (open_tunnel b w network host port s status)
       \<and> boundary_answer (open_tunnel b w network host port s status)
           = Some (deny_response st (show_nat st) reason)"
proof -
  obtain events upstream where c: "connect_upstream b w network host port s = (events, upstream)"
    by fastforce
  then have u: "upstream_of b network host port = upstream"
    using connect_upstream_upstream [of b w network host port s] by simp
  have deny: "(st, reason) \<in> set boundary_reasons"
    if "Deny st reason \<in> set (open_tunnel b w network host port s status)" for st reason
    using open_tunnel_denials [OF that] .
  from c show ?thesis
  proof (cases rule: connect_upstream_cases)
    case (refused r st)
    with c u deny [of st "ar_reason r"] show ?thesis by (auto simp: open_tunnel_def audit_def)
  next
    case (dialed p v dials result)
    note eff = dial_authorized_effects [OF dialed(5)]
    then have skip: "list_all (\<lambda>e. case e of Audit _ \<Rightarrow> True | Dial _ _ \<Rightarrow> True | _ \<Rightarrow> False) dials"
      by (auto simp: list_all_iff)
    from dialed(6) show ?thesis
    proof (elim disjE exE conjE)
      fix r
      assume "upstream = None" "events = dials @ [audit b r, Deny 502 (ar_reason r)]"
      with c u deny [of 502 "ar_reason r"] skip show ?thesis
        by (auto simp: open_tunnel_def boundary_answer_skip audit_def)
    next
      fix remote r
      assume "upstream = Some remote" "events = dials @ [audit b r]"
      with c u eff skip show ?thesis
        by (simp add: open_tunnel_def boundary_answer_skip audit_def)
    qed
  qed
qed

lemma link_dial_result:
  assumes "open_link l host port" and "network \<in> {''tcp'', ''udp''}"
  shows "case upstream_of (lk_boundary l) network host (show_nat (unat port)) of
     Some remote \<Rightarrow> link_dial l network host port = Inr ()
       \<and> tunnels (link_events l network host port) = [(network, remote)]
   | None \<Rightarrow> \<exists>st reason. link_dial l network host port = Inl (DialError st (show_nat st) reason)
       \<and> Deny st reason \<in> set (link_events l network host port)"
proof -
  let ?b = "lk_boundary l" and ?p = "show_nat (unat port)" and ?es = "link_events l network host port"
  let ?status = "accept_status (lk_wire l) network"
  obtain w where w: "?es = open_tunnel ?b w network host ?p (lk_session l) ?status"
    using link_events_open [OF assms(1), of network] assms(2) by auto
  note answer = open_tunnel_answer [where b = ?b and network = network and host = host and port = ?p
      and w = w and s = "lk_session l" and status = ?status, folded w]
  show ?thesis
  proof (cases "upstream_of ?b network host ?p")
    case None
    with answer obtain st reason where d: "(st, reason) \<in> set boundary_reasons"
      "Deny st reason \<in> set ?es" "boundary_answer ?es = Some (deny_response st (show_nat st) reason)"
      by auto
    note ok = boundary_reasons_tokens [OF d(1)]
    then have "proxy_status_reason (boundary_status reason) = reason"
      by (simp add: boundary_status_def proxy_status_reason_status)
    with ok d None show ?thesis
      by (auto simp: link_dial_def Let_def dial_tcp_def dial_udp_def dial_h2_def deny_response_def
          refusal_def header_get_def header_values_def split: wire.split)
  next
    case (Some remote)
    with answer have "boundary_answer ?es = Some (accept_response ?status)"
      "tunnels ?es = [(network, remote)]" by simp_all
    with Some assms(2) show ?thesis
      by (cases "lk_wire l")
         (auto simp: link_dial_def Let_def dial_tcp_def dial_udp_def dial_h2_def accept_response_def
           accept_status_def header_get_def header_values_def)
  qed
qed

lemma link_dialer_iff:
  assumes "open_link l host port" and "network \<in> {''tcp'', ''udp''}"
  shows "link_dialer l network host port \<noteq> None
    \<longleftrightarrow> upstream_of (lk_boundary l) network host (show_nat (unat port)) \<noteq> None"
  using link_dial_result [OF assms] by (auto simp: link_dialer_def split: option.splits)

section \<open>The rule of the file behind a tunnel\<close>

definition dr_permits_host ::
  "text_env \<Rightarrow> descriptor_rule \<Rightarrow> string \<Rightarrow> u16 \<Rightarrow> string \<Rightarrow> bool" where
  "dr_permits_host env dr host number network =
     (case parse_addr (to_lower env host) of
        Some raw \<Rightarrow> dr_literal_permits dr (unmap raw) number network
      | None \<Rightarrow>
          (case normalize_name env host of
             None \<Rightarrow> False
           | Some name \<Rightarrow> dr_name_permits env dr name number network))"

lemma allowed_by_a_rule:
  assumes "load_descriptor env decode data generation = Inr p" and "decode data = Some (desc, m)"
    and "parse_port port = Some number"
    and "allowed (authorize env lookup p host port network)"
  shows "list_ex (\<lambda>dr. dr_permits_host env dr host number network) (d_rules desc)"
proof -
  from assms(1,2) have load: "load_decoded env desc generation = Inr p"
    by (auto elim!: load_descriptorE)
  have reason: "v_reason (authorize env lookup p host port network) = []"
    using assms(4) by (simp add: allowed_def)
  show ?thesis
  proof (cases "parse_addr (to_lower env host)")
    case (Some raw)
    have zone: "zone_of raw = []"
      using reason Some assms(3) by (auto simp: authorize_def authorize_literal_def Let_def split: if_splits)
    from authorize_literal_reason [OF assms(3) Some zone] reason
    have "literal_permits p (unmap raw) number network" by simp
    moreover have "zone_of (unmap raw) = []" using zone by (simp add: zone_of_unmap)
    ultimately show ?thesis
      using load_literal_permits [OF load, of "unmap raw" number network] Some
      by (simp add: dr_permits_host_def)
  next
    case None
    then obtain name where name: "normalize_name env host = Some name"
      using reason assms(3) by (auto simp: authorize_def Let_def split: option.splits)
    with None assms(3) reason
    have "v_reason (authorize_name lookup p (new_verdict (join_host_port host port)) name port number network) = []"
      by (simp add: authorize_def)
    then have "name_covered p name number network" using authorize_name_reason by blast
    with load_name_covered [OF load] None name show ?thesis
      by (simp add: dr_permits_host_def)
  qed
qed

lemma dial_authorized_remote:
  "snd (dial_authorized dial i network addresses port err) = Dialed remote
    \<Longrightarrow> err \<noteq> Dialed remote
    \<Longrightarrow> \<exists>k. \<exists>a \<in> set addresses. dial k network (join_host_port (show_addr a) port) = Some remote"
proof (induction addresses arbitrary: i err)
  case (Cons a as)
  show ?case
  proof (cases "dial i network (join_host_port (show_addr a) port)")
    case None
    with Cons.prems Cons.IH [of "Suc i" DialFailed] show ?thesis
      by (auto simp: Let_def split: prod.splits)
  next
    case (Some r)
    with Cons.prems have "r = remote" by (simp add: Let_def)
    with Some show ?thesis by auto
  qed
qed simp

lemma upstream_granted:
  assumes "upstream_of b network host port = Some remote"
  shows "\<exists>p k. \<exists>a \<in> set (v_addresses (authorize (bnd_env b) (bnd_lookup b) p host port network)).
    bnd_current b = Some p \<and> (network = ''udp'' \<longrightarrow> pol_udp p)
    \<and> allowed (authorize (bnd_env b) (bnd_lookup b) p host port network)
    \<and> bnd_dial b k network (join_host_port (show_addr a) port) = Some remote"
proof -
  from assms obtain p where p: "bnd_current b = Some p" "network = ''udp'' \<longrightarrow> pol_udp p"
    "allowed (authorize (bnd_env b) (bnd_lookup b) p host port network)"
    "snd (dial_authorized (bnd_dial b) 0 network
       (v_addresses (authorize (bnd_env b) (bnd_lookup b) p host port network)) port NoConn) = Dialed remote"
    by (auto simp: upstream_of_def Let_def split: option.splits if_splits dial_result.splits)
  from dial_authorized_remote [OF p(4)] p(1-3) show ?thesis by blast
qed

lemma store_rule_udp: "store_rule env p dr r = Inr p' \<Longrightarrow> pol_udp p' = pol_udp p"
  by (auto simp: store_rule_def Let_def split: if_splits option.splits sum.splits)

lemma add_rules_udp: "add_rules env i p drs = Inr p' \<Longrightarrow> pol_udp p' = pol_udp p"
  by (induction env i p drs rule: add_rules.induct)
     (auto split: sum.splits elim!: add_ruleE dest: store_rule_udp)

lemma load_descriptor_udp:
  assumes "load_descriptor env decode data generation = Inr p" and "decode data = Some (desc, m)"
  shows "pol_udp p = d_udp desc"
proof -
  from assms have "load_decoded env desc generation = Inr p" by (auto elim!: load_descriptorE)
  then show ?thesis
    by (elim load_decodedE) (auto dest!: add_rules_udp simp: empty_policy_def)
qed

section \<open>Synthetic addresses as hosts\<close>

definition host_char :: "char \<Rightarrow> bool" where
  "host_char c = (byte_of c < 128 \<and> c \<notin> set ''[]/%'')"

lemma plain_host_iff: "plain_host host \<longleftrightarrow> host \<noteq> [] \<and> list_all host_char host"
  by (simp add: plain_host_def host_char_def [abs_def])

lemma digit_host_char: "n < 16 \<Longrightarrow> host_char (digit_char n)"
proof -
  have "list_all (\<lambda>k. host_char (digit_char k)) [0..<16]" by code_simp
  then show "n < 16 \<Longrightarrow> ?thesis" by (simp add: list_all_iff)
qed

lemma show_nat_plain_chars: "list_all host_char (show_nat n)"
  by (induction n rule: show_nat.induct) (subst show_nat.simps, simp add: digit_host_char)

lemma show_hex_plain_chars: "list_all host_char (show_hex n)"
  by (induction n rule: show_hex.induct) (subst show_hex.simps, simp add: digit_host_char)

lemma punctuation_plain [simp]: "host_char (CHR ''.'')" "host_char (CHR '':'')"
  by (simp_all add: host_char_def byte_of_def)

lemma join_byte_chars:
  "P c \<Longrightarrow> \<forall>x \<in> set xs. list_all P x \<Longrightarrow> list_all P (join_byte c xs)"
  by (induction c xs rule: join_byte.induct) auto

lemma join_byte_two: "2 \<le> length xs \<Longrightarrow> join_byte c xs \<noteq> []"
  by (induction c xs rule: join_byte.induct) auto

lemma show_ipv6_plain: "plain_host (show_ipv6 w)"
proof -
  have "list_all host_char (colon_join gs)" for gs
    unfolding colon_join_def by (rule join_byte_chars) (auto simp: show_hex_plain_chars)
  moreover have "2 \<le> length gs \<Longrightarrow> colon_join gs \<noteq> []" for gs
    by (simp add: colon_join_def join_byte_two)
  ultimately show ?thesis
    by (auto simp: plain_host_iff show_ipv6_def Let_def split: prod.split)
qed

lemma show_ipv4_plain: "plain_host (show_ipv4 w)"
  by (simp add: plain_host_iff show_ipv4_def show_nat_plain_chars)

lemma assignable_plain_host:
  assumes "assignable v6 a"
  shows "plain_host (show_addr a)"
proof (cases a)
  case (IP6 w z)
  with assignable_in_family [OF assms] have v6: "v6" "z = []" by (auto simp: in_family_def)
  with IP6 assignable_v6_not_mapped [of a] assms have "\<not> is4in6 a" by (metis unmap_not_mapped)
  with IP6 v6 show ?thesis by (simp add: show_ipv6_plain show_zone_def)
qed (use assignable_in_family [OF assms] show_ipv4_plain in \<open>auto simp: in_family_def\<close>)

section \<open>Guest flows over the boundary\<close>

text \<open>The four kinds of worker that carry a flow, with what decides besides the dial.\<close>

datatype carrier = Engine_TCP bool | Netns_TCP | Engine_UDP | Netns_UDP addr_port

definition carrier_network :: "carrier \<Rightarrow> string" where
  "carrier_network c =
     (case c of Engine_TCP _ \<Rightarrow> ''tcp'' | Netns_TCP \<Rightarrow> ''tcp'' | Engine_UDP \<Rightarrow> ''udp'' | Netns_UDP _ \<Rightarrow> ''udp'')"

definition carried_by :: "link \<Rightarrow> carrier \<Rightarrow> virtual_dns \<Rightarrow> addr_port \<Rightarrow> bool" where
  "carried_by l c d destination =
     (let dialer = link_dialer l (carrier_network c) in
      case c of
        Engine_TCP endpoint_ok \<Rightarrow> RelayFlow \<in> set (fst (tcp_worker dialer endpoint_ok d destination))
      | Netns_TCP \<Rightarrow> fst (serve_tcp_guest dialer d (Some destination)) = GuestRelayed
      | Engine_UDP \<Rightarrow> RelayDatagrams \<in> set (fst (run_udp_worker dialer d (UdpWorker destination)))
      | Netns_UDP peer \<Rightarrow>
          RelayDatagrams
            \<in> set (fst (flow_worker dialer d \<lparr>fk_peer = peer, fk_destination = destination\<rparr>)))"

definition carrier_ready :: "carrier \<Rightarrow> addr_port \<Rightarrow> bool" where
  "carrier_ready c destination =
     (case c of
        Engine_TCP endpoint_ok \<Rightarrow> endpoint_ok
      | Netns_UDP _ \<Rightarrow> ap_port destination \<noteq> 53
      | _ \<Rightarrow> True)"

lemma carried_by_iff:
  "carried_by l c d destination \<longleftrightarrow> carrier_ready c destination
     \<and> fst (forward_dial (link_dialer l (carrier_network c)) d destination) \<noteq> None"
  by (cases c)
     (auto simp: carried_by_def Let_def carrier_ready_def tcp_worker_def serve_tcp_guest_def
       run_udp_worker_def flow_worker_def split: prod.splits option.splits if_splits)

lemma fst_forward_dial:
  "fst (forward_dial dialer d destination)
     = Option.bind (fst (target_host d destination)) (\<lambda>host. dialer host (ap_port destination))"
  by (simp add: forward_dial_def split: prod.split option.split)

lemma carrier_network_cases: "carrier_network c \<in> {''tcp'', ''udp''}"
  by (cases c) (simp_all add: carrier_network_def)

text \<open>While the name is remembered, the flow is dialed by it.\<close>

lemma remembered_flow_host:
  assumes "fst (reverse d a) = Some name" and "unmap a = a" and "a \<noteq> IPInvalid" and "port \<noteq> 0"
  shows "fst (target_host d \<lparr>ap_addr = a, ap_port = port\<rparr>) = Some name"
  using assms
  by (auto simp: target_host_def target_host_of_def addr_port_valid_def Let_def split: prod.split option.split)

lemma carried_granted:
  assumes "carried_by l c d \<lparr>ap_addr = a, ap_port = port\<rparr>"
    and "fst (target_host d \<lparr>ap_addr = a, ap_port = port\<rparr>) = Some host" and "open_link l host port"
  shows "\<exists>remote. upstream_of (lk_boundary l) (carrier_network c) host (show_nat (unat port)) = Some remote
    \<and> tunnels (link_events l (carrier_network c) host port) = [(carrier_network c, remote)]"
proof -
  from assms(1,2) have "link_dialer l (carrier_network c) host port \<noteq> None"
    by (simp add: carried_by_iff fst_forward_dial)
  with link_dialer_iff [OF assms(3) carrier_network_cases]
  obtain remote where "upstream_of (lk_boundary l) (carrier_network c) host (show_nat (unat port)) = Some remote"
    by auto
  with link_dial_result [OF assms(3) carrier_network_cases, of c] show ?thesis by simp
qed

section \<open>Properties\<close>

text \<open>
  C1. The guest is confined to the descriptor, end to end. Take any history of DNS services and flows, an
  answer to a query with an address, any further history, and a flow to that address which one of
  the four kinds of worker carried_by over a boundary that runs a loaded descriptor, on either wire.
  Then the boundary opened exactly one tunnel for it, for the queried name or, once that was forgotten,
  for the address itself; some rule of the file permits that host, port and transport; UDP is
  enabled in the file if it is UDP; and the tunnel leads to an address the authorization returned.
\<close>

theorem carried_flow_permitted_by_descriptor:
  assumes "(flow_activity env)\<^sup>*\<^sup>* new_virtual_dns d" and "answer_question env d q = (rcode, Some a, d1)"
    and "(flow_activity env)\<^sup>*\<^sup>* d1 d2"
    and "load_descriptor (bnd_env (lk_boundary l)) decode data generation = Inr p"
    and "decode data = Some (desc, m)" and "bnd_current (lk_boundary l) = Some p"
    and "plain_host (canonical env (q_name q))" and "port \<noteq> 0" and "plain_extra (lk_extra l)"
    and "lib_reads (lk_lib l) (canonical env (q_name q)) port" and "lib_reads (lk_lib l) (show_addr a) port"
    and "carried_by l c d2 \<lparr>ap_addr = a, ap_port = port\<rparr>"
  shows "\<exists>host x remote k. host \<in> {canonical env (q_name q), show_addr a}
    \<and> tunnels (link_events l (carrier_network c) host port) = [(carrier_network c, remote)]
    \<and> list_ex (\<lambda>dr. dr_permits_host (bnd_env (lk_boundary l)) dr host port (carrier_network c)) (d_rules desc)
    \<and> (carrier_network c = ''udp'' \<longrightarrow> d_udp desc)
    \<and> x \<in> set (v_addresses (authorize (bnd_env (lk_boundary l)) (bnd_lookup (lk_boundary l)) p host
            (show_nat (unat port)) (carrier_network c)))
    \<and> bnd_dial (lk_boundary l) k (carrier_network c) (join_host_port (show_addr x) (show_nat (unat port)))
        = Some remote"
proof -
  let ?b = "lk_boundary l" and ?n = "carrier_network c" and ?p = "show_nat (unat port)"
  obtain host where host: "fst (target_host d2 \<lparr>ap_addr = a, ap_port = port\<rparr>) = Some host"
    "host \<in> {canonical env (q_name q), show_addr a}"
    using answered_flow_host [OF assms(1-3,8)] by auto
  obtain v6 where "resolve env d (q_name q) v6 = (Inr a, d1)" using answered_by_resolve [OF assms(2)] by blast
  then have "assignable v6 a"
    using resolve_issued(1) dns.later_valid [OF flow_activities_later [OF assms(1)] new_virtual_dns_wf] by blast
  then have "open_link l host port"
    using host(2) assms(7-11) assignable_plain_host by (auto simp: open_link_def)
  from carried_granted [OF assms(12) host(1) this] obtain remote where
    up: "upstream_of ?b ?n host ?p = Some remote" and tun: "tunnels (link_events l ?n host port) = [(?n, remote)]"
    by blast
  have number: "parse_port ?p = Some port"
    by (rule parse_port_show) (use assms(8) in \<open>simp add: word_neq_0_conv\<close>)
  from upstream_granted [OF up] assms(6) obtain k x where
    x: "x \<in> set (v_addresses (authorize (bnd_env ?b) (bnd_lookup ?b) p host ?p ?n))"
    and udp: "?n = ''udp'' \<longrightarrow> pol_udp p"
    and ok: "allowed (authorize (bnd_env ?b) (bnd_lookup ?b) p host ?p ?n)"
    and dial: "bnd_dial ?b k ?n (join_host_port (show_addr x) ?p) = Some remote" by auto
  from allowed_by_a_rule [OF assms(4,5) number ok] load_descriptor_udp [OF assms(4,5)] host(2) tun x udp dial
  show ?thesis by blast
qed

text \<open>A boundary with the sample descriptor, a link to it and a guest's first query, for the witnesses.\<close>

definition sample_tunnel_link :: link where
  "sample_tunnel_link =
     \<lparr>lk_boundary = sample_boundary\<lparr>bnd_current :=
          (case load_descriptor ascii_env sample_decode ''{}'' ''g1'' of Inl _ \<Rightarrow> None | Inr p \<Rightarrow> Some p)\<rparr>,
      lk_lib = sample_lib, lk_session = \<lparr>s_peer = [], s_id = ''1''\<rparr>, lk_wire = H1, lk_authority = [],
      lk_extra = []\<rparr>"

definition sample_query :: dns_question where
  "sample_query = \<lparr>q_name = ''API.example.com.'', q_type = type_a, q_class = class_inet\<rparr>"

lemma sample_query_name: "canonical ascii_env (q_name sample_query) = ''api.example.com''"
  by (simp only: canonical_def) (simp add: sample_query_def text_eval)

lemma sample_query_answer:
  "\<exists>d. answer_question ascii_env new_virtual_dns sample_query = (rcode_success, Some (IP4 0x64400001), d)
     \<and> fst (reverse d (IP4 0x64400001)) = Some ''api.example.com''"
proof -
  have "fst (resolve ascii_env new_virtual_dns (q_name sample_query) False) = Inr (IP4 0x64400001)"
    by (simp add: sample_query_def dns_eval)
  then obtain d where r: "resolve ascii_env new_virtual_dns (q_name sample_query) False = (Inr (IP4 0x64400001), d)"
    by (metis prod.collapse)
  then have "answer_question ascii_env new_virtual_dns sample_query = (rcode_success, Some (IP4 0x64400001), d)"
    by (simp add: answer_question_def resolve4_def sample_query_def)
  with resolve_issued(3) [OF new_virtual_dns_wf r] sample_query_name show ?thesis by auto
qed

lemma sample_lib_reads: "encode_host host = host \<Longrightarrow> lib_reads sample_lib host port"
  by (simp add: lib_reads_def sample_lib_def)

lemma sample_hosts:
  "encode_host ''api.example.com'' = ''api.example.com''" "plain_host ''api.example.com''"
  "encode_host (show_addr (IP4 0x64400001)) = show_addr (IP4 0x64400001)"
  by (simp_all add: encode_host_def path_escape_def path_segment_safe_def plain_host_def byte_of_def
      net_eval show_eval)

lemma sample_open_link: "open_link sample_tunnel_link ''api.example.com'' 443"
  using sample_lib_reads [OF sample_hosts(1)] sample_hosts(2)
  by (simp add: open_link_def sample_tunnel_link_def plain_extra_def)

lemma sample_port: "show_nat (unat (443 :: u16)) = ''443''"
  by (simp add: text_eval)

lemma sample_upstream:
  "upstream_of (lk_boundary sample_tunnel_link) ''tcp'' ''api.example.com'' (show_nat (unat (443 :: u16)))
     = Some ''8.8.8.8:443''"
  unfolding sample_port
  by (simp add: upstream_of_def sample_tunnel_link_def load_eval sample_boundary_def public_IP4
      special_address_IP4 allowed_def Let_def)

lemma sample_carried:
  assumes "fst (reverse d (IP4 0x64400001)) = Some ''api.example.com''"
  shows "carried_by sample_tunnel_link Netns_TCP d \<lparr>ap_addr = IP4 0x64400001, ap_port = 443\<rparr>"
proof -
  have "fst (target_host d \<lparr>ap_addr = IP4 0x64400001, ap_port = 443\<rparr>) = Some ''api.example.com''"
    by (rule remembered_flow_host [OF assms]) simp_all
  moreover have "link_dialer sample_tunnel_link ''tcp'' ''api.example.com'' 443 \<noteq> None"
    using link_dialer_iff [OF sample_open_link, of "''tcp''"] sample_upstream by simp
  ultimately show ?thesis
    by (simp add: carried_by_iff carrier_ready_def fst_forward_dial carrier_network_def)
qed

theorem carried_flow_permitted_by_descriptor_witness:
  "\<exists>host remote. tunnels (link_events sample_tunnel_link ''tcp'' host 443) = [(''tcp'', remote)]
     \<and> list_ex (\<lambda>dr. dr_permits_host ascii_env dr host 443 ''tcp'') (d_rules sample_descriptor)"
proof -
  obtain d where q: "answer_question ascii_env new_virtual_dns sample_query
      = (rcode_success, Some (IP4 0x64400001), d)" "fst (reverse d (IP4 0x64400001)) = Some ''api.example.com''"
    using sample_query_answer by blast
  obtain p where p: "load_descriptor ascii_env sample_decode ''{}'' ''g1'' = Inr p"
    using sample_load by blast
  have env: "bnd_env (lk_boundary sample_tunnel_link) = ascii_env"
    and cur: "bnd_current (lk_boundary sample_tunnel_link) = Some p"
    and lib: "lk_lib sample_tunnel_link = sample_lib" "plain_extra (lk_extra sample_tunnel_link)"
    using p by (simp_all add: sample_tunnel_link_def sample_boundary_def plain_extra_def)
  have d: "sample_decode ''{}'' = Some (sample_descriptor, False)" by (simp add: sample_decode_def)
  have "plain_host (canonical ascii_env (q_name sample_query))"
    "lib_reads (lk_lib sample_tunnel_link) (canonical ascii_env (q_name sample_query)) 443"
    "lib_reads (lk_lib sample_tunnel_link) (show_addr (IP4 0x64400001)) 443"
    unfolding sample_query_name lib using sample_hosts sample_lib_reads by simp_all
  note h = this
  have "(443 :: u16) \<noteq> 0" by simp
  from carried_flow_permitted_by_descriptor [OF rtranclp.rtrancl_refl q(1) rtranclp.rtrancl_refl, of sample_tunnel_link,
      unfolded env, OF p d cur h(1) this lib(2) h(2,3) sample_carried [OF q(2)]]
  show ?thesis unfolding carrier_network_def by auto
qed

text \<open>
  C2. And what the descriptor permits works: while the name of an answered address is remembered, a flow
  to it that a worker is ready for is carried exactly when the boundary's policy allows the name for the
  port and transport and one of the authorized addresses can be reached, on either wire.
\<close>

theorem remembered_flow_carried_iff_granted:
  assumes "(flow_activity env)\<^sup>*\<^sup>* new_virtual_dns d" and "answer_question env d q = (rcode, Some a, d1)"
    and "fst (reverse d2 a) = Some (canonical env (q_name q))"
    and "open_link l (canonical env (q_name q)) port"
    and "carrier_ready c \<lparr>ap_addr = a, ap_port = port\<rparr>"
  shows "carried_by l c d2 \<lparr>ap_addr = a, ap_port = port\<rparr>
    \<longleftrightarrow> upstream_of (lk_boundary l) (carrier_network c) (canonical env (q_name q)) (show_nat (unat port)) \<noteq> None"
proof -
  obtain v6 where "resolve env d (q_name q) v6 = (Inr a, d1)" using answered_by_resolve [OF assms(2)] by blast
  then have "assignable v6 a"
    using resolve_issued(1) dns.later_valid [OF flow_activities_later [OF assms(1)] new_virtual_dns_wf] by blast
  then have a: "unmap a = a" "a \<noteq> IPInvalid" using assignable_not_invalid by auto
  have "port \<noteq> 0" using assms(4) by (simp add: open_link_def)
  from remembered_flow_host [OF assms(3) a this] link_dialer_iff [OF assms(4) carrier_network_cases] assms(5)
  show ?thesis by (simp add: carried_by_iff fst_forward_dial)
qed

theorem remembered_flow_carried_iff_granted_witness:
  "\<exists>d. carried_by sample_tunnel_link Netns_TCP d \<lparr>ap_addr = IP4 0x64400001, ap_port = 443\<rparr>"
proof -
  obtain d where q: "answer_question ascii_env new_virtual_dns sample_query
      = (rcode_success, Some (IP4 0x64400001), d)" "fst (reverse d (IP4 0x64400001)) = Some ''api.example.com''"
    using sample_query_answer by blast
  have "carrier_ready Netns_TCP \<lparr>ap_addr = IP4 0x64400001, ap_port = 443\<rparr>" by (simp add: carrier_ready_def)
  from remembered_flow_carried_iff_granted [OF rtranclp.rtrancl_refl q(1), unfolded sample_query_name,
      OF q(2) sample_open_link this] sample_upstream
  show ?thesis by (auto simp: carrier_network_def)
qed

end
