(* ===== verification/Refinement.thy ===== *)
theory Refinement
  imports Prelude
begin

text \<open>
  What it means that a component implements an abstract machine: both take operations one at a time,
  an abstraction function reads the component's state as the machine's, and an invariant says which
  states the component can be in. One law per operation gives that every run of operations has the
  outputs the machine gives, and leaves the state the machine would be in.
\<close>

fun run_machine :: "('op \<Rightarrow> 's \<Rightarrow> 'o \<times> 's) \<Rightarrow> 'op list \<Rightarrow> 's \<Rightarrow> 'o list \<times> 's" where
  "run_machine step [] s = ([], s)"
| "run_machine step (x # xs) s =
     (case step x s of (y, s1) \<Rightarrow> case run_machine step xs s1 of (ys, s2) \<Rightarrow> (y # ys, s2))"

lemma length_run_machine: "length (fst (run_machine step xs s)) = length xs"
  by (induction xs arbitrary: s) (simp_all split: prod.split, metis fst_conv)

lemma run_machine_append:
  "run_machine step (xs @ ys) s =
     (case run_machine step xs s of (us, s1) \<Rightarrow> case run_machine step ys s1 of (vs, s2) \<Rightarrow> (us @ vs, s2))"
  by (induction xs arbitrary: s) (simp_all split: prod.split)

lemma snd_run_machine_fold: "snd (run_machine step xs s) = fold (\<lambda>x t. snd (step x t)) xs s"
  by (induction xs arbitrary: s) (simp_all split: prod.split, metis snd_conv)

locale refinement =
  fixes conc :: "'op \<Rightarrow> 's \<Rightarrow> 'o \<times> 's"
    and spec :: "'op \<Rightarrow> 'a \<Rightarrow> 'o \<times> 'a"
    and abstraction :: "'s \<Rightarrow> 'a"
    and good :: "'s \<Rightarrow> bool"
  assumes good_kept: "good s \<Longrightarrow> good (snd (conc x s))"
    and simulates: "good s \<Longrightarrow> spec x (abstraction s) = map_prod id abstraction (conc x s)"
begin

lemma run_good: "good s \<Longrightarrow> good (snd (run_machine conc xs s))"
proof (induction xs arbitrary: s)
  case (Cons x xs)
  from Cons.IH [OF good_kept [OF Cons.prems, of x]] show ?case
    by (simp split: prod.split) (metis snd_conv)
qed simp

lemma run_simulates:
  "good s \<Longrightarrow> run_machine spec xs (abstraction s) = map_prod id abstraction (run_machine conc xs s)"
proof (induction xs arbitrary: s)
  case (Cons x xs)
  obtain y s1 where step: "conc x s = (y, s1)" by fastforce
  with good_kept [OF Cons.prems, of x] have "good s1" by simp
  from Cons.IH [OF this] simulates [OF Cons.prems, of x] step show ?case
    by (cases "run_machine conc xs s1") simp
qed simp

lemma same_outputs: "good s \<Longrightarrow> fst (run_machine conc xs s) = fst (run_machine spec xs (abstraction s))"
  by (simp add: run_simulates)

end

end
