(* ===== verification/DNS_Refinement.thy ===== *)
theory DNS_Refinement
  imports Refinement Virtual_DNS
begin

text \<open>
  What the resolver of sdk/pkg/tun2connect/dns.go promises, stated without its data structures: one
  recency list of names per family, the most recently used first and cut at its bound, and a counter
  from which the addresses are numbered. The maps, the linked list and the prefix tests of the code
  are refined to it.
\<close>

section \<open>The abstract resolver\<close>

record lru =
  lru_entries :: "(string \<times> ip_addr) list"
  lru_issued :: nat

type_synonym name_cache = "bool \<Rightarrow> lru"

text \<open>The number of addresses a pool can hand out, and the address with a given number.\<close>

definition pool_size :: "bool \<Rightarrow> nat" where
  "pool_size v6 = (if v6 then 2 ^ 64 - 257 else 2 ^ 22 - 257)"

definition nth_address :: "bool \<Rightarrow> nat \<Rightarrow> ip_addr" where
  "nth_address v6 n =
     (if v6 then IP6 (0x01000000000000000000000000000000 + of_nat n) []
      else IP4 (0x64400000 + of_nat n))"

definition use_entry :: "string \<times> ip_addr \<Rightarrow> lru \<Rightarrow> lru" where
  "use_entry e l = l\<lparr>lru_entries := e # removeAll e (lru_entries l)\<rparr>"

definition add_entry :: "string \<Rightarrow> ip_addr \<Rightarrow> lru \<Rightarrow> lru" where
  "add_entry name a l =
     \<lparr>lru_entries = take max_synthetic_names ((name, a) # lru_entries l),
      lru_issued = Suc (lru_issued l)\<rparr>"

definition cache_lookup ::
  "text_env \<Rightarrow> string \<Rightarrow> bool \<Rightarrow> name_cache \<Rightarrow> (resolve_error + ip_addr) \<times> name_cache" where
  "cache_lookup env raw v6 c =
     (let name = canonical env raw; a = nth_address v6 (Suc (lru_issued (c v6))) in
      if name = [] then (Inl EmptyName, c)
      else
        (case map_of (lru_entries (c v6)) name of
           Some known \<Rightarrow> (Inr known, c(v6 := use_entry (name, known) (c v6)))
         | None \<Rightarrow>
             if pool_size v6 \<le> lru_issued (c v6) then (Inl PoolExhausted, c)
             else (Inr a, c(v6 := add_entry name a (c v6)))))"

definition cache_owner :: "ip_addr \<Rightarrow> name_cache \<Rightarrow> (string \<times> ip_addr) option" where
  "cache_owner a c = find (\<lambda>e. snd e = unmap a) (lru_entries (c False) @ lru_entries (c True))"

definition cache_recover :: "ip_addr \<Rightarrow> name_cache \<Rightarrow> string option \<times> name_cache" where
  "cache_recover a c =
     (case cache_owner a c of
        None \<Rightarrow> (None, c)
      | Some e \<Rightarrow>
          (Some (fst e), c(is6 (snd e) := use_entry e (c (is6 (snd e))))))"

definition empty_cache :: name_cache where
  "empty_cache = (\<lambda>_. \<lparr>lru_entries = [], lru_issued = 0\<rparr>)"

section \<open>Both machines over the same operations\<close>

datatype dns_answer = Looked_up "resolve_error + ip_addr" | Recovered "string option"

definition dns_conc :: "text_env \<Rightarrow> dns_op \<Rightarrow> virtual_dns \<Rightarrow> dns_answer \<times> virtual_dns" where
  "dns_conc env x d =
     (case x of
        Lookup name v6 \<Rightarrow> map_prod Looked_up id (resolve env d name v6)
      | Recover a \<Rightarrow> map_prod Recovered id (reverse d a))"

definition dns_spec :: "text_env \<Rightarrow> dns_op \<Rightarrow> name_cache \<Rightarrow> dns_answer \<times> name_cache" where
  "dns_spec env x c =
     (case x of
        Lookup name v6 \<Rightarrow> map_prod Looked_up id (cache_lookup env name v6 c)
      | Recover a \<Rightarrow> map_prod Recovered id (cache_recover a c))"

section \<open>Numbering the pools\<close>

definition pool_base :: "bool \<Rightarrow> nat" where
  "pool_base v6 = addr_index (prefix_ip (pool_of v6))"

lemma pool_base_values: "pool_base False = 0x64400000" "pool_base True = 0x01000000000000000000000000000000"
  by (simp_all add: pool_base_def pool_of_def pool_values addr_index_def)

lemma top_bits_iff: "drop_bit k w = c \<longleftrightarrow> unat w div 2 ^ k = unat c"
  by (simp add: word_unat_eq_iff unat_drop_bit)

lemma div_eq_iff_bounds: "0 < (m::nat) \<Longrightarrow> n div m = q \<longleftrightarrow> m * q \<le> n \<and> n < m * Suc q"
  using div_nat_eqI [of m q n] dividend_less_times_div [of m n] times_div_less_eq_dividend [of m n]
  by auto

text \<open>An address of the family is handed out exactly when its number lies in the pool.\<close>

lemma assignable_by_number:
  assumes "in_family v6 a" and "pool_base v6 < addr_index a"
    and "addr_index a \<le> pool_base v6 + pool_size v6 + 1"
  shows "assignable v6 a \<longleftrightarrow> addr_index a \<le> pool_base v6 + pool_size v6"
  using assms
  by (cases a; cases v6)
     (auto simp: assignable_def pool_of_def reserved_of_def pool_values prefix_contains_def prefix_valid_def
       in_family_def addr_index_def pool_base_values pool_size_def top_bits_iff div_eq_iff_bounds)

lemma in_family_nth_address:
  assumes "in_family v6 a" and "addr_index a = pool_base v6 + n" and "n \<le> pool_size v6"
  shows "a = nth_address v6 n"
proof (rule addr_index_inj [OF assms(1)])
  show "in_family v6 (nth_address v6 n)" by (simp add: nth_address_def in_family_def)
  have "addr_index (nth_address v6 n) = pool_base v6 + n"
    using assms(3)
    by (cases v6) (simp_all add: nth_address_def addr_index_def pool_base_values pool_size_def
        unat_word_ariths take_bit_nat_eq_self unat_of_nat)
  with assms(2) show "addr_index a = addr_index (nth_address v6 n)" by simp
qed

section \<open>Abstraction\<close>

definition entry_of :: "binding \<Rightarrow> string \<times> ip_addr" where
  "entry_of b = (b_name b, b_addr b)"

definition abs_family :: "bool \<Rightarrow> family \<Rightarrow> lru" where
  "abs_family v6 f =
     \<lparr>lru_entries = map entry_of (fam_order f), lru_issued = addr_index (fam_last f) - pool_base v6\<rparr>"

definition abs_dns :: "virtual_dns \<Rightarrow> name_cache" where
  "abs_dns d = (\<lambda>v6. abs_family v6 (family_of v6 d))"

definition numbered :: "bool \<Rightarrow> family \<Rightarrow> bool" where
  "numbered v6 f =
     (pool_base v6 \<le> addr_index (fam_last f)
      \<and> addr_index (fam_last f) \<le> pool_base v6 + pool_size v6)"

definition dns_good :: "virtual_dns \<Rightarrow> bool" where
  "dns_good d = (dns_wf d \<and> numbered False (dns_v4 d) \<and> numbered True (dns_v6 d))"

lemma dns_good_iff: "dns_good d \<longleftrightarrow> dns_wf d \<and> (\<forall>v6. numbered v6 (family_of v6 d))"
  by (auto simp: dns_good_def family_of_def all_bool_eq)

lemma entry_of_inj: "entry_of b = entry_of c \<longleftrightarrow> b = c"
  by (cases b; cases c) (simp add: entry_of_def)

lemma entry_of_simps [simp]: "fst (entry_of b) = b_name b" "snd (entry_of b) = b_addr b"
  by (simp_all add: entry_of_def)

lemma unat_eq_zero_next: "w + 1 = (0 :: 'a::len word) \<Longrightarrow> unat w = 2 ^ LENGTH('a) - 1"
  by (simp add: eq_neg_iff_add_eq_0 [symmetric] unsigned_minus_1_eq_mask mask_eq_exp_minus_1)

lemma next_addr_numbered:
  assumes "family_wf v6 f" and "numbered v6 f"
  defines "n \<equiv> addr_index (fam_last f) - pool_base v6"
  shows "assignable v6 (next_addr (fam_last f)) \<longleftrightarrow> n < pool_size v6"
    and "n < pool_size v6 \<Longrightarrow> next_addr (fam_last f) = nth_address v6 (Suc n)"
proof -
  have fam: "in_family v6 (fam_last f)" using assms(1) by (simp add: family_wf_def)
  have "next_addr (fam_last f) \<noteq> IPInvalid"
    using fam assms(2)
    by (cases "fam_last f"; cases v6)
       (auto simp: in_family_def numbered_def addr_index_def pool_base_values pool_size_def
          dest!: unat_eq_zero_next)
  then have nx: "in_family v6 (next_addr (fam_last f))"
    "addr_index (next_addr (fam_last f)) = pool_base v6 + Suc n"
    using next_addr_index [OF fam] assms(2) by (auto simp: numbered_def n_def)
  have "n \<le> pool_size v6" using assms(2) by (auto simp: numbered_def n_def)
  with assignable_by_number [OF nx(1)] nx(2)
  show "assignable v6 (next_addr (fam_last f)) \<longleftrightarrow> n < pool_size v6" by auto
  show "n < pool_size v6 \<Longrightarrow> next_addr (fam_last f) = nth_address v6 (Suc n)"
    using in_family_nth_address [OF nx] by simp
qed

section \<open>Each operation implements its abstraction\<close>

lemma entries_distinct: "family_wf v6 f \<Longrightarrow> distinct (map fst (lru_entries (abs_family v6 f)))"
  by (simp add: abs_family_def family_wf_def comp_def)

lemma map_of_entries:
  assumes "family_wf v6 f"
  shows "map_of (lru_entries (abs_family v6 f)) name = map_option b_addr (fam_names f name)"
proof (cases "fam_names f name")
  case None
  then have "name \<notin> fst ` set (lru_entries (abs_family v6 f))"
    using family_wf_member(4) [OF assms] by (auto simp: abs_family_def) 
  with None show ?thesis by (simp add: map_of_eq_None_iff)
next
  case (Some b)
  then have "b \<in> set (fam_order f)" "b_name b = name" using assms by (auto simp: family_wf_def)
  then have "(name, b_addr b) \<in> set (lru_entries (abs_family v6 f))"
    by (auto simp: abs_family_def entry_of_def)
  with Some entries_distinct [OF assms] show ?thesis by (simp add: map_of_eq_Some_iff)
qed

lemma map_remove1_entry: "map entry_of (remove1 b bs) = remove1 (entry_of b) (map entry_of bs)"
  by (induction bs) (auto simp: entry_of_inj)

lemma abs_touch:
  assumes "family_wf v6 (family_of v6 d)" and "b \<in> set (fam_order (family_of v6 d))"
  shows "abs_dns (touch_binding v6 b d) = (abs_dns d)(v6 := use_entry (entry_of b) (abs_dns d v6))"
proof -
  have "distinct (map entry_of (fam_order (family_of v6 d)))"
    using assms(1) by (auto simp: family_wf_def distinct_map inj_on_def entry_of_inj)
  with assms(2) show ?thesis
    by (auto simp: abs_dns_def touch_binding_simps abs_family_def use_entry_def move_to_front_def
        map_remove1_entry distinct_remove1_removeAll)
qed

lemma abs_bind:
  assumes "dns_good d" and "addr_index a = addr_index (fam_last (family_of v6 d)) + 1"
  shows "abs_dns (bind_address v6 name a (evict_oldest v6 d))
    = (abs_dns d)(v6 := add_entry name a (abs_dns d v6))"
proof -
  let ?f = "family_of v6 d"
  have wf: "family_wf v6 ?f" and num: "pool_base v6 \<le> addr_index (fam_last ?f)"
    using assms(1) by (auto simp: dns_good_iff dns_wf_iff numbered_def)
  then have len: "length (fam_order ?f) \<le> max_synthetic_names" by (simp add: family_wf_def)
  have "map entry_of (fam_order (family_of v6 (evict_oldest v6 d)))
      = take (max_synthetic_names - 1) (map entry_of (fam_order ?f))"
  proof (cases "length (fam_order ?f) < max_synthetic_names")
    case True
    then show ?thesis by (simp add: evict_oldest_id)
  next
    case False
    with len have full: "length (fam_order ?f) = max_synthetic_names" by simp
    have "distinct (fam_order ?f)" using wf by (auto simp: family_wf_def distinct_map)
    moreover have "fam_order ?f \<noteq> []" using full max_synthetic_names_pos by auto
    ultimately have "remove1 (last (fam_order ?f)) (fam_order ?f) = butlast (fam_order ?f)"
      by (rule remove1_last)
    with full show ?thesis
      by (simp add: evict_oldest_simps(1) butlast_conv_take take_map)
  qed
  moreover have "take max_synthetic_names (x # xs) = x # take (max_synthetic_names - 1) xs"
    for x and xs :: "(string \<times> ip_addr) list"
    using max_synthetic_names_pos by (simp add: take_Cons')
  moreover have "family_of u (evict_oldest v6 d) = family_of u d" if "u \<noteq> v6" for u
    using that by (simp add: evict_oldest_def Let_def family_of_set_family_if)
  ultimately show ?thesis
    using assms(2) num
    by (auto simp: abs_dns_def bind_address_simps abs_family_def add_entry_def entry_of_def
        Suc_diff_le)
qed

lemma numbered_simps:
  "numbered v6 (f\<lparr>fam_order := bs\<rparr>) = numbered v6 f"
  "numbered v6 (f\<lparr>fam_names := m, fam_order := bs\<rparr>) = numbered v6 f"
  by (simp_all add: numbered_def)

lemma abs_dns_family [simp]: "abs_dns d v6 = abs_family v6 (family_of v6 d)"
  by (simp add: abs_dns_def)

lemma lookup_simulates:
  assumes "dns_good d"
  shows "cache_lookup env raw v6 (abs_dns d) = map_prod id abs_dns (resolve env d raw v6)"
proof -
  let ?f = "family_of v6 d" and ?n = "canonical env raw"
  have wf: "family_wf v6 ?f" and num: "numbered v6 ?f" and dwf: "dns_wf d"
    using assms by (auto simp: dns_good_iff dns_wf_iff)
  note known = map_of_entries [OF wf, of ?n]
  consider "?n = []" | b where "?n \<noteq> []" "fam_names ?f ?n = Some b"
    | "?n \<noteq> []" "fam_names ?f ?n = None" by blast
  then show ?thesis
  proof cases
    case 1
    then show ?thesis by (simp add: cache_lookup_def resolve_def Let_def)
  next
    case 2
    then have b: "b \<in> set (fam_order ?f)" "b_name b = ?n" using wf by (auto simp: family_wf_def)
    then have "entry_of b = (?n, b_addr b)" by (simp add: entry_of_def)
    with 2 known abs_touch [OF wf b(1)] show ?thesis
      by (simp add: cache_lookup_def resolve_def Let_def)
  next
    case 3
    let ?a = "next_addr (fam_last ?f)"
    note nx = next_addr_numbered [OF wf num]
    have ok: "prefix_contains (fam_pool ?f) ?a \<and> \<not> prefix_contains (fam_reserved ?f) ?a
        \<longleftrightarrow> assignable v6 ?a"
      using wf by (simp add: assignable_def family_wf_def)
    have issued: "lru_issued (abs_dns d v6) = addr_index (fam_last ?f) - pool_base v6"
      by (simp add: abs_family_def)
    show ?thesis
    proof (cases "assignable v6 ?a")
      case True
      then have "?a \<noteq> IPInvalid" by (rule assignable_not_invalid)
      then have "addr_index ?a = addr_index (fam_last ?f) + 1"
        using next_addr_index wf by (auto simp: family_wf_def)
      from abs_bind [OF assms this] 3 known nx True ok issued show ?thesis
        by (simp add: cache_lookup_def resolve_def Let_def)
    next
      case False
      with 3 known nx ok issued show ?thesis
        by (auto simp: cache_lookup_def resolve_def Let_def)
    qed
  qed
qed

lemma resolve_good:
  assumes "dns_good d"
  shows "dns_good (snd (resolve env d raw v6))"
proof -
  obtain res d' where r: "resolve env d raw v6 = (res, d')" by fastforce
  have wf: "dns_wf d" and num: "\<And>u. numbered u (family_of u d)" using assms by (auto simp: dns_good_iff)
  from wf r have "\<forall>u. numbered u (family_of u d')"
  proof (cases rule: resolve_cases)
    case (known b)
    with num show ?thesis by (simp add: touch_binding_simps numbered_simps)
  next
    case (new a)
    have "family_wf v6 (family_of v6 d)" using wf by (simp add: dns_wf_iff)
    from next_addr_numbered(1) [OF this num] new num [of v6] have "numbered v6 (family_of v6 d')"
      by (auto simp: numbered_def bind_address_simps)
    with new num show ?thesis
      by (auto simp: bind_address_simps numbered_def)
  qed (use num in simp)
  with resolve_wf [OF wf, of env raw v6] r show ?thesis by (simp add: dns_good_iff)
qed

lemma find_SomeD: "find P xs = Some x \<Longrightarrow> x \<in> set xs \<and> P x"
  by (induction xs) (auto split: if_splits)

lemma find_entry: "find (\<lambda>e. P (snd e)) (map entry_of bs) = map_option entry_of (find (\<lambda>b. P (b_addr b)) bs)"
  by (induction bs) simp_all

lemma cache_owner_abs:
  assumes "dns_wf d"
  shows "cache_owner a (abs_dns d) = map_option entry_of (dns_reverse d (unmap a))"
proof -
  let ?bs = "fam_order (family_of False d) @ fam_order (family_of True d)"
  have owner: "cache_owner a (abs_dns d) = map_option entry_of (find (\<lambda>b. b_addr b = unmap a) ?bs)"
    using find_entry [of "\<lambda>x. x = unmap a" ?bs] by (simp add: cache_owner_def abs_family_def)
  have rev: "dns_reverse d (unmap a) = Some b \<longleftrightarrow> b \<in> set ?bs \<and> b_addr b = unmap a" for b
    using assms by (auto simp: dns_wf_iff ex_bool_eq)
  show ?thesis
  proof (cases "find (\<lambda>b. b_addr b = unmap a) ?bs")
    case None
    then have "dns_reverse d (unmap a) = None"
      using rev by (cases "dns_reverse d (unmap a)") (auto simp: find_None_iff)
    with None owner show ?thesis by simp
  next
    case (Some b)
    then have "b \<in> set ?bs \<and> b_addr b = unmap a" by (rule find_SomeD)
    then have "dns_reverse d (unmap a) = Some b" using rev [of b] by blast
    with Some owner show ?thesis by simp
  qed
qed

lemma recover_simulates:
  assumes "dns_good d"
  shows "cache_recover a (abs_dns d) = map_prod id abs_dns (reverse d a)"
proof -
  have wf: "dns_wf d" using assms by (simp add: dns_good_iff)
  note owner = cache_owner_abs [OF wf, of a]
  show ?thesis
  proof (cases "dns_reverse d (unmap a)")
    case None
    with owner show ?thesis by (simp add: cache_recover_def reverse_def)
  next
    case (Some b)
    then obtain u where b: "b \<in> set (fam_order (family_of u d))" using wf by (auto simp: dns_wf_iff)
    have fam: "family_wf u (family_of u d)" using wf by (simp add: dns_wf_iff)
    have "is6 (b_addr b) = u"
      using family_wf_member(2) [OF fam b] assignable_in_family in_family_is6 by blast
    with abs_touch [OF fam b] owner Some show ?thesis
      by (simp add: cache_recover_def reverse_def)
  qed
qed

lemma reverse_good: "dns_good d \<Longrightarrow> dns_good (snd (reverse d a))"
  using reverse_wf [of d a] by (simp add: dns_good_iff numbered_def snd_reverse)

interpretation dnsr: refinement "dns_conc env" "dns_spec env" abs_dns dns_good
  for env
proof
  fix d x
  assume good: "dns_good d"
  show "dns_good (snd (dns_conc env x d))"
    using resolve_good [OF good] reverse_good [OF good] by (cases x) (simp_all add: dns_conc_def)
  show "dns_spec env x (abs_dns d) = map_prod id abs_dns (dns_conc env x d)"
    using lookup_simulates [OF good] recover_simulates [OF good]
    by (cases x) (simp_all add: dns_conc_def dns_spec_def prod.map_comp comp_def)
qed

lemma new_virtual_dns_good: "dns_good new_virtual_dns"
  using new_virtual_dns_wf
  by (simp add: dns_good_def numbered_def)
     (simp add: new_virtual_dns_def new_family_def pool_base_def pool_of_def)

lemma abs_new_virtual_dns: "abs_dns new_virtual_dns = empty_cache"
  by (rule ext) (simp add: abs_family_def new_virtual_dns_def new_family_def empty_cache_def
      family_of_def pool_base_def pool_of_def)

section \<open>Forgetting\<close>

text \<open>Names looked up one after the other; new ones push the old ones out of the recency list.\<close>

definition resolve_all :: "text_env \<Rightarrow> bool \<Rightarrow> string list \<Rightarrow> virtual_dns \<Rightarrow> virtual_dns" where
  "resolve_all env v6 ns d = fold (\<lambda>n d. snd (resolve env d n v6)) ns d"

lemma resolve_all_simps [simp]:
  "resolve_all env v6 [] d = d"
  "resolve_all env v6 (n # ns) d = resolve_all env v6 ns (snd (resolve env d n v6))"
  by (simp_all add: resolve_all_def)

lemma resolve_all_later: "store_later (resolve env) reverse d (resolve_all env v6 ns d)"
proof (induction ns arbitrary: d)
  case (Cons n ns)
  have first: "store_step (resolve env) reverse d (snd (resolve env d n v6))" by (rule by_lookup)
  from Cons.IH [of "snd (resolve env d n v6)"] show ?case
    using converse_rtranclp_into_rtranclp [of "store_step (resolve env) reverse", OF first]
    by (simp add: store_later_def)
qed (simp add: store_later_def)

lemma resolve_all_good: "dns_good d \<Longrightarrow> dns_good (resolve_all env v6 ns d)"
  by (induction ns arbitrary: d) (simp_all add: resolve_good)

definition names_of :: "bool \<Rightarrow> virtual_dns \<Rightarrow> string list" where
  "names_of v6 d = map b_name (fam_order (family_of v6 d))"

text \<open>A new name goes to the front, and the list is cut at its bound.\<close>

lemma resolve_new_name:
  assumes "dns_good d" and "canonical env n = n" and "n \<noteq> []" and "n \<notin> set (names_of v6 d)"
    and "lru_issued (abs_dns d v6) < pool_size v6"
  shows "names_of v6 (snd (resolve env d n v6)) = take max_synthetic_names (n # names_of v6 d)"
    and "lru_issued (abs_dns (snd (resolve env d n v6)) v6) = Suc (lru_issued (abs_dns d v6))"
proof -
  let ?c = "abs_dns d"
  have names: "names_of v6 x = map fst (lru_entries (abs_dns x v6))" for x
    by (simp add: names_of_def abs_family_def comp_def)
  from assms(4) have "map_of (lru_entries (?c v6)) n = None"
    by (simp add: names map_of_eq_None_iff)
  then have "snd (cache_lookup env n v6 ?c) = ?c(v6 := add_entry n (nth_address v6 (Suc (lru_issued (?c v6)))) (?c v6))"
    using assms(2,3,5) by (simp add: cache_lookup_def Let_def del: abs_dns_family)
  then have "abs_dns (snd (resolve env d n v6)) v6 = add_entry n (nth_address v6 (Suc (lru_issued (?c v6)))) (?c v6)"
    using lookup_simulates [OF assms(1), of env n v6] by (simp del: abs_dns_family)
  then show "names_of v6 (snd (resolve env d n v6)) = take max_synthetic_names (n # names_of v6 d)"
    "lru_issued (abs_dns (snd (resolve env d n v6)) v6) = Suc (lru_issued (abs_dns d v6))"
    by (simp_all add: names add_entry_def take_map [symmetric] del: abs_dns_family)
qed

lemma resolve_all_names:
  assumes "dns_good d" and "distinct ns" and "set ns \<inter> set (names_of v6 d) = {}"
    and "list_all (\<lambda>n. canonical env n = n \<and> n \<noteq> []) ns"
    and "lru_issued (abs_dns d v6) + length ns \<le> pool_size v6"
  shows "set (names_of v6 (resolve_all env v6 ns d))
    \<subseteq> set ns \<union> set (take (max_synthetic_names - length ns) (names_of v6 d))"
  using assms
proof (induction ns arbitrary: d)
  case (Cons n ns)
  let ?d = "snd (resolve env d n v6)"
  have new: "names_of v6 ?d = take max_synthetic_names (n # names_of v6 d)"
    "lru_issued (abs_dns ?d v6) = Suc (lru_issued (abs_dns d v6))"
    using resolve_new_name [OF Cons.prems(1), of env n v6] Cons.prems(3-5)
    by (simp_all del: abs_dns_family)
  have sub: "set (names_of v6 ?d) \<subseteq> insert n (set (names_of v6 d))"
    using new(1) set_take_subset [of max_synthetic_names "n # names_of v6 d"] by auto
  have "set (names_of v6 (resolve_all env v6 ns ?d))
      \<subseteq> set ns \<union> set (take (max_synthetic_names - length ns) (names_of v6 ?d))"
  proof (rule Cons.IH)
    show "dns_good ?d" using Cons.prems(1) by (rule resolve_good)
    show "set ns \<inter> set (names_of v6 ?d) = {}" using sub Cons.prems(2,3) by auto
  qed (use Cons.prems new(2) in \<open>simp_all del: abs_dns_family\<close>)
  moreover have "set (take (max_synthetic_names - length ns) (names_of v6 ?d))
      \<subseteq> insert n (set (take (max_synthetic_names - Suc (length ns)) (names_of v6 d)))"
    by (auto simp: new(1) take_Cons' dest: in_set_takeD split: if_splits)
  ultimately show ?case by auto
next
  case Nil
  have "family_wf v6 (family_of v6 d)" using Nil.prems(1) by (simp add: dns_good_iff dns_wf_iff)
  then have "length (names_of v6 d) \<le> max_synthetic_names" by (simp add: names_of_def family_wf_def)
  then show ?case by simp
qed

text \<open>
  So the address of a name that was resolved leads nowhere once as many new names as the list holds were
  resolved after it.
\<close>

lemma old_names_forgotten:
  assumes "dns_good d" and "resolve env d name v6 = (Inr a, d1)" and "distinct ns"
    and "set ns \<inter> set (names_of v6 d1) = {}" and "canonical env name \<notin> set ns"
    and "list_all (\<lambda>n. canonical env n = n \<and> n \<noteq> []) ns" and "length ns = max_synthetic_names"
    and "lru_issued (abs_dns d1 v6) + max_synthetic_names \<le> pool_size v6"
  shows "fst (reverse (resolve_all env v6 ns d1) a) = None"
proof (rule ccontr)
  let ?d2 = "resolve_all env v6 ns d1"
  have wf: "dns_wf d" and good1: "dns_good d1"
    using assms(1) resolve_good [OF assms(1), of env name v6] assms(2) by (auto simp: dns_good_iff)
  have wf2: "dns_wf ?d2" using resolve_all_good [OF good1] by (simp add: dns_good_iff)
  have a: "assignable v6 a" using resolve_issued(1) [OF wf assms(2)] .
  assume "fst (reverse ?d2 a) \<noteq> None"
  moreover have "fst (reverse ?d2 a) \<in> {None, Some (canonical env name)}"
    using dns.never_reassigned(1) [OF wf assms(2) resolve_all_later] .
  ultimately have "fst (reverse ?d2 a) = Some (canonical env name)" by auto
  then obtain b where b: "dns_reverse ?d2 a = Some b" "b_name b = canonical env name"
    using a by (auto simp: fst_reverse)
  with wf2 obtain u where u: "b \<in> set (fam_order (family_of u ?d2))" "b_addr b = a" by (auto simp: dns_wf_iff)
  have "family_wf u (family_of u ?d2)" using wf2 by (simp add: dns_wf_iff)
  from family_wf_member(2) [OF this u(1)] u(2) a have "u = v6" using assignable_unique by blast
  with u(1) b(2) have "canonical env name \<in> set (names_of v6 ?d2)" by (force simp: names_of_def)
  moreover have "set (names_of v6 ?d2) \<subseteq> set ns"
    using resolve_all_names [OF good1 assms(3,4,6)] assms(7,8) by simp
  ultimately show False using assms(5) by blast
qed

section \<open>Properties\<close>

text \<open>
  C9. Whatever sequence of resolutions and reverse lookups a new resolver is asked for, it answers as
  the abstract resolver does: one list of at most 65536 names per family in the order of their last
  use, from which the least recently used name falls when a new one comes, and addresses numbered
  one after the other from the start of the pool, the n-th new name of a family getting the n-th
  address, until 4194047 IPv4 or 2^64 - 257 IPv6 addresses have been given out.
\<close>

theorem resolver_is_lru:
  "run_machine (dns_spec env) ops empty_cache
     = map_prod id abs_dns (run_machine (dns_conc env) ops new_virtual_dns)
   \<and> dns_good (snd (run_machine (dns_conc env) ops new_virtual_dns))"
  using dnsr.run_simulates [OF new_virtual_dns_good] dnsr.run_good [OF new_virtual_dns_good]
  by (simp add: abs_new_virtual_dns)

end
