(* ===== verification/Audit_Record.thy ===== *)
theory Audit_Record
  imports Boundary
begin

text \<open>
  The lines that sdk/cmd/connect-proxy/main.go writes for its decisions: \<open>json.Marshal\<close> of an
  auditRecord (its string encoder with the escapes for quotes, controls, the HTML characters, the two
  Unicode line separators and bytes that are no UTF-8) followed by a newline. A reader of such lines
  is defined beside the writer, so that what a request puts into a record can be shown to stay a value
  of its field.
\<close>

section \<open>The string encoder\<close>

definition quote_char :: char where "quote_char = CHR 0x22"
definition backslash :: char where "backslash = CHR 0x5C"
definition newline_char :: char where "newline_char = CHR 0x0A"

text \<open>The number of bytes of the UTF-8 sequence a text starts with, 0 when there is none.\<close>

definition rune_width :: "string \<Rightarrow> nat" where
  "rune_width s =
     (case s of
        [] \<Rightarrow> 0
      | a # r \<Rightarrow>
          (let b = byte_of a;
               cont = (\<lambda>i lo hi. i < length r \<and> lo \<le> byte_of (r ! i) \<and> byte_of (r ! i) \<le> hi) in
           if b < 0x80 then 1
           else if b < 0xC2 then 0
           else if b < 0xE0 then (if cont 0 0x80 0xBF then 2 else 0)
           else if b < 0xF0 then
             (if cont 0 (if b = 0xE0 then 0xA0 else 0x80) (if b = 0xED then 0x9F else 0xBF)
                 \<and> cont 1 0x80 0xBF then 3 else 0)
           else if b < 0xF5 then
             (if cont 0 (if b = 0xF0 then 0x90 else 0x80) (if b = 0xF4 then 0x8F else 0xBF)
                 \<and> cont 1 0x80 0xBF \<and> cont 2 0x80 0xBF then 4 else 0)
           else 0))"

definition hex_escape :: "nat \<Rightarrow> string" where
  "hex_escape n =
     [backslash, CHR ''u'', digit_char (n div 4096), digit_char (n div 256 mod 16),
      digit_char (n div 16 mod 16), digit_char (n mod 16)]"

definition json_ascii :: "char \<Rightarrow> string" where
  "json_ascii c =
     (if c = quote_char \<or> c = backslash then [backslash, c]
      else if c = CHR 0x08 then [backslash, CHR ''b'']
      else if c = CHR 0x0C then [backslash, CHR ''f'']
      else if c = CHR 0x0A then [backslash, CHR ''n'']
      else if c = CHR 0x0D then [backslash, CHR ''r'']
      else if c = CHR 0x09 then [backslash, CHR ''t'']
      else if byte_of c < 0x20 \<or> c \<in> set ''<>&'' then hex_escape (byte_of c)
      else [c])"

definition line_separator :: string where "line_separator = [CHR 0xE2, CHR 0x80, CHR 0xA8]"
definition paragraph_separator :: string where "paragraph_separator = [CHR 0xE2, CHR 0x80, CHR 0xA9]"
definition replacement_rune :: string where "replacement_rune = [CHR 0xEF, CHR 0xBF, CHR 0xBD]"

definition json_rune :: "string \<Rightarrow> string" where
  "json_rune s =
     (if s = line_separator then hex_escape 0x2028
      else if s = paragraph_separator then hex_escape 0x2029
      else s)"

function json_body :: "string \<Rightarrow> string" where
  "json_body [] = []"
| "json_body (c # r) =
     (if byte_of c < 128 then json_ascii c @ json_body r
      else
        (let w = rune_width (c # r) in
         if w = 0 then hex_escape 0xFFFD @ json_body r
         else json_rune (take w (c # r)) @ json_body (drop w (c # r))))"
  by pat_completeness auto
termination by (relation "measure length") auto

definition json_string :: "string \<Rightarrow> string" where
  "json_string s = quote_char # json_body s @ [quote_char]"

section \<open>The record\<close>

text \<open>The fields in the order of the struct; all but ts and decision are left out when empty.\<close>

definition optional_field :: "string \<Rightarrow> string \<Rightarrow> (string \<times> string) list" where
  "optional_field key v = (if v = [] then [] else [(key, v)])"

definition record_fields :: "audit_record \<Rightarrow> (string \<times> string) list" where
  "record_fields r =
     (''ts'', ar_time r) # optional_field ''listener'' (ar_listener r)
       @ optional_field ''sandbox'' (ar_sandbox r) @ optional_field ''generation'' (ar_generation r)
       @ optional_field ''policy'' (ar_policy r) @ optional_field ''wire'' (ar_wire r)
       @ optional_field ''transport'' (ar_transport r)
       @ optional_field ''destination'' (ar_destination r)
       @ optional_field ''address'' (ar_address r) @ optional_field ''peer'' (ar_peer r)
       @ optional_field ''connection'' (ar_connection r) @ optional_field ''rule'' (ar_rule r)
       @ (''decision'', ar_decision r) # optional_field ''reason'' (ar_reason r)"

definition json_field :: "string \<times> string \<Rightarrow> string" where
  "json_field kv = json_string (fst kv) @ CHR '':'' # json_string (snd kv)"

definition json_object :: "(string \<times> string) list \<Rightarrow> string" where
  "json_object kvs = CHR ''{'' # join_byte (CHR '','') (map json_field kvs) @ ''}''"

definition audit_line :: "audit_record \<Rightarrow> string" where
  "audit_line r = json_object (record_fields r) @ [newline_char]"

text \<open>What the audit stream holds after the events of a run: the mutex makes each line one write.\<close>

definition audit_output :: "event list \<Rightarrow> string" where
  "audit_output es = concat (map audit_line (audits es))"

section \<open>A reader\<close>

definition utf8_encode :: "nat \<Rightarrow> string" where
  "utf8_encode n =
     (if n < 0x80 then [char_of n]
      else if n < 0x800 then [char_of (0xC0 + n div 64), char_of (0x80 + n mod 64)]
      else [char_of (0xE0 + n div 4096), char_of (0x80 + n div 64 mod 64), char_of (0x80 + n mod 64)])"

fun hex_number :: "nat \<Rightarrow> string \<Rightarrow> nat option" where
  "hex_number acc [] = Some acc"
| "hex_number acc (c # cs) =
     (case hex_value c of None \<Rightarrow> None | Some v \<Rightarrow> hex_number (16 * acc + v) cs)"

text \<open>One escape after its backslash; surrogates are refused.\<close>

definition read_escape :: "string \<Rightarrow> (string \<times> string) option" where
  "read_escape s =
     (case s of
        [] \<Rightarrow> None
      | c # r \<Rightarrow>
          if c \<in> {quote_char, backslash, CHR ''/''} then Some ([c], r)
          else if c = CHR ''b'' then Some ([CHR 0x08], r)
          else if c = CHR ''f'' then Some ([CHR 0x0C], r)
          else if c = CHR ''n'' then Some ([CHR 0x0A], r)
          else if c = CHR ''r'' then Some ([CHR 0x0D], r)
          else if c = CHR ''t'' then Some ([CHR 0x09], r)
          else if c = CHR ''u'' \<and> 4 \<le> length r then
            (case hex_number 0 (take 4 r) of
               None \<Rightarrow> None
             | Some n \<Rightarrow>
                 if 0xD800 \<le> n \<and> n < 0xE000 then None else Some (utf8_encode n, drop 4 r))
          else None)"

lemma read_escape_shorter: "read_escape s = Some (t, r) \<Longrightarrow> length r < length s"
  by (auto simp: read_escape_def split: list.splits if_splits option.splits)

function read_text :: "string \<Rightarrow> (string \<times> string) option" where
  "read_text [] = None"
| "read_text (c # r) =
     (if c = quote_char then Some ([], r)
      else if c = backslash then
        (case read_escape r of
           None \<Rightarrow> None
         | Some (t, r1) \<Rightarrow> map_option (\<lambda>(u, q). (t @ u, q)) (read_text r1))
      else if byte_of c < 0x20 then None
      else map_option (\<lambda>(u, q). (c # u, q)) (read_text r))"
  by pat_completeness auto
termination
  by (relation "measure length") (auto dest: read_escape_shorter)

definition expect :: "char \<Rightarrow> string \<Rightarrow> string option" where
  "expect c s = (case s of [] \<Rightarrow> None | x # r \<Rightarrow> if x = c then Some r else None)"

definition read_field :: "string \<Rightarrow> ((string \<times> string) \<times> string) option" where
  "read_field s =
     Option.bind (expect quote_char s) (\<lambda>s1.
     Option.bind (read_text s1) (\<lambda>(key, s2).
     Option.bind (expect (CHR '':'') s2) (\<lambda>s3.
     Option.bind (expect quote_char s3) (\<lambda>s4.
     map_option (\<lambda>(v, s5). ((key, v), s5)) (read_text s4)))))"

lemma read_text_shorter: "read_text s = Some (t, r) \<Longrightarrow> length r < length s"
proof (induction s arbitrary: t r rule: read_text.induct)
  case (2 c s)
  show ?case
  proof (cases "c = backslash \<and> c \<noteq> quote_char")
    case True
    with "2.prems" obtain e s1 u where e: "read_escape s = Some (e, s1)" "read_text s1 = Some (u, r)"
      by (auto split: option.splits)
    with "2.IH"(1) [OF _ _ e(1) refl e(2)] True read_escape_shorter [OF e(1)] show ?thesis
      by (auto simp del: read_text.simps)
  next
    case False
    with "2.prems" "2.IH"(2) show ?thesis by (fastforce split: if_splits)
  qed
qed simp

lemma expect_shorter: "expect c s = Some r \<Longrightarrow> s = c # r"
  by (auto simp: expect_def split: list.splits if_splits)

lemma read_field_shorter: "read_field s = Some (kv, r) \<Longrightarrow> length r < length s"
  by (auto simp: read_field_def bind_eq_Some_conv
      dest!: expect_shorter read_text_shorter)

text \<open>The members of an object of strings, up to the closing brace at the end of the text.\<close>

function read_members :: "string \<Rightarrow> (string \<times> string) list option" where
  "read_members s =
     (case read_field s of
        None \<Rightarrow> None
      | Some (kv, r) \<Rightarrow>
          if r = ''}'' then Some [kv]
          else (case expect (CHR '','') r of
                  None \<Rightarrow> None
                | Some r1 \<Rightarrow> map_option (\<lambda>kvs. kv # kvs) (read_members r1)))"
  by pat_completeness auto
termination
  by (relation "measure length") (auto dest!: read_field_shorter expect_shorter)

declare read_members.simps [simp del]

definition read_record :: "string \<Rightarrow> (string \<times> string) list option" where
  "read_record s = Option.bind (expect (CHR ''{'') s) read_members"

definition output_records :: "string \<Rightarrow> (string \<times> string) list option list" where
  "output_records s = map read_record (butlast (split_byte newline_char s))"

text \<open>A text with every byte that is not part of a UTF-8 sequence replaced by U+FFFD.\<close>

function to_valid :: "string \<Rightarrow> string" where
  "to_valid [] = []"
| "to_valid (c # r) =
     (let w = rune_width (c # r) in
      if w = 0 then replacement_rune @ to_valid r
      else take w (c # r) @ to_valid (drop w (c # r)))"
  by pat_completeness auto
termination by (relation "measure length") auto

section \<open>The reader inverts the writer\<close>

lemma byte_of_bound: "byte_of c < 256"
  by (simp add: byte_of_def)

lemma byte_of_inj: "byte_of c = byte_of d \<longleftrightarrow> c = d"
  by (simp add: byte_of_def)

lemma hex_value_digit: "n < 16 \<Longrightarrow> hex_value (digit_char n) = Some n"
proof -
  have "list_all (\<lambda>k. hex_value (digit_char k) = Some k) [0..<16]" by code_simp
  then show "n < 16 \<Longrightarrow> ?thesis" by (simp add: list_all_iff)
qed

lemma read_hex_escape:
  assumes "n < 65536" and "\<not> (0xD800 \<le> n \<and> n < 0xE000)"
  shows "read_text (hex_escape n @ t) = map_option (\<lambda>(u, q). (utf8_encode n @ u, q)) (read_text t)"
proof -
  have step: "n div (16 * k) * 16 + n div k mod 16 = n div k" for k
    by (simp add: mult.commute div_mult2_eq)
  have num: "(n div 4096 * 16 + n div 256 mod 16) * 16 + n div 16 mod 16 = n div 16"
    using step [of 256] step [of 16] by simp
  have "n div 4096 < 16" using assms(1) by auto
  then have "hex_number 0 [digit_char (n div 4096), digit_char (n div 256 mod 16),
      digit_char (n div 16 mod 16), digit_char (n mod 16)]
    = Some (16 * ((n div 4096 * 16 + n div 256 mod 16) * 16 + n div 16 mod 16) + n mod 16)"
    by (simp add: hex_value_digit mult.commute)
  also have "\<dots> = Some n" by (simp only: num mult_div_mod_eq)
  finally have "read_escape (CHR ''u'' # digit_char (n div 4096) # digit_char (n div 256 mod 16)
      # digit_char (n div 16 mod 16) # digit_char (n mod 16) # t) = Some (utf8_encode n, t)"
    using assms(2) by (simp add: read_escape_def quote_char_def backslash_def)
  then show ?thesis by (simp add: hex_escape_def backslash_def quote_char_def)
qed

lemma read_json_ascii:
  assumes "byte_of c < 128"
  shows "read_text (json_ascii c @ t) = map_option (\<lambda>(u, q). (c # u, q)) (read_text t)"
proof -
  have utf8: "utf8_encode (byte_of c) = [c]" using assms by (simp add: utf8_encode_def byte_of_def)
  have "byte_of c < 65536" using byte_of_bound [of c] by simp
  from read_hex_escape [OF this, of t] byte_of_bound [of c] utf8
  have hex: "read_text (hex_escape (byte_of c) @ t)
      = map_option (\<lambda>(u, q). (c # u, q)) (read_text t)" by simp
  consider "c = quote_char \<or> c = backslash" | "c = CHR 0x08" | "c = CHR 0x0C" | "c = CHR 0x0A"
    | "c = CHR 0x0D" | "c = CHR 0x09"
    | "c \<notin> {quote_char, backslash, CHR 0x08, CHR 0x0C, CHR 0x0A, CHR 0x0D, CHR 0x09}"
    by blast
  then show ?thesis
  proof cases
    case 7
    show ?thesis
    proof (cases "byte_of c < 0x20 \<or> c \<in> set ''<>&''")
      case True
      with 7 have "json_ascii c = hex_escape (byte_of c)" by (simp add: json_ascii_def)
      with hex show ?thesis by simp
    next
      case False
      with 7 have "json_ascii c = [c]" by (simp add: json_ascii_def)
      with 7 False show ?thesis by simp
    qed
  qed (auto simp: json_ascii_def read_escape_def quote_char_def backslash_def)
qed

lemma rune_width_cases:
  assumes "\<not> byte_of c < 128"
  shows "rune_width (c # r) \<in> {0, 2, 3, 4}"
    and "2 \<le> rune_width (c # r) \<Longrightarrow> 0 < length r \<and> 128 \<le> byte_of (r ! 0)"
    and "3 \<le> rune_width (c # r) \<Longrightarrow> 1 < length r \<and> 128 \<le> byte_of (r ! 1)"
    and "4 \<le> rune_width (c # r) \<Longrightarrow> 2 < length r \<and> 128 \<le> byte_of (r ! 2)"
  using assms by (simp_all add: rune_width_def Let_def split: if_splits)

lemma rune_width_length: "rune_width s \<le> length s"
proof (cases s)
  case (Cons c r)
  show ?thesis
  proof (cases "byte_of c < 128")
    case True
    with Cons show ?thesis by (simp add: rune_width_def)
  next
    case False
    note w = rune_width_cases [OF False, of r]
    from w(1) consider "rune_width s = 0" | "rune_width s = 2" | "rune_width s = 3"
      | "rune_width s = 4" using Cons by auto
    then show ?thesis using w(2-4) Cons by cases (auto simp: Suc_le_eq)
  qed
qed (simp add: rune_width_def)

lemma rune_bytes_high:
  assumes "\<not> byte_of c < 128"
  shows "list_all (\<lambda>x. 128 \<le> byte_of x) (take (rune_width (c # r)) (c # r))"
proof -
  note w = rune_width_cases [OF assms, of r]
  have "128 \<le> byte_of (r ! i)" if "Suc i < rune_width (c # r)" for i
  proof -
    have "i = 0 \<or> i = 1 \<or> i = 2" using that w(1) by auto
    with that w(2-4) show ?thesis by auto
  qed
  moreover have "rune_width (c # r) \<le> Suc (length r)" using rune_width_length [of "c # r"] by simp
  ultimately show ?thesis
    using assms by (auto simp: list_all_length nth_Cons split: nat.split)
qed

lemma read_high_bytes:
  "list_all (\<lambda>x. 128 \<le> byte_of x) w
    \<Longrightarrow> read_text (w @ t) = map_option (\<lambda>(u, q). (w @ u, q)) (read_text t)"
proof (induction w)
  case Nil
  show ?case by (cases "read_text t") auto
next
  case (Cons x w)
  then have "x \<noteq> quote_char" "x \<noteq> backslash" "\<not> byte_of x < 0x20"
    by (auto simp: quote_char_def backslash_def byte_of_def)
  with Cons show ?case by (cases "read_text t") auto
qed

lemma utf8_specials:
  "utf8_encode 0x2028 = line_separator" "utf8_encode 0x2029 = paragraph_separator"
  "utf8_encode 0xFFFD = replacement_rune"
  by (simp_all add: utf8_encode_def line_separator_def paragraph_separator_def replacement_rune_def
      char_of_def bit_iff_odd)

lemma read_json_rune:
  assumes "list_all (\<lambda>x. 128 \<le> byte_of x) w"
  shows "read_text (json_rune w @ t) = map_option (\<lambda>(u, q). (w @ u, q)) (read_text t)"
proof -
  have "read_text (hex_escape 0x2028 @ t)
      = map_option (\<lambda>(u, q). (line_separator @ u, q)) (read_text t)"
    "read_text (hex_escape 0x2029 @ t)
      = map_option (\<lambda>(u, q). (paragraph_separator @ u, q)) (read_text t)"
    using read_hex_escape [of "0x2028" t] read_hex_escape [of "0x2029" t]
    by (simp_all add: utf8_specials)
  with read_high_bytes [OF assms] show ?thesis by (simp add: json_rune_def)
qed

lemma read_json_body: "read_text (json_body s @ quote_char # t) = Some (to_valid s, t)"
proof (induction s rule: json_body.induct)
  case (2 c r)
  let ?w = "rune_width (c # r)"
  show ?case
  proof (cases "byte_of c < 128")
    case True
    then have "?w = 1" by (simp add: rune_width_def)
    with True "2.IH"(1) show ?thesis by (simp add: read_json_ascii)
  next
    case False
    have bad: "read_text (hex_escape 0xFFFD @ u)
        = map_option (\<lambda>(u, q). (replacement_rune @ u, q)) (read_text u)" for u
      using read_hex_escape [of "0xFFFD" u] by (simp add: utf8_specials)
    show ?thesis
    proof (cases "?w = 0")
      case True
      with False bad "2.IH"(2) [OF False refl True] show ?thesis by simp
    next
      case w: False
      from read_json_rune [OF rune_bytes_high [OF False, of r]] "2.IH"(3) [OF False refl w] False w
      show ?thesis by (simp add: Let_def del: take_Cons_numeral drop_Cons_numeral)
    qed
  qed
qed simp

lemma read_json_string: "Option.bind (expect quote_char (json_string s @ t)) read_text = Some (to_valid s, t)"
  using read_json_body [of s t] by (simp add: json_string_def expect_def)

lemma read_json_field: "read_field (json_field kv @ t) = Some (map_prod to_valid to_valid kv, t)"
proof -
  have q: "expect quote_char (json_string s @ u) = Some (json_body s @ quote_char # u)" for s u
    by (simp add: json_string_def expect_def)
  have "expect (CHR '':'') (CHR '':'' # u) = Some u" for u by (simp add: expect_def)
  then show ?thesis
    by (cases kv) (simp add: read_field_def json_field_def q read_json_body)
qed

lemma read_json_members:
  "kvs \<noteq> [] \<Longrightarrow> read_members (join_byte (CHR '','') (map json_field kvs) @ ''}'')
     = Some (map (map_prod to_valid to_valid) kvs)"
proof (induction kvs rule: induct_list012)
  case (2 kv)
  show ?case by (subst read_members.simps) (simp add: read_json_field)
next
  case (3 kv kv' kvs)
  have "expect (CHR '','') (CHR '','' # u) = Some u" for u by (simp add: expect_def)
  with 3(2) show ?case
    by (subst read_members.simps) (simp add: read_json_field)
qed simp

lemma read_json_object:
  "kvs \<noteq> [] \<Longrightarrow> read_record (json_object kvs) = Some (map (map_prod to_valid to_valid) kvs)"
  using read_json_members [of kvs] by (simp add: read_record_def json_object_def expect_def)

text \<open>No encoded text holds a control character, in particular no line end.\<close>

lemma hex_escape_printable:
  assumes "n < 65536"
  shows "newline_char \<notin> set (hex_escape n)"
proof -
  have "list_all (\<lambda>k. newline_char \<noteq> digit_char k) [0..<16]" by code_simp
  then have d: "k < 16 \<Longrightarrow> newline_char \<noteq> digit_char k" for k by (simp add: list_all_iff)
  have "n div 4096 < 16" using assms by auto
  with d have "newline_char \<noteq> digit_char (n div 4096)" "newline_char \<noteq> digit_char (k mod 16)" for k
    by simp_all
  moreover have "newline_char \<noteq> backslash" "newline_char \<noteq> CHR ''u''"
    by (simp_all add: newline_char_def backslash_def)
  ultimately show ?thesis by (simp add: hex_escape_def)
qed

lemma json_body_printable: "newline_char \<notin> set (json_body s)"
proof (induction s rule: json_body.induct)
  case (2 c r)
  let ?w = "rune_width (c # r)"
  show ?case
  proof (cases "byte_of c < 128")
    case True
    have "newline_char \<notin> set (json_ascii c)"
      using hex_escape_printable [of "byte_of c"] byte_of_bound [of c]
      by (auto simp: json_ascii_def quote_char_def backslash_def newline_char_def)
    with True "2.IH"(1) show ?thesis by simp
  next
    case False
    have "newline_char \<notin> set (json_rune (take ?w (c # r)))"
      using rune_bytes_high [OF False, of r] hex_escape_printable [of "0x2028"]
        hex_escape_printable [of "0x2029"]
      by (auto simp: json_rune_def list_all_iff newline_char_def byte_of_def)
    with False "2.IH"(2,3) hex_escape_printable [of "0xFFFD"] show ?thesis
      by (simp add: Let_def del: take_Cons_numeral drop_Cons_numeral)
  qed
qed simp

lemma newline_join_byte:
  "c \<noteq> newline_char \<Longrightarrow> \<forall>x \<in> set xs. newline_char \<notin> set x \<Longrightarrow> newline_char \<notin> set (join_byte c xs)"
  by (induction c xs rule: join_byte.induct) auto

lemma json_object_printable: "newline_char \<notin> set (json_object kvs)"
proof -
  have "newline_char \<notin> set (json_field kv)" for kv
    using json_body_printable
    by (auto simp: json_field_def json_string_def quote_char_def newline_char_def)
  then have "newline_char \<notin> set (join_byte (CHR '','') (map json_field kvs))"
    by (intro newline_join_byte) (auto simp: newline_char_def)
  then show ?thesis by (auto simp: json_object_def newline_char_def)
qed

lemma split_byte_line: "c \<notin> set l \<Longrightarrow> split_byte c (l @ c # s) = l # split_byte c s"
  by (induction l) auto

lemma output_records_lines:
  "output_records (concat (map audit_line rs))
    = map (\<lambda>r. Some (map (map_prod to_valid to_valid) (record_fields r))) rs"
proof (induction rs)
  case (Cons r rs)
  have "record_fields r \<noteq> []" by (simp add: record_fields_def)
  from read_json_object [OF this] Cons show ?case
    by (simp add: output_records_def audit_line_def split_byte_line json_object_printable)
qed (simp add: output_records_def)

text \<open>A text that is UTF-8 throughout is kept as it is.\<close>

function valid_utf8 :: "string \<Rightarrow> bool" where
  "valid_utf8 [] = True"
| "valid_utf8 (c # r) =
     (if rune_width (c # r) = 0 then False else valid_utf8 (drop (rune_width (c # r)) (c # r)))"
  by pat_completeness auto
termination by (relation "measure length") auto

lemma to_valid_id: "valid_utf8 s \<Longrightarrow> to_valid s = s"
  by (induction s rule: valid_utf8.induct) (auto simp: Let_def split: if_splits)

lemma ascii_valid_utf8: "is_ascii s \<Longrightarrow> valid_utf8 s"
  by (induction s) (simp_all add: is_ascii_def rune_width_def)

definition audit_keys :: "string list" where
  "audit_keys =
     [''ts'', ''listener'', ''sandbox'', ''generation'', ''policy'', ''wire'', ''transport'',
      ''destination'', ''address'', ''peer'', ''connection'', ''rule'', ''decision'', ''reason'']"

lemma optional_field_keys: "fst ` set (optional_field k v) \<subseteq> {k}"
  by (simp add: optional_field_def)

lemma record_keys:
  assumes "kv \<in> set (record_fields r)"
  shows "to_valid (fst kv) = fst kv"
proof -
  have "fst ` set (record_fields r) \<subseteq> set audit_keys"
    unfolding record_fields_def set_append image_Un list.set image_insert
    by (intro Un_least insert_subsetI subset_trans [OF optional_field_keys])
       (simp_all add: audit_keys_def)
  then have "fst kv \<in> set audit_keys" using assms by blast
  moreover have "list_all is_ascii audit_keys"
    by (simp add: audit_keys_def is_ascii_def byte_of_def)
  ultimately show ?thesis by (simp add: list_all_iff to_valid_id ascii_valid_utf8)
qed

lemma read_record_line: "map (map_prod to_valid to_valid) (record_fields r) = map (apsnd to_valid) (record_fields r)"
  using record_keys by (auto simp: apsnd_def map_prod_def split: prod.split)

lemma audits_append: "audits (es @ fs) = audits es @ audits fs"
  by (simp add: audits_def)

lemma length_audits_requests:
  "length (audits (concat (map (\<lambda>(h, s). dispatch b lib h s) requests))) = length requests"
proof (induction requests)
  case (Cons x xs)
  have "length (audits (dispatch b lib h s)) = 1" for h s
    using one_decision_dispatch [of b lib h s] by (auto simp: one_decision_def split: list.splits)
  with Cons show ?case by (cases x) (simp add: audits_append)
qed (simp add: audits_def)

section \<open>Properties\<close>

text \<open>
  C10. The audit stream is unforgeable: whatever bytes requests, peers and names put into the records,
  the stream read line by line has exactly one record per decision, each with the fields that were
  written, in their order and with their values (bytes that are not UTF-8 read as U+FFFD), and
  none besides; a series of requests leaves as many lines as there were requests.
\<close>

theorem audit_stream_unforgeable:
  "output_records (audit_output es) = map (\<lambda>r. Some (map (apsnd to_valid) (record_fields r))) (audits es)
   \<and> length (output_records (audit_output (concat (map (\<lambda>(h, s). dispatch b lib h s) requests))))
       = length requests"
  by (simp add: audit_output_def output_records_lines read_record_line length_audits_requests)

end
