(* ===== verification/Task_Group.thy ===== *)
theory Task_Group
  imports Prelude
begin

text \<open>
  Goroutines that end together. A function of the program that starts several of them, stops all when
  one ends or its context is cancelled, and returns when all have ended, is a step relation with a
  stopping condition. Some of its steps are its own, others need something from outside: a peer that
  sends or fails, a cancelled context. What it promises is that stopping is never taken back, that every
  step taken while stopping brings the end closer, whoever causes it, and that until it has returned it
  always has a next step of its own. That every run then ends, and within how many steps, is proved here
  once.
\<close>

locale task_group =
  fixes own :: "'s \<Rightarrow> 's \<Rightarrow> bool"
    and step :: "'s \<Rightarrow> 's \<Rightarrow> bool"
    and valid :: "'s \<Rightarrow> bool"
    and stopping :: "'s \<Rightarrow> bool"
    and returned :: "'s \<Rightarrow> bool"
    and left :: "'s \<Rightarrow> nat"
  assumes own_step: "own s s' \<Longrightarrow> step s s'"
    and valid_kept: "step s s' \<Longrightarrow> valid s \<Longrightarrow> valid s'"
    and closer: "step s s' \<Longrightarrow> valid s \<Longrightarrow> stopping s \<Longrightarrow> stopping s' \<and> left s' < left s"
    and never_stuck: "valid s \<Longrightarrow> stopping s \<Longrightarrow> \<not> returned s \<Longrightarrow> \<exists>s'. own s s'"
begin

lemma valid_later: "step\<^sup>*\<^sup>* s s' \<Longrightarrow> valid s \<Longrightarrow> valid s'"
  by (induction rule: rtranclp_induct) (auto intro: valid_kept)

lemma own_later: "own\<^sup>*\<^sup>* s s' \<Longrightarrow> step\<^sup>*\<^sup>* s s'"
  by (induction rule: rtranclp_induct) (auto intro: own_step rtranclp.rtrancl_into_rtrancl)

lemma steps_bounded:
  "(step ^^ n) s s' \<Longrightarrow> valid s \<Longrightarrow> stopping s \<Longrightarrow> valid s' \<and> stopping s' \<and> n + left s' \<le> left s"
proof (induction n arbitrary: s')
  case (Suc n)
  then obtain t where t: "(step ^^ n) s t" "step t s'" by auto
  with Suc have "valid t" "stopping t" "n + left t \<le> left s" by auto
  with valid_kept [OF t(2)] closer [OF t(2)] show ?case by fastforce
qed simp

text \<open>
  However the steps are taken, there are at most \<open>left s\<close> of them, and when no step of its own is left it
  has returned.
\<close>

lemma ends:
  assumes "(step ^^ n) s s'" and "valid s" and "stopping s"
  shows "n \<le> left s \<and> ((\<nexists>s''. own s' s'') \<longrightarrow> returned s')"
  using steps_bounded [OF assms] never_stuck [of s'] by auto

lemma returns:
  assumes "valid s" and "stopping s"
  shows "\<exists>s'. own\<^sup>*\<^sup>* s s' \<and> returned s'"
  using assms
proof (induction "left s" arbitrary: s rule: less_induct)
  case less
  show ?case
  proof (cases "returned s")
    case False
    then obtain t where t: "own s t" using never_stuck less.prems by blast
    note step = own_step [OF t]
    with less.hyps [of t] closer [OF step] valid_kept [OF step] t less.prems show ?thesis
      by (meson converse_rtranclp_into_rtranclp)
  qed blast
qed

end

end
