(* ===== verification/Tcp_Relay.thy ===== *)
theory Tcp_Relay
  imports Task_Group
begin

text \<open>
  Byte relays: the two-way copies of sdk/pkg/tun2connect/relay.go, of the boundary (relay in
  sdk/cmd/connect-proxy/main.go), and of the fixtures under scenarios/cmd. They copy both directions
  concurrently and differ in what follows the end of one copy: a half-close of the other side, a close
  of everything, or nothing, and in when the tunnel is torn down. A direction is the bytes still to come
  from its source and those handed to its destination; \<open>io.Copy\<close> moves any non-empty chunk at a time. The
  step relation interleaves the two goroutines, failures and the closing of the tunnel from outside
  (a cancelled context or the idle watch).
\<close>

datatype finish_action = HalfClose | CloseBoth | LeaveOpen

record relay_kind =
  rk_after_up :: finish_action
  rk_after_down :: finish_action
  rk_over :: "bool \<Rightarrow> bool \<Rightarrow> bool"

text \<open>
  \<open>relay\<close> of tun2connect between the guest and the upstream connection: whether each side has
  \<open>CloseWrite\<close> decides what follows its copy, and both copies are awaited.
\<close>

definition sdk_relay :: "bool \<Rightarrow> bool \<Rightarrow> relay_kind" where
  "sdk_relay guest_cw upstream_cw =
     \<lparr>rk_after_up = (if upstream_cw then HalfClose else CloseBoth),
      rk_after_down = (if guest_cw then HalfClose else CloseBoth), rk_over = (\<lambda>up down. up \<and> down)\<rparr>"

text \<open>
  The boundary's \<open>relay\<close>: client to upstream with a half-close, and the tunnel is over when the upstream
  side has ended, which closes both connections in the deferred calls of the handler. Closing an upstream
  connection that cannot half-close ends the other copy, and with it the handler, in the same way.
\<close>

definition boundary_relay :: "bool \<Rightarrow> relay_kind" where
  "boundary_relay upstream_cw =
     \<lparr>rk_after_up = (if upstream_cw then HalfClose else CloseBoth), rk_after_down = LeaveOpen,
      rk_over = (\<lambda>up down. down)\<rparr>"

text \<open>The vsock forwarder half-closes TCP connections only; the fixture boundary ends with either copy.\<close>

definition bridge_relay :: "bool \<Rightarrow> bool \<Rightarrow> relay_kind" where
  "bridge_relay c1_tcp c2_tcp =
     \<lparr>rk_after_up = (if c2_tcp then HalfClose else LeaveOpen),
      rk_after_down = (if c1_tcp then HalfClose else LeaveOpen), rk_over = (\<lambda>up down. up \<and> down)\<rparr>"

definition fixture_relay :: relay_kind where
  "fixture_relay = \<lparr>rk_after_up = LeaveOpen, rk_after_down = LeaveOpen, rk_over = (\<lambda>up down. up \<or> down)\<rparr>"

record direction =
  d_pending :: bytes
  d_sent :: bytes
  d_ended :: bool
  d_half :: bool

record tunnel =
  t_up :: direction
  t_down :: direction
  t_closed :: bool
  t_broken :: bool

definition new_direction :: "bytes \<Rightarrow> direction" where
  "new_direction bs = \<lparr>d_pending = bs, d_sent = [], d_ended = False, d_half = False\<rparr>"

definition new_tunnel :: "bytes \<Rightarrow> bytes \<Rightarrow> tunnel" where
  "new_tunnel up down =
     \<lparr>t_up = new_direction up, t_down = new_direction down, t_closed = False, t_broken = False\<rparr>"

text \<open>A chunk moves; a copy returns and its action follows.\<close>

definition move_chunk :: "nat \<Rightarrow> direction \<Rightarrow> direction" where
  "move_chunk n d = d\<lparr>d_sent := d_sent d @ take n (d_pending d), d_pending := drop n (d_pending d)\<rparr>"

definition end_copy :: "finish_action \<Rightarrow> direction \<Rightarrow> direction" where
  "end_copy action d = d\<lparr>d_ended := True, d_half := (d_half d \<or> action = HalfClose)\<rparr>"

definition closes :: "finish_action \<Rightarrow> bool" where
  "closes action = (action = CloseBoth)"

definition finish_up :: "relay_kind \<Rightarrow> tunnel \<Rightarrow> tunnel" where
  "finish_up k t = t\<lparr>t_up := end_copy (rk_after_up k) (t_up t),
                     t_closed := (t_closed t \<or> closes (rk_after_up k))\<rparr>"

definition finish_down :: "relay_kind \<Rightarrow> tunnel \<Rightarrow> tunnel" where
  "finish_down k t = t\<lparr>t_down := end_copy (rk_after_down k) (t_down t),
                       t_closed := (t_closed t \<or> closes (rk_after_down k))\<rparr>"

inductive tunnel_step :: "relay_kind \<Rightarrow> tunnel \<Rightarrow> tunnel \<Rightarrow> bool" for k :: relay_kind where
  copy_up: "\<not> t_closed t \<Longrightarrow> \<not> d_ended (t_up t) \<Longrightarrow> 0 < n \<Longrightarrow> n \<le> length (d_pending (t_up t))
    \<Longrightarrow> tunnel_step k t (t\<lparr>t_up := move_chunk n (t_up t)\<rparr>)"
| copy_down: "\<not> t_closed t \<Longrightarrow> \<not> d_ended (t_down t) \<Longrightarrow> 0 < n \<Longrightarrow> n \<le> length (d_pending (t_down t))
    \<Longrightarrow> tunnel_step k t (t\<lparr>t_down := move_chunk n (t_down t)\<rparr>)"
| eof_up: "\<not> t_closed t \<Longrightarrow> \<not> d_ended (t_up t) \<Longrightarrow> d_pending (t_up t) = [] \<Longrightarrow> tunnel_step k t (finish_up k t)"
| eof_down: "\<not> t_closed t \<Longrightarrow> \<not> d_ended (t_down t) \<Longrightarrow> d_pending (t_down t) = []
    \<Longrightarrow> tunnel_step k t (finish_down k t)"
| fail_up: "\<not> t_closed t \<Longrightarrow> \<not> d_ended (t_up t) \<Longrightarrow> tunnel_step k t ((finish_up k t)\<lparr>t_broken := True\<rparr>)"
| fail_down: "\<not> t_closed t \<Longrightarrow> \<not> d_ended (t_down t) \<Longrightarrow> tunnel_step k t ((finish_down k t)\<lparr>t_broken := True\<rparr>)"
| cut_up: "t_closed t \<Longrightarrow> \<not> d_ended (t_up t) \<Longrightarrow> tunnel_step k t (finish_up k t)"
| cut_down: "t_closed t \<Longrightarrow> \<not> d_ended (t_down t) \<Longrightarrow> tunnel_step k t (finish_down k t)"
| stopped: "\<not> t_closed t \<Longrightarrow> tunnel_step k t (t\<lparr>t_closed := True, t_broken := True\<rparr>)"
| over: "\<not> t_closed t \<Longrightarrow> rk_over k (d_ended (t_up t)) (d_ended (t_down t))
    \<Longrightarrow> tunnel_step k t (t\<lparr>t_closed := True\<rparr>)"

inductive_cases tunnel_stepE: "tunnel_step k t t'"

definition tunnel_later :: "relay_kind \<Rightarrow> tunnel \<Rightarrow> tunnel \<Rightarrow> bool" where
  "tunnel_later k = (tunnel_step k)\<^sup>*\<^sup>*"

lemmas relay_step_defs = move_chunk_def end_copy_def closes_def finish_up_def finish_down_def

section \<open>No byte is lost, duplicated or reordered\<close>

definition carries :: "bytes \<Rightarrow> direction \<Rightarrow> bool" where
  "carries bs d = (d_sent d @ d_pending d = bs)"

lemma step_carries:
  "tunnel_step k t t' \<Longrightarrow> carries xs (t_up t) \<Longrightarrow> carries ys (t_down t)
    \<Longrightarrow> carries xs (t_up t') \<and> carries ys (t_down t')"
  by (elim tunnel_stepE) (auto simp: carries_def relay_step_defs)

lemma later_carries:
  assumes "tunnel_later k (new_tunnel xs ys) t"
  shows "carries xs (t_up t) \<and> carries ys (t_down t)"
  using assms unfolding tunnel_later_def
proof (induction rule: rtranclp_induct)
  case base
  show ?case by (simp add: carries_def new_tunnel_def new_direction_def)
next
  case (step t t')
  with step_carries show ?case by blast
qed

section \<open>Half-closes are complete\<close>

text \<open>
  In a tunnel that nothing has broken: a copy that ended while the tunnel was open has moved everything.
  Until it is closed, the ended directions are exactly the complete ones; a closed one is over.
\<close>

definition complete :: "direction \<Rightarrow> bool" where
  "complete d = (d_ended d \<and> d_pending d = [])"

text \<open>Why an unbroken tunnel is closed: a copy that closes both ended, or the copies the relay waits for.\<close>

definition closing_reason :: "relay_kind \<Rightarrow> tunnel \<Rightarrow> bool" where
  "closing_reason k t =
     (rk_after_up k = CloseBoth \<and> complete (t_up t) \<or> rk_after_down k = CloseBoth \<and> complete (t_down t)
      \<or> (\<exists>up down. rk_over k up down \<and> (up \<longrightarrow> complete (t_up t)) \<and> (down \<longrightarrow> complete (t_down t))))"

definition orderly :: "relay_kind \<Rightarrow> tunnel \<Rightarrow> bool" where
  "orderly k t =
     (t_broken t
      \<or> (if t_closed t then closing_reason k t
         else (d_ended (t_up t) \<longrightarrow> complete (t_up t)) \<and> (d_ended (t_down t) \<longrightarrow> complete (t_down t))))"

lemma complete_end_copy [simp]: "complete (end_copy a d) \<longleftrightarrow> d_pending d = []"
  by (simp add: complete_def end_copy_def)

lemma step_orderly: "tunnel_step k t t' \<Longrightarrow> orderly k t \<Longrightarrow> orderly k t'"
proof (induction rule: tunnel_step.induct)
  case (over t)
  then have "t_broken t \<or> closing_reason k (t\<lparr>t_closed := True\<rparr>)"
    unfolding orderly_def closing_reason_def by auto
  then show ?case by (simp add: orderly_def)
next
  case (cut_up t)
  then show ?case
    by (auto simp: orderly_def closing_reason_def finish_up_def complete_def end_copy_def)
next
  case (cut_down t)
  then show ?case
    by (auto simp: orderly_def closing_reason_def finish_down_def complete_def end_copy_def)
qed (auto simp: orderly_def closing_reason_def relay_step_defs complete_def)

lemma later_orderly: "tunnel_later k (new_tunnel xs ys) t \<Longrightarrow> orderly k t"
  unfolding tunnel_later_def
proof (induction rule: rtranclp_induct)
  case base
  show ?case by (simp add: orderly_def new_tunnel_def new_direction_def)
next
  case (step t t')
  with step_orderly show ?case by blast
qed

definition half_exact :: "relay_kind \<Rightarrow> tunnel \<Rightarrow> bool" where
  "half_exact k t =
     ((d_half (t_up t) \<longleftrightarrow> d_ended (t_up t) \<and> rk_after_up k = HalfClose)
      \<and> (d_half (t_down t) \<longleftrightarrow> d_ended (t_down t) \<and> rk_after_down k = HalfClose))"

lemma later_half_exact: "tunnel_later k (new_tunnel xs ys) t \<Longrightarrow> half_exact k t"
  unfolding tunnel_later_def
proof (induction rule: rtranclp_induct)
  case base
  show ?case by (simp add: half_exact_def new_tunnel_def new_direction_def)
next
  case (step t t')
  from step.hyps(2) step.IH show ?case
    by (elim tunnel_stepE) (auto simp: half_exact_def relay_step_defs)
qed

lemma complete_sent: "carries bs d \<Longrightarrow> complete d \<Longrightarrow> d_sent d = bs"
  by (simp add: carries_def complete_def)

lemma complete_kept:
  assumes "tunnel_later k (new_tunnel xs ys) t0" and "tunnel_later k t0 t" and "\<not> t_broken t0" and "\<not> t_closed t0"
  shows "(d_half (t_up t0) \<longrightarrow> d_sent (t_up t) = xs) \<and> (d_half (t_down t0) \<longrightarrow> d_sent (t_down t) = ys)"
proof -
  note inv = later_carries [OF assms(1)] later_orderly [OF assms(1)] later_half_exact [OF assms(1)]
  have gone: "(d_half (t_up t0) \<longrightarrow> d_pending (t_up t0) = []) \<and> (d_half (t_down t0) \<longrightarrow> d_pending (t_down t0) = [])"
    using assms(3,4) inv(2,3) by (auto simp: orderly_def half_exact_def complete_def)
  have "(d_pending (t_up t0) = [] \<longrightarrow> d_pending (t_up t) = []) \<and> (d_pending (t_down t0) = [] \<longrightarrow> d_pending (t_down t) = [])"
    using assms(2) unfolding tunnel_later_def
  proof (induction rule: rtranclp_induct)
    case (step t t')
    from step.hyps(2) step.IH show ?case by (elim tunnel_stepE) (auto simp: relay_step_defs)
  qed simp
  moreover have "tunnel_later k (new_tunnel xs ys) t" using assms(1,2) by (simp add: tunnel_later_def)
  from later_carries [OF this] have "carries xs (t_up t)" "carries ys (t_down t)" by auto
  ultimately show ?thesis using gone by (auto simp: carries_def)
qed

text \<open>
  C20. What a relayed tunnel delivers. At any moment each side has received, in order, exactly a prefix of
  what the other sent, whatever failed. A side that was half-closed while the tunnel was open and nothing
  had failed has received everything, and keeps it whatever happens later. When the sdk relay between
  connections that can half-close is torn down without a failure, both sides have received everything
  and a half-close. When the boundary tears a tunnel down without a failure, the client has received all
  of the upstream's bytes, or the upstream cannot half-close and has received all of the client's; the
  rest of the client's bytes may then be cut off.
\<close>

theorem relay_transparent:
  assumes "tunnel_later k (new_tunnel xs ys) t0" and "tunnel_later k t0 t"
  shows "(\<exists>rest. xs = d_sent (t_up t) @ rest) \<and> (\<exists>rest. ys = d_sent (t_down t) @ rest)
    \<and> (\<not> t_broken t0 \<and> \<not> t_closed t0 \<longrightarrow>
         (d_half (t_up t0) \<longrightarrow> d_sent (t_up t) = xs) \<and> (d_half (t_down t0) \<longrightarrow> d_sent (t_down t) = ys))
    \<and> (k = sdk_relay True True \<and> t_closed t \<and> \<not> t_broken t \<longrightarrow>
         d_sent (t_up t) = xs \<and> d_sent (t_down t) = ys \<and> d_half (t_up t) \<and> d_half (t_down t))
    \<and> (k = boundary_relay upstream_cw \<and> t_closed t \<and> \<not> t_broken t \<longrightarrow>
         d_sent (t_down t) = ys \<or> \<not> upstream_cw \<and> d_sent (t_up t) = xs)"
proof -
  have later: "tunnel_later k (new_tunnel xs ys) t" using assms by (simp add: tunnel_later_def)
  note inv = later_carries [OF later] later_orderly [OF later] later_half_exact [OF later]
  have prefixes: "\<exists>rest. xs = d_sent (t_up t) @ rest" "\<exists>rest. ys = d_sent (t_down t) @ rest"
    using inv(1) by (auto simp: carries_def)
  have sdk: "d_sent (t_up t) = xs \<and> d_sent (t_down t) = ys \<and> d_half (t_up t) \<and> d_half (t_down t)"
    if "k = sdk_relay True True" "t_closed t" "\<not> t_broken t"
  proof -
    from that inv(2) have "complete (t_up t)" "complete (t_down t)"
      by (auto simp: orderly_def closing_reason_def sdk_relay_def)
    with inv that(1) complete_sent show ?thesis
      by (auto simp: half_exact_def sdk_relay_def complete_def)
  qed
  have boundary: "d_sent (t_down t) = ys \<or> \<not> upstream_cw \<and> d_sent (t_up t) = xs"
    if "k = boundary_relay upstream_cw" "t_closed t" "\<not> t_broken t"
  proof -
    from that inv(2) have "complete (t_down t) \<or> \<not> upstream_cw \<and> complete (t_up t)"
      by (auto simp: orderly_def closing_reason_def boundary_relay_def split: if_splits)
    with inv(1) complete_sent show ?thesis by blast
  qed
  from prefixes complete_kept [OF assms] sdk boundary show ?thesis by blast
qed

text \<open>A client that sends nothing and ends: the upstream is half-closed with everything it was sent.\<close>

theorem relay_transparent_witness:
  "let t = finish_up (boundary_relay True) (new_tunnel [] [3]) in
     d_half (t_up t) \<and> d_sent (t_up t) = [] \<and> (\<exists>rest. [3] = d_sent (t_down t) @ rest)"
proof -
  let ?k = "boundary_relay True" and ?s = "new_tunnel [] [3]"
  let ?t = "finish_up ?k ?s"
  note eval = new_tunnel_def new_direction_def finish_up_def end_copy_def closes_def boundary_relay_def
  have "tunnel_step ?k ?s ?t" by (rule eof_up) (simp_all add: eval)
  then have "tunnel_later ?k ?s ?t" "tunnel_later ?k ?t ?t" by (simp_all add: tunnel_later_def)
  note relay_transparent [OF this, of True]
  moreover have "d_half (t_up ?t)" "\<not> t_broken ?t" "\<not> t_closed ?t" by (simp_all add: eval)
  ultimately show ?thesis by (simp add: Let_def)
qed

section \<open>Relays end\<close>

definition work_left :: "tunnel \<Rightarrow> nat" where
  "work_left t = length (d_pending (t_up t)) + length (d_pending (t_down t))
     + (if d_ended (t_up t) then 0 else 1) + (if d_ended (t_down t) then 0 else 1)
     + (if t_closed t then 0 else 1)"

lemma step_work_left: "tunnel_step k t t' \<Longrightarrow> work_left t' < work_left t"
  by (elim tunnel_stepE) (auto simp: work_left_def relay_step_defs)

definition torn_down :: "tunnel \<Rightarrow> bool" where
  "torn_down t = (t_closed t \<and> d_ended (t_up t) \<and> d_ended (t_down t))"

text \<open>
  Peers that answer. The end of a stream is the peer's to send, and many peers send theirs only when they
  have seen the other's: a server that reads its request to the end, a client that reads the answer to the
  end. Such a peer ends its stream only after the relay has half-closed it. These are the steps of a
  relay between two peers, each of which waits in this way or does not, when nothing more fails.
\<close>

inductive peer_step :: "relay_kind \<Rightarrow> bool \<Rightarrow> bool \<Rightarrow> tunnel \<Rightarrow> tunnel \<Rightarrow> bool"
  for k :: relay_kind and up_waits down_waits :: bool where
  sends_up: "\<not> t_closed t \<Longrightarrow> \<not> d_ended (t_up t) \<Longrightarrow> 0 < n \<Longrightarrow> n \<le> length (d_pending (t_up t))
    \<Longrightarrow> peer_step k up_waits down_waits t (t\<lparr>t_up := move_chunk n (t_up t)\<rparr>)"
| sends_down: "\<not> t_closed t \<Longrightarrow> \<not> d_ended (t_down t) \<Longrightarrow> 0 < n \<Longrightarrow> n \<le> length (d_pending (t_down t))
    \<Longrightarrow> peer_step k up_waits down_waits t (t\<lparr>t_down := move_chunk n (t_down t)\<rparr>)"
| ends_up: "\<not> t_closed t \<Longrightarrow> \<not> d_ended (t_up t) \<Longrightarrow> d_pending (t_up t) = [] \<Longrightarrow> up_waits \<longrightarrow> d_half (t_down t)
    \<Longrightarrow> peer_step k up_waits down_waits t (finish_up k t)"
| ends_down: "\<not> t_closed t \<Longrightarrow> \<not> d_ended (t_down t) \<Longrightarrow> d_pending (t_down t) = [] \<Longrightarrow> down_waits \<longrightarrow> d_half (t_up t)
    \<Longrightarrow> peer_step k up_waits down_waits t (finish_down k t)"
| unblocks_up: "t_closed t \<Longrightarrow> \<not> d_ended (t_up t) \<Longrightarrow> peer_step k up_waits down_waits t (finish_up k t)"
| unblocks_down: "t_closed t \<Longrightarrow> \<not> d_ended (t_down t) \<Longrightarrow> peer_step k up_waits down_waits t (finish_down k t)"
| tears_down: "\<not> t_closed t \<Longrightarrow> rk_over k (d_ended (t_up t)) (d_ended (t_down t))
    \<Longrightarrow> peer_step k up_waits down_waits t (t\<lparr>t_closed := True\<rparr>)"

inductive_cases peer_stepE: "peer_step k up_waits down_waits t t'"

lemma peer_step_tunnel: "peer_step k wu wd t t' \<Longrightarrow> tunnel_step k t t' \<and> t_broken t' = t_broken t"
proof -
  have same: "t_broken (finish_up k t) = t_broken t" "t_broken (finish_down k t) = t_broken t"
    by (simp_all add: finish_up_def finish_down_def)
  show "peer_step k wu wd t t' \<Longrightarrow> tunnel_step k t t' \<and> t_broken t' = t_broken t"
    by (elim peer_stepE; hypsubst; simp add: same tunnel_step.intros)
qed

text \<open>
  A relay passes the end of a stream on when the other peer learns of it, by a half-close, by a close, or
  because the relay is then over.
\<close>

definition passes_ends_on :: "relay_kind \<Rightarrow> bool" where
  "passes_ends_on k =
     (rk_over k True True \<and> (rk_after_up k = LeaveOpen \<longrightarrow> rk_over k True False)
      \<and> (rk_after_down k = LeaveOpen \<longrightarrow> rk_over k False True))"

definition ends_noted :: "relay_kind \<Rightarrow> tunnel \<Rightarrow> bool" where
  "ends_noted k t =
     (half_exact k t \<and> (d_ended (t_up t) \<and> rk_after_up k = CloseBoth \<longrightarrow> t_closed t)
      \<and> (d_ended (t_down t) \<and> rk_after_down k = CloseBoth \<longrightarrow> t_closed t))"

lemma step_ends_noted: "tunnel_step k t t' \<Longrightarrow> ends_noted k t \<Longrightarrow> ends_noted k t'"
  by (elim tunnel_stepE) (auto simp: ends_noted_def half_exact_def relay_step_defs)

lemma later_ends_noted: "tunnel_later k (new_tunnel xs ys) t \<Longrightarrow> ends_noted k t"
  unfolding tunnel_later_def
proof (induction rule: rtranclp_induct)
  case base
  show ?case by (simp add: ends_noted_def half_exact_def new_tunnel_def new_direction_def)
next
  case (step t t')
  with step_ends_noted show ?case by blast
qed

lemma may_send:
  assumes "\<not> t_closed t"
  shows "\<not> d_ended (t_up t) \<Longrightarrow> wu \<longrightarrow> d_half (t_down t) \<Longrightarrow> \<exists>t'. peer_step k wu wd t t'"
    and "\<not> d_ended (t_down t) \<Longrightarrow> wd \<longrightarrow> d_half (t_up t) \<Longrightarrow> \<exists>t'. peer_step k wu wd t t'"
proof -
  have one: "xs \<noteq> [] \<Longrightarrow> 1 \<le> length xs" for xs :: bytes by (cases xs) auto
  show "\<exists>t'. peer_step k wu wd t t'" if "\<not> d_ended (t_up t)" "wu \<longrightarrow> d_half (t_down t)"
    using ends_up [OF assms that(1) _ that(2)] sends_up [OF assms that(1) zero_less_one one] by blast
  show "\<exists>t'. peer_step k wu wd t t'" if "\<not> d_ended (t_down t)" "wd \<longrightarrow> d_half (t_up t)"
    using ends_down [OF assms that(1) _ that(2)] sends_down [OF assms that(1) zero_less_one one] by blast
qed

lemma relay_progress:
  assumes "passes_ends_on k" and "\<not> (wu \<and> wd)" and "ends_noted k t" and "\<not> torn_down t"
  shows "\<exists>t'. peer_step k wu wd t t'"
proof (cases "t_closed t")
  case True
  with assms(4) show ?thesis by (auto simp: torn_down_def intro: unblocks_up unblocks_down)
next
  case False
  consider "d_ended (t_up t)" "d_ended (t_down t)" | "d_ended (t_up t)" "\<not> d_ended (t_down t)"
    | "\<not> d_ended (t_up t)" "d_ended (t_down t)" | "\<not> d_ended (t_up t)" "\<not> d_ended (t_down t)" by blast
  then show ?thesis
  proof cases
    case 1
    with False assms(1) tears_down [OF False, of k] show ?thesis by (auto simp: passes_ends_on_def)
  next
    case 2
    with False assms(3) have "rk_after_up k = HalfClose \<and> d_half (t_up t) \<or> rk_after_up k = LeaveOpen"
      by (cases "rk_after_up k") (auto simp: ends_noted_def half_exact_def)
    with 2 assms(1) consider "d_half (t_up t)" | "rk_over k (d_ended (t_up t)) (d_ended (t_down t))"
      by (auto simp: passes_ends_on_def)
    with 2 may_send(2) [OF False] tears_down [OF False] show ?thesis by cases blast+
  next
    case 3
    with False assms(3) have "rk_after_down k = HalfClose \<and> d_half (t_down t) \<or> rk_after_down k = LeaveOpen"
      by (cases "rk_after_down k") (auto simp: ends_noted_def half_exact_def)
    with 3 assms(1) consider "d_half (t_down t)" | "rk_over k (d_ended (t_up t)) (d_ended (t_down t))"
      by (auto simp: passes_ends_on_def)
    with 3 may_send(1) [OF False] tears_down [OF False] show ?thesis by cases blast+
  next
    case 4
    with assms(2) may_send [OF False] show ?thesis by blast
  qed
qed

text \<open>
  A relay is a group of goroutines that is stopping from the start; its own steps are those between peers
  of which at most one waits for the other.
\<close>

interpretation relays: task_group "peer_step k wu wd" "tunnel_step k"
  "\<lambda>t. passes_ends_on k \<and> \<not> (wu \<and> wd) \<and> ends_noted k t" "\<lambda>_. True" torn_down work_left for k wu wd
proof unfold_locales
  show "peer_step k wu wd t t' \<Longrightarrow> tunnel_step k t t'" for t t' using peer_step_tunnel by blast
qed (use step_work_left relay_progress step_ends_noted in blast)+

lemma peers_later: "(peer_step k wu wd)\<^sup>*\<^sup>* t u \<Longrightarrow> tunnel_later k t u \<and> t_broken u = t_broken t"
  unfolding tunnel_later_def
  by (induction rule: rtranclp_induct) (auto dest: peer_step_tunnel intro: rtranclp.rtrancl_into_rtrancl)

lemma program_relays_pass_ends_on:
  "k \<in> {sdk_relay a b, boundary_relay b, bridge_relay True True, fixture_relay} \<Longrightarrow> passes_ends_on k"
  by (auto simp: passes_ends_on_def sdk_relay_def boundary_relay_def bridge_relay_def fixture_relay_def split: if_splits)

text \<open>
  C32. A relay between peers of which one may wait for the other ends, because it passes the end of each
  stream on. Take any relay of the program (the forwarder between TCP connections), in any state it can
  have reached with whatever failures, and two peers of which one may hold its end of stream back until
  it has been half-closed itself. A run takes at most as many steps as there are bytes still to come and
  things left to end, whatever the interleaving and whatever fails; it never gets stuck: when no step is
  left between these peers, both copies have ended and both connections are closed; and without a further
  failure it can always be run to that end.
\<close>

theorem relays_end:
  assumes "k \<in> {sdk_relay a b, boundary_relay b, bridge_relay True True, fixture_relay}"
    and "tunnel_later k (new_tunnel xs ys) t" and "\<not> (up_waits \<and> down_waits)"
  shows "((tunnel_step k ^^ n) t t' \<longrightarrow> n \<le> work_left t
      \<and> ((\<nexists>u. peer_step k up_waits down_waits t' u) \<longrightarrow> torn_down t'))
    \<and> (\<exists>u. (peer_step k up_waits down_waits)\<^sup>*\<^sup>* t u \<and> torn_down u \<and> t_broken u = t_broken t)"
proof -
  have valid: "passes_ends_on k \<and> \<not> (up_waits \<and> down_waits) \<and> ends_noted k t"
    using program_relays_pass_ends_on [OF assms(1)] later_ends_noted [OF assms(2)] assms(3) by blast
  from relays.returns [OF valid TrueI] obtain u where u: "(peer_step k up_waits down_waits)\<^sup>*\<^sup>* t u" "torn_down u"
    by blast
  from peers_later [OF u(1)] u relays.ends [OF _ valid TrueI, of n t'] show ?thesis by blast
qed

text \<open>The boundary and a server that answers when its request has ended; the request is a single byte.\<close>

theorem relays_end_witness:
  "\<exists>u. (peer_step (boundary_relay True) False True)\<^sup>*\<^sup>* (new_tunnel [1] [2]) u \<and> torn_down u \<and> \<not> t_broken u"
proof -
  have "tunnel_later (boundary_relay True) (new_tunnel [1] [2]) (new_tunnel [1] [2])" by (simp add: tunnel_later_def)
  from relays_end [OF _ this, of True True False True 0 "new_tunnel [1] [2]"] show ?thesis
    by (simp add: new_tunnel_def)
qed

text \<open>
  A relay that does not pass an end on waits for ever: the forwarder to a connection that is not TCP and
  whose peer answers when its request has ended.
\<close>

lemma bridge_waits_for_ever:
  "\<exists>t. tunnel_later (bridge_relay a False) (new_tunnel [] []) t \<and> \<not> torn_down t \<and> \<not> t_broken t
    \<and> (\<nexists>u. peer_step (bridge_relay a False) False True t u)"
proof -
  let ?k = "bridge_relay a False" and ?s = "new_tunnel [] []"
  let ?t = "finish_up ?k ?s"
  note eval = new_tunnel_def new_direction_def finish_up_def end_copy_def closes_def bridge_relay_def
  have "tunnel_step ?k ?s ?t" by (rule eof_up) (simp_all add: eval)
  then have "tunnel_later ?k ?s ?t" by (simp add: tunnel_later_def)
  moreover have "\<not> peer_step ?k False True ?t u" for u
    by (auto simp: eval elim!: peer_stepE)
  moreover have "\<not> torn_down ?t" "\<not> t_broken ?t" by (simp_all add: torn_down_def eval)
  ultimately show ?thesis by blast
qed

text \<open>
  A weaker contract: the fixture boundary may cut the upstream's answer off when the client half-closes.
\<close>

lemma fixture_truncates:
  "\<exists>t. tunnel_later fixture_relay (new_tunnel [] [1]) t \<and> t_closed t \<and> \<not> t_broken t \<and> d_sent (t_down t) = []"
proof -
  let ?t0 = "new_tunnel [] [1]"
  let ?t1 = "finish_up fixture_relay ?t0"
  have "tunnel_step fixture_relay ?t0 ?t1"
    by (rule eof_up) (simp_all add: new_tunnel_def new_direction_def)
  moreover have "tunnel_step fixture_relay ?t1 (?t1\<lparr>t_closed := True\<rparr>)"
    by (rule over) (simp_all add: new_tunnel_def new_direction_def finish_up_def end_copy_def closes_def fixture_relay_def)
  ultimately have "tunnel_later fixture_relay ?t0 (?t1\<lparr>t_closed := True\<rparr>)"
    by (simp add: tunnel_later_def)
  then show ?thesis
    by (intro exI [of _ "?t1\<lparr>t_closed := True\<rparr>"]) (simp add: finish_up_def new_tunnel_def new_direction_def)
qed

end
