(* ===== verification/Tunnel_Chain.thy ===== *)
theory Tunnel_Chain
  imports Tcp_Relay
begin

text \<open>
  A TCP flow over both ends of its tunnel at once: the adapter's relay between the guest and the tunnel,
  and the boundary's relay between the tunnel and the destination, each taking its own steps. What one
  relay writes to the tunnel is what the other still has to read, and a relay sees the end of the tunnel
  only when the other has half-closed or closed it.
\<close>

section \<open>Two relays in a row\<close>

record chain =
  ch_adapter :: tunnel
  ch_boundary :: tunnel

definition new_chain :: "bytes \<Rightarrow> bytes \<Rightarrow> chain" where
  "new_chain xs ys = \<lparr>ch_adapter = new_tunnel xs [], ch_boundary = new_tunnel [] ys\<rparr>"

definition feed_direction :: "bytes \<Rightarrow> direction \<Rightarrow> direction" where
  "feed_direction bs d = d\<lparr>d_pending := d_pending d @ bs\<rparr>"

text \<open>The bytes a step has written, and whether it is the orderly end of a copy.\<close>

definition written :: "direction \<Rightarrow> direction \<Rightarrow> bytes" where
  "written d d' = drop (length (d_sent d)) (d_sent d')"

definition orderly_end :: "tunnel \<Rightarrow> tunnel \<Rightarrow> (tunnel \<Rightarrow> direction) \<Rightarrow> bool" where
  "orderly_end t t' dir =
     (\<not> t_closed t \<and> \<not> d_ended (dir t) \<and> d_ended (dir t') \<and> t_broken t' = t_broken t)"

definition tunnel_ended :: "tunnel \<Rightarrow> (tunnel \<Rightarrow> direction) \<Rightarrow> bool" where
  "tunnel_ended t dir = (d_half (dir t) \<or> t_closed t)"

inductive chain_step :: "relay_kind \<Rightarrow> relay_kind \<Rightarrow> chain \<Rightarrow> chain \<Rightarrow> bool"
  for k1 k2 :: relay_kind where
  adapter_moves: "tunnel_step k1 t1 t1' \<Longrightarrow> orderly_end t1 t1' t_down \<longrightarrow> tunnel_ended t2 t_down
    \<Longrightarrow> chain_step k1 k2 \<lparr>ch_adapter = t1, ch_boundary = t2\<rparr>
          \<lparr>ch_adapter = t1',
           ch_boundary = t2\<lparr>t_up := feed_direction (written (t_up t1) (t_up t1')) (t_up t2)\<rparr>\<rparr>"
| boundary_moves: "tunnel_step k2 t2 t2' \<Longrightarrow> orderly_end t2 t2' t_up \<longrightarrow> tunnel_ended t1 t_up
    \<Longrightarrow> chain_step k1 k2 \<lparr>ch_adapter = t1, ch_boundary = t2\<rparr>
          \<lparr>ch_adapter = t1\<lparr>t_down := feed_direction (written (t_down t2) (t_down t2')) (t_down t1)\<rparr>,
           ch_boundary = t2'\<rparr>"

inductive_cases chain_stepE: "chain_step k1 k2 c c'"

abbreviation adapter_kind :: relay_kind where "adapter_kind \<equiv> sdk_relay True True"
abbreviation boundary_kind :: relay_kind where "boundary_kind \<equiv> boundary_relay True"

section \<open>What every step keeps\<close>

text \<open>What left the source is at the destination, in the tunnel, or still to come.\<close>

definition conserved :: "bytes \<Rightarrow> bytes \<Rightarrow> tunnel \<Rightarrow> tunnel \<Rightarrow> bool" where
  "conserved xs ys t1 t2 =
     (carries xs (t_up t1) \<and> carries (d_sent (t_up t1)) (t_up t2)
      \<and> carries ys (t_down t2) \<and> carries (d_sent (t_down t2)) (t_down t1))"

lemma step_written:
  assumes "tunnel_step k t t'"
  shows "d_sent (t_up t') = d_sent (t_up t) @ written (t_up t) (t_up t')"
    and "d_sent (t_down t') = d_sent (t_down t) @ written (t_down t) (t_down t')"
    and "d_sent (t_up t') @ d_pending (t_up t') = d_sent (t_up t) @ d_pending (t_up t)"
    and "d_sent (t_down t') @ d_pending (t_down t') = d_sent (t_down t) @ d_pending (t_down t)"
  using assms by (elim tunnel_stepE; simp add: written_def relay_step_defs)+

lemma conserved_step:
  assumes "chain_step k1 k2 \<lparr>ch_adapter = t1, ch_boundary = t2\<rparr> \<lparr>ch_adapter = t1', ch_boundary = t2'\<rparr>"
    and "conserved xs ys t1 t2"
  shows "conserved xs ys t1' t2'"
  using assms(1)
proof cases
  case adapter_moves
  note w = step_written [OF adapter_moves(3)]
  from w(1,3,4) adapter_moves(1,2) assms(2) show ?thesis
    by (auto simp: conserved_def carries_def feed_direction_def)
next
  case boundary_moves
  note w = step_written [OF boundary_moves(3)]
  from w(2,3,4) boundary_moves(1,2) assms(2) show ?thesis
    by (auto simp: conserved_def carries_def feed_direction_def)
qed

text \<open>
  While nothing fails: a copy that has ended has passed everything on, the adapter closes when both copies
  have ended and the boundary when the answers have, and a relay that has seen the end of the tunnel has
  emptied it.
\<close>

definition adapter_orderly :: "tunnel \<Rightarrow> bool" where
  "adapter_orderly t =
     (t_broken t \<or> (d_ended (t_up t) \<longrightarrow> d_pending (t_up t) = [])
        \<and> (t_closed t \<longrightarrow> d_ended (t_up t) \<and> d_ended (t_down t))
        \<and> (d_half (t_up t) \<longrightarrow> d_ended (t_up t)) \<and> (d_half (t_down t) \<longrightarrow> d_ended (t_down t)))"

definition boundary_orderly :: "tunnel \<Rightarrow> bool" where
  "boundary_orderly t =
     (t_broken t \<or> (d_ended (t_down t) \<longrightarrow> d_pending (t_down t) = [])
        \<and> (t_closed t \<longrightarrow> d_ended (t_down t)) \<and> \<not> d_half (t_down t)
        \<and> (d_half (t_up t) \<longrightarrow> d_ended (t_up t)))"

definition ends_seen :: "tunnel \<Rightarrow> tunnel \<Rightarrow> bool" where
  "ends_seen t1 t2 =
     (t_broken t1 \<or> t_broken t2
      \<or> (d_ended (t_up t2) \<and> \<not> t_closed t2 \<longrightarrow> d_ended (t_up t1) \<and> d_pending (t_up t2) = [])
        \<and> (d_ended (t_down t1) \<longrightarrow> d_ended (t_down t2) \<and> d_pending (t_down t1) = []))"

lemmas chain_defs =
  relay_step_defs adapter_orderly_def boundary_orderly_def sdk_relay_def boundary_relay_def

lemma adapter_orderly_step:
  "tunnel_step adapter_kind t t' \<Longrightarrow> adapter_orderly t \<Longrightarrow> adapter_orderly t'"
  by (elim tunnel_stepE) (auto simp: chain_defs)

lemma boundary_orderly_step:
  "tunnel_step boundary_kind t t' \<Longrightarrow> boundary_orderly t \<Longrightarrow> boundary_orderly t'"
  by (elim tunnel_stepE) (auto simp: chain_defs)

lemma fed_orderly:
  "adapter_orderly (t\<lparr>t_down := feed_direction bs (t_down t)\<rparr>) = adapter_orderly t"
  "boundary_orderly (t\<lparr>t_up := feed_direction bs (t_up t)\<rparr>) = boundary_orderly t"
  by (simp_all add: adapter_orderly_def boundary_orderly_def feed_direction_def)

lemma step_monotone:
  assumes "tunnel_step k t t'"
  shows "t_broken t \<Longrightarrow> t_broken t'" and "t_closed t \<Longrightarrow> t_closed t'"
    and "d_ended (t_up t) \<Longrightarrow> d_ended (t_up t') \<and> written (t_up t) (t_up t') = []
           \<and> d_pending (t_up t') = d_pending (t_up t)"
    and "d_ended (t_down t) \<Longrightarrow> d_ended (t_down t') \<and> written (t_down t) (t_down t') = []
           \<and> d_pending (t_down t') = d_pending (t_down t)"
  using assms by (elim tunnel_stepE; simp add: written_def relay_step_defs)+

text \<open>A copy that ends without a failure, in a tunnel that is still open, has nothing left to pass on.\<close>

lemma step_ends_down:
  assumes "tunnel_step adapter_kind t t'" and "adapter_orderly t" and "\<not> t_broken t'"
    and "\<not> d_ended (t_down t)" and "d_ended (t_down t')"
  shows "d_pending (t_down t') = [] \<and> orderly_end t t' t_down"
  using assms by (elim tunnel_stepE) (auto simp: chain_defs orderly_end_def)

lemma step_ends_up:
  assumes "tunnel_step boundary_kind t t'" and "\<not> t_broken t'" and "\<not> t_closed t'"
    and "\<not> d_ended (t_up t)" and "d_ended (t_up t')"
  shows "d_pending (t_up t') = [] \<and> orderly_end t t' t_up"
  using assms by (elim tunnel_stepE) (auto simp: chain_defs orderly_end_def)

lemma ends_seen_adapter:
  assumes "tunnel_step adapter_kind t1 t1'" and "orderly_end t1 t1' t_down \<longrightarrow> tunnel_ended t2 t_down"
    and "adapter_orderly t1" and "boundary_orderly t2" and "ends_seen t1 t2"
  shows "ends_seen t1' (t2\<lparr>t_up := feed_direction (written (t_up t1) (t_up t1')) (t_up t2)\<rparr>)"
proof (cases "t_broken t1' \<or> t_broken t2")
  case False
  then have ok: "\<not> t_broken t1" "\<not> t_broken t2" "\<not> t_broken t1'" using step_monotone(1) [OF assms(1)] by auto
  have "d_ended (t_down t2) \<and> d_pending (t_down t1') = []" if "d_ended (t_down t1')"
  proof (cases "d_ended (t_down t1)")
    case True
    with assms(5) ok step_monotone(4) [OF assms(1) True] show ?thesis by (simp add: ends_seen_def)
  next
    case False
    from step_ends_down [OF assms(1,3) ok(3) False that] assms(2,4) ok(2) show ?thesis
      by (auto simp: tunnel_ended_def boundary_orderly_def)
  qed
  moreover have "d_ended (t_up t1') \<and> d_pending (t_up t2) @ written (t_up t1) (t_up t1') = []"
    if "d_ended (t_up t2)" "\<not> t_closed t2"
    using that assms(5) ok step_monotone(3) [OF assms(1)] by (auto simp: ends_seen_def)
  ultimately show ?thesis by (auto simp: ends_seen_def feed_direction_def)
qed (auto simp: ends_seen_def)

lemma ends_seen_boundary:
  assumes "tunnel_step boundary_kind t2 t2'" and "orderly_end t2 t2' t_up \<longrightarrow> tunnel_ended t1 t_up"
    and "adapter_orderly t1" and "ends_seen t1 t2"
  shows "ends_seen (t1\<lparr>t_down := feed_direction (written (t_down t2) (t_down t2')) (t_down t1)\<rparr>) t2'"
proof (cases "t_broken t1 \<or> t_broken t2'")
  case False
  then have ok: "\<not> t_broken t1" "\<not> t_broken t2" "\<not> t_broken t2'" using step_monotone(1) [OF assms(1)] by auto
  have "d_ended (t_up t1) \<and> d_pending (t_up t2') = []" if "d_ended (t_up t2')" "\<not> t_closed t2'"
  proof (cases "d_ended (t_up t2)")
    case True
    with assms(4) ok that step_monotone(2,3) [OF assms(1)] show ?thesis by (auto simp: ends_seen_def)
  next
    case False
    from step_ends_up [OF assms(1) ok(3) that(2) False that(1)] assms(2,3) ok(1) show ?thesis
      by (auto simp: tunnel_ended_def adapter_orderly_def)
  qed
  moreover have "d_ended (t_down t2') \<and> d_pending (t_down t1) @ written (t_down t2) (t_down t2') = []"
    if "d_ended (t_down t1)"
    using that assms(4) ok step_monotone(4) [OF assms(1)] by (auto simp: ends_seen_def)
  ultimately show ?thesis by (auto simp: ends_seen_def feed_direction_def)
qed (auto simp: ends_seen_def)

definition chain_inv :: "bytes \<Rightarrow> bytes \<Rightarrow> chain \<Rightarrow> bool" where
  "chain_inv xs ys c =
     (conserved xs ys (ch_adapter c) (ch_boundary c) \<and> adapter_orderly (ch_adapter c)
      \<and> boundary_orderly (ch_boundary c) \<and> ends_seen (ch_adapter c) (ch_boundary c))"

lemma chain_inv_step:
  assumes "chain_step adapter_kind boundary_kind c c'" and "chain_inv xs ys c"
  shows "chain_inv xs ys c'"
proof -
  have "conserved xs ys (ch_adapter c') (ch_boundary c')"
    using conserved_step [of adapter_kind boundary_kind "ch_adapter c" "ch_boundary c" "ch_adapter c'"
        "ch_boundary c'" xs ys] assms by (cases c; cases c') (simp add: chain_inv_def)
  with assms show ?thesis
    by (elim chain_stepE)
       (auto simp: chain_inv_def fed_orderly adapter_orderly_step boundary_orderly_step
          ends_seen_adapter ends_seen_boundary)
qed

lemma chain_inv_later:
  "(chain_step adapter_kind boundary_kind)\<^sup>*\<^sup>* (new_chain xs ys) c \<Longrightarrow> chain_inv xs ys c"
proof (induction rule: rtranclp_induct)
  case base
  show ?case
    by (simp add: chain_inv_def new_chain_def new_tunnel_def new_direction_def conserved_def carries_def
        adapter_orderly_def boundary_orderly_def ends_seen_def)
qed (rule chain_inv_step)

section \<open>What happens when nothing fails\<close>

definition unbroken :: "chain \<Rightarrow> bool" where
  "unbroken c = (\<not> t_broken (ch_adapter c) \<and> \<not> t_broken (ch_boundary c))"

definition sound_step :: "chain \<Rightarrow> chain \<Rightarrow> bool" where
  "sound_step c c' = (chain_step adapter_kind boundary_kind c c' \<and> unbroken c')"

definition chain_down :: "chain \<Rightarrow> bool" where
  "chain_down c = (torn_down (ch_adapter c) \<and> torn_down (ch_boundary c))"

text \<open>A byte on its way into the tunnel has both relays before it.\<close>

definition chain_left :: "chain \<Rightarrow> nat" where
  "chain_left c = work_left (ch_adapter c) + work_left (ch_boundary c)
     + length (d_pending (t_up (ch_adapter c))) + length (d_pending (t_down (ch_boundary c)))"

lemma chain_left_step:
  assumes "chain_step k1 k2 c c'"
  shows "chain_left c' < chain_left c"
  using assms
proof cases
  case (adapter_moves t1 t1' t2)
  have "length (d_pending (t_up t1)) = length (written (t_up t1) (t_up t1')) + length (d_pending (t_up t1'))"
    using step_written(1,3) [OF adapter_moves(3)] by (metis add_left_cancel add.assoc length_append)
  with adapter_moves(1,2) step_work_left [OF adapter_moves(3)] show ?thesis
    by (simp add: chain_left_def work_left_def feed_direction_def)
next
  case (boundary_moves t2 t2' t1)
  have "length (d_pending (t_down t2)) = length (written (t_down t2) (t_down t2')) + length (d_pending (t_down t2'))"
    using step_written(2,4) [OF boundary_moves(3)] by (metis add_left_cancel add.assoc length_append)
  with boundary_moves(1,2) step_work_left [OF boundary_moves(3)] show ?thesis
    by (simp add: chain_left_def work_left_def feed_direction_def)
qed

text \<open>
  A relay that is not torn down has a step of its own, without a failure, unless it waits for the end of
  the tunnel: its other copy has ended, or it is over.
\<close>

lemma adapter_progress:
  assumes "\<not> torn_down t"
  shows "(\<exists>t'. tunnel_step adapter_kind t t' \<and> t_broken t' = t_broken t \<and> \<not> orderly_end t t' t_down)
    \<or> (\<not> t_closed t \<and> d_ended (t_up t) \<and> \<not> d_ended (t_down t) \<and> tunnel_step adapter_kind t (finish_down adapter_kind t))"
proof (cases "t_closed t")
  case True
  with assms consider "\<not> d_ended (t_up t)" | "\<not> d_ended (t_down t)" by (auto simp: torn_down_def)
  then show ?thesis
    using True cut_up [of t adapter_kind] cut_down [of t adapter_kind]
    by cases (auto simp: finish_up_def finish_down_def orderly_end_def intro!: exI disjI1)
next
  case False
  note copy = copy_up [OF False, of "length (d_pending (t_up t))" adapter_kind]
    copy_down [OF False, of "length (d_pending (t_down t))" adapter_kind]
  note ends = eof_up [OF False, of adapter_kind] eof_down [OF False, of adapter_kind]
    over [OF False, of adapter_kind]
  show ?thesis
  proof (cases "d_ended (t_up t)")
    case up: True
    show ?thesis
    proof (cases "d_ended (t_down t) \<or> d_pending (t_down t) = []")
      case True
      with False up ends(2,3) show ?thesis by (cases "d_ended (t_down t)") (auto simp: orderly_end_def sdk_relay_def intro!: exI)
    next
      case more: False
      with copy(2) show ?thesis by (intro disjI1 exI) (auto simp: orderly_end_def move_chunk_def)
    qed
  next
    case up: False
    show ?thesis
    proof (cases "d_pending (t_up t) = []")
      case True
      with ends(1) up show ?thesis by (intro disjI1 exI) (auto simp: orderly_end_def finish_up_def)
    next
      case more: False
      with copy(1) up show ?thesis by (intro disjI1 exI) (auto simp: orderly_end_def)
    qed
  qed
qed

lemma boundary_progress:
  assumes "\<not> torn_down t"
  shows "\<exists>t'. tunnel_step boundary_kind t t' \<and> t_broken t' = t_broken t \<and> \<not> orderly_end t t' t_up"
proof (cases "t_closed t")
  case True
  with assms consider "\<not> d_ended (t_up t)" | "\<not> d_ended (t_down t)" by (auto simp: torn_down_def)
  then show ?thesis
    using True cut_up [of t boundary_kind] cut_down [of t boundary_kind]
    by cases (auto simp: finish_up_def finish_down_def orderly_end_def intro!: exI)
next
  case False
  show ?thesis
  proof (cases "d_ended (t_down t)")
    case True
    with over [OF False, of boundary_kind] show ?thesis
      by (intro exI) (auto simp: orderly_end_def boundary_relay_def)
  next
    case down: False
    show ?thesis
    proof (cases "d_pending (t_down t) = []")
      case True
      with eof_down [OF False down, of boundary_kind] show ?thesis
        by (intro exI) (auto simp: orderly_end_def finish_down_def)
    next
      case more: False
      with copy_down [OF False down, of "length (d_pending (t_down t))" boundary_kind] show ?thesis
        by (intro exI) (auto simp: orderly_end_def)
    qed
  qed
qed

lemma chain_never_stuck:
  assumes "unbroken c" and "\<not> chain_down c"
  shows "\<exists>c'. sound_step c c'"
proof -
  obtain t1 t2 where c: "c = \<lparr>ch_adapter = t1, ch_boundary = t2\<rparr>" by (cases c)
  have adapter: "\<exists>c'. sound_step c c'"
    if "tunnel_step adapter_kind t1 t" "t_broken t = t_broken t1" "orderly_end t1 t t_down \<longrightarrow> tunnel_ended t2 t_down" for t
    using adapter_moves [OF that(1,3), of boundary_kind] that(2) assms(1) c
    by (auto simp: sound_step_def unbroken_def)
  have boundary: "\<exists>c'. sound_step c c'" if up: "\<not> torn_down t2"
  proof -
    obtain t where t: "tunnel_step boundary_kind t2 t" "t_broken t = t_broken t2" "\<not> orderly_end t2 t t_up"
      using boundary_progress [OF up] by blast
    then have "orderly_end t2 t t_up \<longrightarrow> tunnel_ended t1 t_up" by blast
    from boundary_moves [OF t(1) this, of adapter_kind] t(2) assms(1) c show ?thesis
      by (auto simp: sound_step_def unbroken_def)
  qed
  show ?thesis
  proof (cases "torn_down t2")
    case True
    with assms(2) c have "\<not> torn_down t1" by (simp add: chain_down_def)
    from adapter_progress [OF this] show ?thesis
    proof (elim disjE exE conjE)
      fix t assume "tunnel_step adapter_kind t1 t" "t_broken t = t_broken t1" "\<not> orderly_end t1 t t_down"
      then show ?thesis using adapter by blast
    next
      assume "tunnel_step adapter_kind t1 (finish_down adapter_kind t1)"
      then show ?thesis using adapter True by (simp add: tunnel_ended_def torn_down_def finish_down_def)
    qed
  qed (use boundary in blast)
qed

interpretation chains: task_group sound_step sound_step "\<lambda>c. chain_inv xs ys c \<and> unbroken c" "\<lambda>_. True" chain_down chain_left
  for xs ys
  by unfold_locales (use chain_inv_step chain_left_step chain_never_stuck in \<open>auto simp: sound_step_def\<close>)

lemma chain_down_delivers:
  assumes "chain_inv xs ys c" and "unbroken c" and "chain_down c"
  shows "d_sent (t_down (ch_adapter c)) = ys"
  using assms
  by (auto simp: chain_inv_def unbroken_def chain_down_def torn_down_def conserved_def carries_def
      boundary_orderly_def ends_seen_def)

section \<open>Properties\<close>

text \<open>
  C3. TCP end to end: with the adapter's relay and the boundary's at the two ends of a tunnel, in any
  interleaving of their steps and failures, the destination has at every moment received exactly an
  initial part of what the guest sent, and the guest of what the destination answered. And as long as
  neither relay failed, whichever of them sees its stream half-closed has got all of it: a half-close is
  never early across the two relays.
\<close>

theorem tcp_end_to_end:
  assumes "(chain_step adapter_kind boundary_kind)\<^sup>*\<^sup>* (new_chain xs ys) c"
  defines "guest \<equiv> t_down (ch_adapter c)" and "destination \<equiv> t_up (ch_boundary c)"
  shows "(\<exists>rest. xs = d_sent destination @ rest) \<and> (\<exists>rest. ys = d_sent guest @ rest)
    \<and> (\<not> t_broken (ch_adapter c) \<and> \<not> t_broken (ch_boundary c) \<longrightarrow>
         (d_half destination \<and> \<not> t_closed (ch_boundary c) \<longrightarrow> d_sent destination = xs)
         \<and> (d_half guest \<longrightarrow> d_sent guest = ys))"
proof -
  have inv: "chain_inv xs ys c" using chain_inv_later [OF assms(1)] .
  then have c: "conserved xs ys (ch_adapter c) (ch_boundary c)" by (simp add: chain_inv_def)
  then have "\<exists>rest. xs = d_sent destination @ rest" "\<exists>rest. ys = d_sent guest @ rest"
    unfolding conserved_def carries_def guest_def destination_def by (metis append_assoc)+
  moreover have "d_sent destination = xs"
    if "\<not> t_broken (ch_adapter c)" "\<not> t_broken (ch_boundary c)" "d_half destination" "\<not> t_closed (ch_boundary c)"
    using that inv
    by (auto simp: chain_inv_def conserved_def carries_def adapter_orderly_def boundary_orderly_def
        ends_seen_def destination_def)
  moreover have "d_sent guest = ys"
    if "\<not> t_broken (ch_adapter c)" "\<not> t_broken (ch_boundary c)" "d_half guest"
    using that inv
    by (auto simp: chain_inv_def conserved_def carries_def adapter_orderly_def boundary_orderly_def
        ends_seen_def guest_def)
  ultimately show ?thesis by blast
qed

theorem tcp_end_to_end_witness:
  "\<exists>c. (chain_step adapter_kind boundary_kind)\<^sup>*\<^sup>* (new_chain [7] []) c
     \<and> d_half (t_up (ch_boundary c)) \<and> d_sent (t_up (ch_boundary c)) = [7]"
proof -
  let ?a0 = "new_tunnel [7] []" and ?b0 = "new_tunnel [] []"
  let ?a1 = "?a0\<lparr>t_up := move_chunk 1 (t_up ?a0)\<rparr>" and ?b1 = "?b0\<lparr>t_up := feed_direction [7] (t_up ?b0)\<rparr>"
  let ?a2 = "finish_up adapter_kind ?a1" and ?b2 = "?b1\<lparr>t_up := move_chunk 1 (t_up ?b1)\<rparr>"
  let ?b3 = "finish_up boundary_kind ?b2"
  note eval = new_tunnel_def new_direction_def relay_step_defs feed_direction_def sdk_relay_def boundary_relay_def
  have w: "written (t_up ?a0) (t_up ?a1) = [7]" "written (t_up ?a1) (t_up ?a2) = []"
    "written (t_down ?b1) (t_down ?b2) = []" "written (t_down ?b2) (t_down ?b3) = []"
    by (simp_all add: written_def eval)
  have fed: "?b1\<lparr>t_up := feed_direction [] (t_up ?b1)\<rparr> = ?b1" "?a2\<lparr>t_down := feed_direction [] (t_down ?a2)\<rparr> = ?a2"
    by (simp_all add: feed_direction_def)
  have "chain_step adapter_kind boundary_kind \<lparr>ch_adapter = ?a0, ch_boundary = ?b0\<rparr> \<lparr>ch_adapter = ?a1, ch_boundary = ?b1\<rparr>"
    using adapter_moves [of adapter_kind "?a0" "?a1" "?b0" boundary_kind, OF copy_up [of ?a0 1], unfolded w] by (simp add: eval orderly_end_def)
  moreover have "chain_step adapter_kind boundary_kind \<lparr>ch_adapter = ?a1, ch_boundary = ?b1\<rparr> \<lparr>ch_adapter = ?a2, ch_boundary = ?b1\<rparr>"
    using adapter_moves [of adapter_kind "?a1" "?a2" "?b1" boundary_kind, OF eof_up [of ?a1], unfolded w fed] by (simp add: eval orderly_end_def)
  moreover have "chain_step adapter_kind boundary_kind \<lparr>ch_adapter = ?a2, ch_boundary = ?b1\<rparr> \<lparr>ch_adapter = ?a2, ch_boundary = ?b2\<rparr>"
    using boundary_moves [of boundary_kind "?b1" "?b2" "?a2" adapter_kind, OF copy_up [of ?b1 1], unfolded w fed] by (simp add: eval orderly_end_def)
  moreover have "chain_step adapter_kind boundary_kind \<lparr>ch_adapter = ?a2, ch_boundary = ?b2\<rparr> \<lparr>ch_adapter = ?a2, ch_boundary = ?b3\<rparr>"
    using boundary_moves [of boundary_kind "?b2" "?b3" "?a2" adapter_kind, OF eof_up [of ?b2], unfolded w fed] by (simp add: eval orderly_end_def tunnel_ended_def)
  ultimately have run: "(chain_step adapter_kind boundary_kind)\<^sup>*\<^sup>* (new_chain [7] []) \<lparr>ch_adapter = ?a2, ch_boundary = ?b3\<rparr>"
    unfolding new_chain_def by (meson converse_rtranclp_into_rtranclp r_into_rtranclp)
  have "\<not> t_broken ?a2" "\<not> t_broken ?b3" "d_half (t_up ?b3)" "\<not> t_closed ?b3" by (simp_all add: eval)
  with tcp_end_to_end [OF run] run show ?thesis by (intro exI [of _ "\<lparr>ch_adapter = ?a2, ch_boundary = ?b3\<rparr>"]) simp
qed

text \<open>
  C4. TCP end to end, the answer arrives. From any state of the two relays in which neither has failed, as
  long as nothing fails, every run takes at most a number of steps read off that state, whatever the
  interleaving; it stops only when both relays have closed everything, and the guest has then received the
  whole of what the destination sent. Such a run always exists.
\<close>

theorem tcp_answer_arrives:
  assumes "(chain_step adapter_kind boundary_kind)\<^sup>*\<^sup>* (new_chain xs ys) c" and "unbroken c"
  shows "((sound_step ^^ n) c c' \<longrightarrow> n \<le> chain_left c
      \<and> ((\<nexists>u. sound_step c' u) \<longrightarrow> chain_down c' \<and> d_sent (t_down (ch_adapter c')) = ys))
    \<and> (\<exists>u. sound_step\<^sup>*\<^sup>* c u \<and> chain_down u \<and> d_sent (t_down (ch_adapter u)) = ys)"
proof -
  have valid: "chain_inv xs ys c \<and> unbroken c" using chain_inv_later [OF assms(1)] assms(2) by blast
  have "n \<le> chain_left c \<and> ((\<nexists>u. sound_step c' u) \<longrightarrow> chain_down c' \<and> d_sent (t_down (ch_adapter c')) = ys)"
    if run: "(sound_step ^^ n) c c'"
    using chains.ends [OF run valid] chains.steps_bounded [OF run valid] chain_down_delivers by blast
  moreover obtain u where u: "sound_step\<^sup>*\<^sup>* c u" "chain_down u" using chains.returns [OF valid] by blast
  then have "d_sent (t_down (ch_adapter u)) = ys"
    using chains.valid_later [OF u(1) valid] chain_down_delivers by blast
  ultimately show ?thesis using u by blast
qed

theorem tcp_answer_arrives_witness:
  "\<exists>u. sound_step\<^sup>*\<^sup>* (new_chain [7] [8, 9]) u \<and> chain_down u \<and> d_sent (t_down (ch_adapter u)) = [8, 9]"
proof -
  have "unbroken (new_chain [7] [8, 9])" by (simp add: unbroken_def new_chain_def new_tunnel_def)
  from tcp_answer_arrives [OF rtranclp.rtrancl_refl this, of 0 "new_chain [7] [8, 9]"] show ?thesis by simp
qed

end
