(* ===== verification/Datagram_Relay.thy ===== *)
theory Datagram_Relay
  imports Capsule
begin

text \<open>
  UDP over a tunnel, both ends: the adapter's RelayUDP (sdk/pkg/tun2connect/forwarder.go) and the
  boundary's pumpUDP (sdk/cmd/connect-proxy/main.go). Each has a loop that turns datagrams into
  capsules and one that turns capsules into datagrams; a loop ends at the first failing read or write.
  The environment tells by the number of the write whether it succeeds.
\<close>

definition max_datagram_size :: nat where "max_datagram_size = 65535"

text \<open>
  Datagrams to capsules: a packet is read into a buffer of 65535 bytes (a longer one would be cut
  there) and written as one capsule. The result is what reaches the stream.
\<close>

fun packets_to_stream :: "(nat \<Rightarrow> bool) \<Rightarrow> nat \<Rightarrow> bytes list \<Rightarrow> bytes" where
  "packets_to_stream write_ok i [] = []"
| "packets_to_stream write_ok i (p # ps) =
     (case write_datagram (take max_datagram_size p) of
        None \<Rightarrow> []
      | Some w \<Rightarrow> if write_ok i then w @ packets_to_stream write_ok (Suc i) ps else [])"

text \<open>Capsules to datagrams: each payload is one write to the socket.\<close>

lemma read_datagram_consumes:
  "read_datagram r = Inr (p, r') \<Longrightarrow> length (unread r') < length (unread r)"
  using read_datagramD [of r p r'] by auto

function stream_to_packets :: "(nat \<Rightarrow> bool) \<Rightarrow> nat \<Rightarrow> reader \<Rightarrow> bytes list" where
  "stream_to_packets write_ok i r =
     (case read_datagram r of
        Inl e \<Rightarrow> []
      | Inr (p, r') \<Rightarrow> if write_ok i then p # stream_to_packets write_ok (Suc i) r' else [])"
  by auto

termination stream_to_packets
  by (relation "measure (\<lambda>(_, _, r). length (unread r))") (auto dest: read_datagram_consumes)

declare stream_to_packets.simps [simp del]

text \<open>The two relays, by the loops they run in each direction.\<close>

definition relay_udp_up :: "(nat \<Rightarrow> bool) \<Rightarrow> bytes list \<Rightarrow> bytes" where
  "relay_udp_up write_ok guest_packets = packets_to_stream write_ok 0 guest_packets"

definition relay_udp_down :: "(nat \<Rightarrow> bool) \<Rightarrow> reader \<Rightarrow> bytes list" where
  "relay_udp_down write_ok session = stream_to_packets write_ok 0 session"

definition pump_udp_up :: "(nat \<Rightarrow> bool) \<Rightarrow> reader \<Rightarrow> bytes list" where
  "pump_udp_up write_ok capsules = stream_to_packets write_ok 0 capsules"

definition pump_udp_down :: "(nat \<Rightarrow> bool) \<Rightarrow> bytes list \<Rightarrow> bytes" where
  "pump_udp_down write_ok upstream_packets = packets_to_stream write_ok 0 upstream_packets"

section \<open>End to end\<close>

lemma packets_to_stream_fits:
  assumes "list_all datagram_fits ps"
  shows "packets_to_stream (\<lambda>_. True) i ps = concat (map (\<lambda>p. put_capsule (0, 0 # p)) ps)"
  using assms
proof (induction ps arbitrary: i)
  case (Cons p ps)
  then have "take max_datagram_size p = p" by (simp add: max_datagram_size_def datagram_fits_def)
  with Cons show ?case by (simp add: write_datagram_fits)
qed simp

lemma stream_to_packets_fits:
  assumes "list_all datagram_fits ps"
  shows "stream_to_packets (\<lambda>_. True) i (feed (concat (map (\<lambda>p. put_capsule (0, 0 # p)) ps)) r)
    = ps @ stream_to_packets (\<lambda>_. True) (i + length ps) r"
  using assms
proof (induction ps arbitrary: i)
  case (Cons p ps)
  then have "read_datagram (feed (put_capsule (0, 0 # p)
      @ concat (map (\<lambda>p. put_capsule (0, 0 # p)) ps)) r)
    = Inr (p, feed (concat (map (\<lambda>p. put_capsule (0, 0 # p)) ps)) r)"
    using datagram.get_put_append [of p] by simp
  with Cons show ?case by (subst stream_to_packets.simps) simp
qed simp

lemma stream_to_packets_end:
  "stream_to_packets write_ok i \<lparr>unread = [], ended = e\<rparr> = []"
  by (subst stream_to_packets.simps)
     (subst read_datagram.simps, simp add: read_capsule_def read_varint_def read_byte_def)

text \<open>
  C25. UDP crosses the tunnel unchanged in both directions: when the writes succeed, the datagrams a
  guest sends are exactly the datagrams the boundary sends to the destination, each with its
  boundaries and in order, and the same holds for the answers; no datagram is split, merged, altered
  or invented. Datagrams have up to 65535 bytes, the most a socket delivers.
\<close>

theorem udp_end_to_end:
  assumes "list_all datagram_fits ps"
  shows "pump_udp_up (\<lambda>_. True) \<lparr>unread = relay_udp_up (\<lambda>_. True) ps, ended = e\<rparr> = ps
    \<and> relay_udp_down (\<lambda>_. True) \<lparr>unread = pump_udp_down (\<lambda>_. True) ps, ended = e\<rparr> = ps"
  using packets_to_stream_fits [OF assms, of 0]
    stream_to_packets_fits [OF assms, of 0 "\<lparr>unread = [], ended = e\<rparr>"]
  by (simp add: relay_udp_up_def relay_udp_down_def pump_udp_up_def pump_udp_down_def feed_def
      stream_to_packets_end)

theorem udp_end_to_end_witness:
  "pump_udp_up (\<lambda>_. True) \<lparr>unread = relay_udp_up (\<lambda>_. True) [[1, 2], [], [3]], ended = StreamEOF\<rparr>
     = [[1, 2], [], [3]]"
  using udp_end_to_end [of "[[1, 2], [], [3]]" StreamEOF] by (simp add: datagram_fits_def)

text \<open>
  Whatever a peer sends on the stream, the socket gets only datagrams of at most 65535 bytes, and
  what the loop writes after a failed write is nothing: with the first failing write at number \<open>n\<close> at
  most \<open>n\<close> datagrams are sent, and together they are no longer than the stream.
\<close>

lemma udp_sends_bounded:
  "list_all datagram_fits (stream_to_packets write_ok i r)
   \<and> length (concat (stream_to_packets write_ok i r)) \<le> length (unread r)
   \<and> (\<forall>n \<ge> i. \<not> write_ok n \<longrightarrow> length (stream_to_packets write_ok i r) \<le> n - i)"
proof (induction write_ok i r rule: stream_to_packets.induct)
  case (1 write_ok i r)
  show ?case
  proof (cases "read_datagram r")
    case (Inl e)
    then show ?thesis by (subst (1 2 3) stream_to_packets.simps) simp
  next
    case (Inr x)
    obtain p r' where x: "x = (p, r')" by fastforce
    from read_datagramD [of r p r'] Inr x have p: "length p \<le> 65535"
      "length p + length (unread r') \<le> length (unread r)" by auto
    show ?thesis
    proof (cases "write_ok i")
      case False
      with Inr x show ?thesis by (subst (1 2 3) stream_to_packets.simps) simp
    next
      case True
      note IH = "1.IH" [OF Inr x [symmetric] True]
      have unfold: "stream_to_packets write_ok i r = p # stream_to_packets write_ok (Suc i) r'"
        by (subst stream_to_packets.simps) (simp add: Inr x True)
      have "length (stream_to_packets write_ok i r) \<le> n - i" if "i \<le> n" "\<not> write_ok n" for n
      proof -
        from that True have "Suc i \<le> n" by (cases "n = i") auto
        with IH that(2) have "length (stream_to_packets write_ok (Suc i) r') \<le> n - Suc i" by blast
        with \<open>Suc i \<le> n\<close> show ?thesis by (simp add: unfold)
      qed
      with IH p show ?thesis by (simp add: unfold datagram_fits_def)
    qed
  qed
qed

lemma udp_sends_bounded_witness:
  "length (stream_to_packets (\<lambda>n. n < 1) 0 \<lparr>unread = [0, 2, 0, 7, 0, 2, 0, 8], ended = StreamEOF\<rparr>) \<le> 1"
  using udp_sends_bounded [of "\<lambda>n. n < 1" 0 "\<lparr>unread = [0, 2, 0, 7, 0, 2, 0, 8], ended = StreamEOF\<rparr>"]
  by (metis diff_zero less_irrefl zero_le)

end
