(* ===== verification/Udp_Session.thy ===== *)
theory Udp_Session
  imports Task_Group Datagram_Relay "HOL-Library.Sublist"
begin

text \<open>
  One UDP session of the adapter (\<open>RelayUDP\<close> of sdk/pkg/tun2connect/forwarder.go) as a whole: its two
  loops run side by side, each closes both ends when it returns, and a cancelled context closes both from
  outside. The loop towards the boundary is also followed over time, for its idle timeout.
\<close>

section \<open>Two loops and a context\<close>

text \<open>
  A side still has its datagrams to deliver, and has taken those written to it; a session that is
  closed delivers and takes no more.
\<close>

record udp_session =
  us_from_guest :: "bytes list"
  us_to_session :: "bytes list"
  us_from_session :: "bytes list"
  us_to_guest :: "bytes list"
  us_up :: bool
  us_down :: bool
  us_guest_open :: bool
  us_session_open :: bool
  us_cancelled :: bool

definition new_udp_session :: "bytes list \<Rightarrow> bytes list \<Rightarrow> udp_session" where
  "new_udp_session ps qs =
     \<lparr>us_from_guest = ps, us_to_session = [], us_from_session = qs, us_to_guest = [], us_up = True,
      us_down = True, us_guest_open = True, us_session_open = True, us_cancelled = False\<rparr>"

definition close_session :: "udp_session \<Rightarrow> udp_session" where
  "close_session s = s\<lparr>us_guest_open := False, us_session_open := False\<rparr>"

text \<open>
  The steps, with whether something from outside may happen: datagrams arriving, an error of the open
  session, a cancelled context. The loop towards the boundary ends by itself, on its idle timeout at the
  latest.
\<close>

inductive session_step :: "bool \<Rightarrow> udp_session \<Rightarrow> udp_session \<Rightarrow> bool" for outside :: bool where
  up_forwards: "outside \<Longrightarrow> us_up s \<Longrightarrow> us_guest_open s \<Longrightarrow> us_session_open s \<Longrightarrow> us_from_guest s = p # ps
    \<Longrightarrow> session_step outside s (s\<lparr>us_from_guest := ps,
          us_to_session := us_to_session s @ [take max_datagram_size p]\<rparr>)"
| up_ends: "us_up s \<Longrightarrow> session_step outside s (close_session (s\<lparr>us_up := False\<rparr>))"
| down_forwards: "outside \<Longrightarrow> us_down s \<Longrightarrow> us_guest_open s \<Longrightarrow> us_session_open s \<Longrightarrow> us_from_session s = p # ps
    \<Longrightarrow> session_step outside s (s\<lparr>us_from_session := ps, us_to_guest := us_to_guest s @ [p]\<rparr>)"
| down_ends: "us_down s \<Longrightarrow> outside \<or> \<not> us_session_open s
    \<Longrightarrow> session_step outside s (close_session (s\<lparr>us_down := False\<rparr>))"
| cancelled: "outside \<Longrightarrow> us_up s \<or> us_down s \<Longrightarrow> \<not> us_cancelled s
    \<Longrightarrow> session_step outside s (close_session (s\<lparr>us_cancelled := True\<rparr>))"

inductive_cases session_stepE: "session_step outside s s'"

definition session_returned :: "udp_session \<Rightarrow> bool" where
  "session_returned s = (\<not> us_up s \<and> \<not> us_down s)"

definition session_stopping :: "udp_session \<Rightarrow> bool" where
  "session_stopping s = (\<not> us_up s \<or> \<not> us_down s \<or> us_cancelled s)"

definition session_valid :: "udp_session \<Rightarrow> bool" where
  "session_valid s = (us_guest_open s = us_session_open s \<and> us_guest_open s = (\<not> session_stopping s))"

definition session_left :: "udp_session \<Rightarrow> nat" where
  "session_left s = of_bool (us_up s) + of_bool (us_down s) + of_bool (\<not> us_cancelled s)"

lemma own_session_step: "session_step False s s' \<Longrightarrow> session_step True s s'"
  by (elim session_stepE) (auto intro: session_step.intros)

interpretation session: task_group "session_step False" "session_step True" session_valid session_stopping
  session_returned session_left
proof
  fix s s'
  show "session_step False s s' \<Longrightarrow> session_step True s s'" by (rule own_session_step)
  assume step: "session_step True s s'" and valid: "session_valid s"
  show "session_valid s'"
    using step valid
    by (elim session_stepE) (auto simp: session_valid_def session_stopping_def close_session_def)
  assume "session_stopping s"
  with step valid show "session_stopping s' \<and> session_left s' < session_left s"
    by (elim session_stepE)
       (auto simp: session_valid_def session_stopping_def session_left_def close_session_def)
next
  fix s
  assume "session_valid s" and "session_stopping s" and "\<not> session_returned s"
  then show "\<exists>s'. session_step False s s'"
    by (auto simp: session_valid_def session_returned_def intro: up_ends down_ends)
qed

lemma new_udp_session_valid: "session_valid (new_udp_session ps qs)"
  by (simp add: session_valid_def session_stopping_def new_udp_session_def)

text \<open>What has been written and what is still to come are together what there was.\<close>

lemma session_keeps_datagrams:
  assumes "(session_step True)\<^sup>*\<^sup>* (new_udp_session ps qs) s"
  shows "us_to_session s @ map (take max_datagram_size) (us_from_guest s) = map (take max_datagram_size) ps
    \<and> us_to_guest s @ us_from_session s = qs"
  using assms
proof (induction rule: rtranclp_induct)
  case base
  show ?case by (simp add: new_udp_session_def)
next
  case (step t u)
  from step.hyps(2) step.IH show ?case by (elim session_stepE) (auto simp: close_session_def)
qed

section \<open>The idle timeout\<close>

text \<open>
  The loop towards the boundary on timed arrivals: every turn arms the read deadline anew, and a
  datagram that is there at the deadline comes too late. The result is what is written, and the time
  the loop returned at; the connection stays silent after the last arrival.
\<close>

fun up_loop :: "int \<Rightarrow> int \<Rightarrow> (int \<times> bytes) list \<Rightarrow> bytes list \<times> int" where
  "up_loop idle armed [] = ([], armed + idle)"
| "up_loop idle armed ((t, p) # arrivals) =
     (if armed + idle \<le> t then ([], armed + idle)
      else (case up_loop idle t arrivals of (ps, end_time) \<Rightarrow> (take max_datagram_size p # ps, end_time)))"

fun gaps_below :: "int \<Rightarrow> int \<Rightarrow> int list \<Rightarrow> bool" where
  "gaps_below idle armed [] = True"
| "gaps_below idle armed (t # ts) = (armed \<le> t \<and> t < armed + idle \<and> gaps_below idle t ts)"

lemma up_loop_busy:
  "gaps_below idle armed (map fst arrivals)
    \<Longrightarrow> up_loop idle armed arrivals
      = (map (take max_datagram_size) (map snd arrivals), last (armed # map fst arrivals) + idle)"
  by (induction arrivals arbitrary: armed rule: list.induct) (auto split: prod.splits)

lemma up_loop_gap:
  assumes "gaps_below idle armed (map fst earlier)" and "last (armed # map fst earlier) + idle \<le> t"
  shows "up_loop idle armed (earlier @ (t, p) # later)
    = (map (take max_datagram_size) (map snd earlier), last (armed # map fst earlier) + idle)"
  using assms
  by (induction earlier arbitrary: armed rule: list.induct) (auto split: prod.splits)

section \<open>Properties\<close>

text \<open>
  C6. A UDP session never lingers and never mixes its data up. At every moment each side has been sent, in
  order, an initial part of the other side's datagrams, each cut only at 65535 bytes; as soon as one
  loop has ended or the context is cancelled both ends are closed; from then on at most three more
  steps are possible, nothing is sent any more, and when no step of its own is left the relay has
  returned.
\<close>

theorem udp_session_ends:
  assumes "(session_step True)\<^sup>*\<^sup>* (new_udp_session ps qs) s"
  shows "prefix (us_to_session s) (map (take max_datagram_size) ps) \<and> prefix (us_to_guest s) qs
    \<and> (session_stopping s \<longrightarrow> \<not> us_guest_open s \<and> \<not> us_session_open s
        \<and> (\<forall>n s'. (session_step True ^^ n) s s' \<longrightarrow>
              n \<le> 3 \<and> us_to_session s' = us_to_session s \<and> us_to_guest s' = us_to_guest s
              \<and> ((\<nexists>s''. session_step False s' s'') \<longrightarrow> session_returned s')))"
proof -
  have valid: "session_valid s" using session.valid_later [OF assms new_udp_session_valid] .
  have quiet: "us_to_session s' = us_to_session s \<and> us_to_guest s' = us_to_guest s"
    if "(session_step True ^^ n) s s'" "session_stopping s" for n s'
    using that(1)
  proof (induction n arbitrary: s')
    case (Suc n)
    then obtain t where t: "(session_step True ^^ n) s t" "session_step True t s'" by auto
    with session.steps_bounded [OF t(1) valid that(2)] have "\<not> us_guest_open t"
      by (auto simp: session_valid_def)
    with t(2) Suc.IH [OF t(1)] show ?case by (elim session_stepE) (auto simp: close_session_def)
  qed simp
  have closed: "session_stopping s \<longrightarrow> \<not> us_guest_open s \<and> \<not> us_session_open s"
    using valid by (auto simp: session_valid_def)
  have "session_left s \<le> 3" by (simp add: session_left_def)
  then have "n \<le> 3 \<and> us_to_session s' = us_to_session s \<and> us_to_guest s' = us_to_guest s
      \<and> ((\<nexists>s''. session_step False s' s'') \<longrightarrow> session_returned s')"
    if "(session_step True ^^ n) s s'" "session_stopping s" for n s'
    using session.ends [OF that(1) valid that(2)] quiet [OF that] by (blast intro: le_trans)
  moreover have "prefix (us_to_session s) (map (take max_datagram_size) ps)" "prefix (us_to_guest s) qs"
    using session_keeps_datagrams [OF assms] by (metis prefixI)+
  ultimately show ?thesis using closed by blast
qed

theorem udp_session_ends_witness:
  "\<exists>s. (session_step True)\<^sup>*\<^sup>* (new_udp_session [[1]] [[2]]) s \<and> us_to_session s = [[1]] \<and> session_stopping s
     \<and> \<not> us_guest_open s"
proof -
  let ?a = "new_udp_session [[1]] [[2]]"
  let ?b = "?a\<lparr>us_from_guest := [], us_to_session := [[1]]\<rparr>"
  let ?c = "close_session (?b\<lparr>us_down := False\<rparr>)"
  have "session_step True ?a ?b" using up_forwards [of True ?a "[1]" "[]"] by (simp add: new_udp_session_def max_datagram_size_def)
  moreover have "session_step True ?b ?c" by (rule down_ends) (simp_all add: new_udp_session_def)
  ultimately have run: "(session_step True)\<^sup>*\<^sup>* ?a ?c" by (meson converse_rtranclp_into_rtranclp r_into_rtranclp)
  have "session_stopping ?c" "us_to_session ?c = [[1]]"
    by (simp_all add: session_stopping_def close_session_def new_udp_session_def)
  with udp_session_ends [OF run] run show ?thesis by blast
qed

text \<open>
  A guest that is silent for the idle timeout loses its session exactly one timeout after its last datagram,
  and one that is never silent so long is served for all its datagrams.
\<close>

lemma idle_guest_ends_session:
  assumes "gaps_below idle armed (map fst earlier)" and "last (armed # map fst earlier) + idle \<le> t"
  shows "up_loop idle armed (earlier @ (t, p) # later) = up_loop idle armed earlier"
  using up_loop_gap [OF assms] up_loop_busy [OF assms(1)] by simp

end
