(* ===== verification/Qemu.thy ===== *)
theory Qemu
  imports Engine
begin

text \<open>
  The QEMU stream proxy (sdk/pkg/qemuproxy/proxy.go): Ethernet frames with a 32-bit length on a stream
  socket, the filter in front of the engine, and the two loops of \<open>Run\<close>. The constants and accessors of
  gVisor's header package are the fields of \<open>ethernet_lib\<close>; \<open>ieee_ethernet\<close> is the format of the
  standard, on which witnesses evaluate. Deadlines are part of the stream: a stream that stalls longer
  than the frame timeout ends with an error.
\<close>

record ethernet_lib =
  eth_minimum_size :: nat
  eth_type :: "bytes \<Rightarrow> u16"
  eth_destination :: "bytes \<Rightarrow> bytes"
  eth_broadcast :: bytes
  eth_is_multicast :: "bytes \<Rightarrow> bool"
  eth_forwarded :: "u16 list"

definition mtu :: nat where "mtu = 1500"

definition max_frame_size :: "ethernet_lib \<Rightarrow> nat" where
  "max_frame_size lib = mtu + eth_minimum_size lib"

definition frame_size_ok :: "ethernet_lib \<Rightarrow> nat \<Rightarrow> bool" where
  "frame_size_ok lib n = (\<not> (n < eth_minimum_size lib \<or> n > max_frame_size lib))"

section \<open>Frames on the stream\<close>

datatype frame_error = FrameRead stream_error | FrameLength nat

definition read_frame :: "ethernet_lib \<Rightarrow> reader \<Rightarrow> frame_error + (bytes \<times> reader)" where
  "read_frame lib r =
     (case read_full 1 r of
        Inl e \<Rightarrow> Inl (FrameRead e)
      | Inr (b0, r1) \<Rightarrow>
          (case read_full 3 r1 of
             Inl e \<Rightarrow> Inl (FrameRead e)
           | Inr (b1, r2) \<Rightarrow>
               (let length = be_word (b0 @ b1) :: u32 in
                if \<not> frame_size_ok lib (unat length) then Inl (FrameLength (unat length))
                else
                  (case read_full (unat length) r2 of
                     Inl e \<Rightarrow> Inl (FrameRead e)
                   | Inr (frame, r3) \<Rightarrow> Inr (frame, r3)))))"

definition write_frame :: "ethernet_lib \<Rightarrow> bytes \<Rightarrow> frame_error + bytes" where
  "write_frame lib frame =
     (if \<not> frame_size_ok lib (length frame) then Inl (FrameLength (length frame))
      else Inr (be_bytes 4 (of_nat (length frame) :: u32) @ frame))"

section \<open>The two loops\<close>

text \<open>Which frames of the guest reach the engine.\<close>

definition frame_accepted :: "ethernet_lib \<Rightarrow> bytes \<Rightarrow> bytes \<Rightarrow> bool" where
  "frame_accepted lib mac frame =
     (eth_type lib frame \<in> set (eth_forwarded lib)
      \<and> \<not> (eth_destination lib frame \<noteq> mac \<and> eth_destination lib frame \<noteq> eth_broadcast lib
           \<and> \<not> eth_is_multicast lib (eth_destination lib frame)))"

lemma read_frame_consumes:
  "read_frame lib r = Inr (frame, r') \<Longrightarrow> length (unread r') < length (unread r)"
  by (auto simp: read_frame_def Let_def dest!: read_fullD split: sum.splits prod.splits if_splits)

function inbound_loop ::
  "ethernet_lib \<Rightarrow> bytes \<Rightarrow> reader \<Rightarrow> (u16 \<times> bytes) list \<times> frame_error" where
  "inbound_loop lib mac r =
     (case read_frame lib r of
        Inl e \<Rightarrow> ([], e)
      | Inr (frame, r') \<Rightarrow>
          (case inbound_loop lib mac r' of
             (injected, e) \<Rightarrow>
               if frame_accepted lib mac frame then ((eth_type lib frame, frame) # injected, e)
               else (injected, e)))"
  by pat_completeness auto
termination inbound_loop
  by (relation "measure (\<lambda>(lib, mac, r). length (unread r))") (auto dest: read_frame_consumes)

declare inbound_loop.simps [simp del]

text \<open>Packets of the engine until one is refused, with the bytes written; \<open>None\<close> when the channel closes.\<close>

fun outbound_loop :: "ethernet_lib \<Rightarrow> bytes list \<Rightarrow> bytes \<times> frame_error option" where
  "outbound_loop lib [] = ([], None)"
| "outbound_loop lib (packet # packets) =
     (case write_frame lib packet of
        Inl e \<Rightarrow> ([], Some e)
      | Inr bs \<Rightarrow> (case outbound_loop lib packets of (written, e) \<Rightarrow> (bs @ written, e)))"

record qemu_config =
  qc_mac :: bytes
  qc_addresses :: "ip_prefix list"
  qc_dialer :: bool
  qc_udp :: bool
  qc_max_connections :: int

datatype qemu_error = BadGateway | EngineRefused engine_error

text \<open>\<open>Run\<close> up to its loops: the engine it starts, or why it returns at once.\<close>

definition qemu_start :: "(stack_op \<Rightarrow> bool) \<Rightarrow> qemu_config \<Rightarrow> qemu_error + started_engine" where
  "qemu_start ok cfg =
     (if length (qc_mac cfg) \<noteq> 6 \<or> qc_mac cfg ! 0 AND 1 \<noteq> 0 \<or> length (qc_addresses cfg) = 0
      then Inl BadGateway
      else
        (case snd (engine_new ok
                \<lparr>ec_device = True, ec_dialer = qc_dialer cfg, ec_dns = True, ec_addresses = qc_addresses cfg,
                 ec_max_connections = qc_max_connections cfg, ec_udp = qc_udp cfg,
                 ec_udp_idle_timeout = 0, ec_dial_timeout = 0\<rparr>) of
           Inl e \<Rightarrow> Inl (EngineRefused e)
         | Inr e \<Rightarrow> Inr e))"

lemma qemu_start_ok:
  "(\<exists>e. qemu_start ok cfg = Inr e) \<longleftrightarrow>
     length (qc_mac cfg) = 6 \<and> qc_mac cfg ! 0 AND 1 = 0 \<and> qc_addresses cfg \<noteq> [] \<and> qc_dialer cfg
     \<and> interface_addresses_ok (qc_addresses cfg) \<and> list_all ok (stack_ops (qc_addresses cfg))"
proof -
  let ?cfg = "\<lparr>ec_device = True, ec_dialer = qc_dialer cfg, ec_dns = True, ec_addresses = qc_addresses cfg,
    ec_max_connections = qc_max_connections cfg, ec_udp = qc_udp cfg, ec_udp_idle_timeout = 0,
    ec_dial_timeout = 0\<rparr>"
  show ?thesis
    using engine_new_ok [of ok ?cfg] by (cases "snd (engine_new ok ?cfg)") (auto simp: qemu_start_def)
qed

section \<open>Frames read back\<close>

lemma be_word_be_bytes_4: "be_word (be_bytes 4 w) = (w :: u32)"
  using take_bit_length_eq [of w] unfolding be_word_def foldl_be_bytes by simp

definition frame_fits :: "ethernet_lib \<Rightarrow> bytes \<Rightarrow> bool" where
  "frame_fits lib frame = (frame_size_ok lib (length frame) \<and> length frame < 2 ^ 32)"

definition put_frame :: "bytes \<Rightarrow> bytes" where
  "put_frame frame = be_bytes 4 (of_nat (length frame) :: u32) @ frame"

lemma write_frame_put: "write_frame lib frame = Inr bs \<longleftrightarrow> frame_size_ok lib (length frame) \<and> bs = put_frame frame"
  by (auto simp: write_frame_def put_frame_def)

lemma read_put_frame:
  assumes "frame_fits lib frame"
  shows "read_frame lib (feed (put_frame frame) r) = Inr (frame, r)"
proof -
  let ?w = "of_nat (length frame) :: u32"
  have "length (be_bytes 4 ?w) = Suc 3" by simp
  then obtain b0 b1 where b: "be_bytes 4 ?w = [b0] @ b1" and l: "length b1 = 3"
    unfolding length_Suc_conv by auto
  have w: "be_word ([b0] @ b1) = ?w" using be_word_be_bytes_4 [of ?w] b by simp
  have "unat ?w = length frame" using assms by (simp add: frame_fits_def unat_of_nat)
  moreover have "read_full 1 (feed (put_frame frame) r) = Inr ([b0], feed (b1 @ frame) r)"
    using read_full_feed_append [of "[b0]" 1 "b1 @ frame" r] b by (simp add: put_frame_def)
  moreover have "read_full 3 (feed (b1 @ frame) r) = Inr (b1, feed frame r)"
    using l by (rule read_full_feed_append)
  ultimately show ?thesis
    using assms w by (simp add: read_frame_def frame_fits_def)
qed

lemma put_frame_not_empty: "put_frame frame \<noteq> []"
  using length_be_bytes [of 4 "of_nat (length frame) :: u32"] by (auto simp: put_frame_def simp del: length_be_bytes)

interpretation qemu: stream_codec put_frame "read_frame lib" "frame_fits lib"
  by unfold_locales (simp_all add: read_put_frame put_frame_not_empty)

definition ieee_ethernet :: ethernet_lib where
  "ieee_ethernet =
     \<lparr>eth_minimum_size = 14, eth_type = (\<lambda>f. be_word (take 2 (drop 12 f))), eth_destination = take 6,
      eth_broadcast = replicate 6 0xFF, eth_is_multicast = (\<lambda>a. hd a AND 1 = 1),
      eth_forwarded = [0x0806, 0x0800, 0x86DD]\<rparr>"

lemma outbound_loop_frames:
  "outbound_loop lib packets = (written, e)
    \<Longrightarrow> \<exists>n \<le> length packets. written = concat (map put_frame (take n packets))
      \<and> list_all (\<lambda>p. frame_size_ok lib (length p)) (take n packets)
      \<and> (e = None \<longleftrightarrow> n = length packets)"
proof (induction packets arbitrary: written)
  case (Cons packet packets)
  show ?case
  proof (cases "write_frame lib packet")
    case (Inl err)
    with Cons.prems show ?thesis by (intro exI [of _ 0]) auto
  next
    case (Inr bs)
    obtain w where w: "outbound_loop lib packets = (w, e)" "written = bs @ w"
      using Cons.prems Inr by (auto split: prod.splits)
    from Cons.IH [OF w(1)] obtain n where "n \<le> length packets" "w = concat (map put_frame (take n packets))"
      "list_all (\<lambda>p. frame_size_ok lib (length p)) (take n packets)" "e = None \<longleftrightarrow> n = length packets"
      by blast
    with Inr w(2) show ?thesis by (intro exI [of _ "Suc n"]) (auto simp: write_frame_put)
  qed
qed simp

lemma inbound_loop_frames:
  "list_all (frame_fits lib) frames
    \<Longrightarrow> inbound_loop lib mac (feed (concat (map put_frame frames)) r)
      = (case inbound_loop lib mac r of (injected, e) \<Rightarrow>
           (map (\<lambda>f. (eth_type lib f, f)) (filter (frame_accepted lib mac) frames) @ injected, e))"
proof (induction frames)
  case (Cons frame frames)
  then have read: "read_frame lib (feed (concat (map put_frame (frame # frames))) r)
      = Inr (frame, feed (concat (map put_frame frames)) r)"
    using qemu.get_put_append [of lib frame "concat (map put_frame frames)" r] by simp
  show ?case
    using Cons by (subst inbound_loop.simps, subst read) (simp split: prod.splits)
qed (simp split: prod.splits)

text \<open>
  C34. The link to the guest is lossless and filtered: frames one side of the stream writes arrive at
  the other in order and unchanged, and of the frames that arrive exactly those of a forwarded protocol
  that are addressed to the gateway, to everyone or to a group are handed to the engine, each once,
  before the loop ends with the error that ends the stream.
\<close>

theorem guest_frames_delivered_in_order:
  assumes "list_all (frame_fits lib) frames"
  shows "fst (outbound_loop lib frames) = concat (map put_frame frames)
    \<and> read_many (read_frame lib) (length frames) (feed (fst (outbound_loop lib frames)) r) = Inr (frames, r)
    \<and> inbound_loop lib mac \<lparr>unread = fst (outbound_loop lib frames), ended = e\<rparr>
        = (map (\<lambda>f. (eth_type lib f, f)) (filter (frame_accepted lib mac) frames), FrameRead e)"
proof -
  have "write_frame lib f = Inr (put_frame f)" if "f \<in> set frames" for f
    using that assms by (auto simp: write_frame_put frame_fits_def list_all_iff)
  then have written: "outbound_loop lib frames = (concat (map put_frame frames), None)"
    by (induction frames) (simp_all)
  have ended: "inbound_loop lib mac \<lparr>unread = [], ended = e\<rparr> = ([], FrameRead e)"
    by (subst inbound_loop.simps) (simp add: read_frame_def read_full_def)
  have "inbound_loop lib mac (feed (concat (map put_frame frames)) \<lparr>unread = [], ended = e\<rparr>)
      = (map (\<lambda>f. (eth_type lib f, f)) (filter (frame_accepted lib mac) frames), FrameRead e)"
    using inbound_loop_frames [OF assms, of mac "\<lparr>unread = [], ended = e\<rparr>"] ended by simp
  then have "inbound_loop lib mac \<lparr>unread = concat (map put_frame frames), ended = e\<rparr>
      = (map (\<lambda>f. (eth_type lib f, f)) (filter (frame_accepted lib mac) frames), FrameRead e)"
    by (simp add: feed_def)
  with written qemu.read_many_put [OF assms, of r] show ?thesis by simp
qed

theorem guest_frames_delivered_in_order_witness:
  "fst (inbound_loop ieee_ethernet [2, 0, 0, 0, 0, 1]
       \<lparr>unread = put_frame ([2, 0, 0, 0, 0, 1, 2, 0, 0, 0, 0, 2, 8, 0]), ended = StreamEOF\<rparr>)
     = [(0x0800, [2, 0, 0, 0, 0, 1, 2, 0, 0, 0, 0, 2, 8, 0])]"
proof -
  let ?f = "[2, 0, 0, 0, 0, 1, 2, 0, 0, 0, 0, 2, 8, 0] :: bytes"
  have "list_all (frame_fits ieee_ethernet) [?f]"
    by (simp add: frame_fits_def frame_size_ok_def max_frame_size_def ieee_ethernet_def)
  note delivered = guest_frames_delivered_in_order [OF this, of undefined "[2, 0, 0, 0, 0, 1]" StreamEOF]
  have "eth_type ieee_ethernet ?f = 0x0800" by (simp add: ieee_ethernet_def be_word_def)
  moreover from this have "frame_accepted ieee_ethernet [2, 0, 0, 0, 0, 1] ?f"
    unfolding frame_accepted_def by (simp add: ieee_ethernet_def)
  moreover have "fst (outbound_loop ieee_ethernet [?f]) = put_frame ?f" using delivered by (simp del: outbound_loop.simps)
  moreover note conjunct2 [OF conjunct2 [OF delivered]]
  ultimately show ?thesis by (simp del: outbound_loop.simps)
qed

lemma inbound_loop_sizes:
  "inbound_loop lib mac r = (injected, e)
    \<Longrightarrow> list_all (\<lambda>(t, f). frame_size_ok lib (length f) \<and> frame_accepted lib mac f \<and> t = eth_type lib f) injected"
proof (induction lib mac r arbitrary: injected rule: inbound_loop.induct)
  case (1 lib mac r)
  show ?case
  proof (cases "read_frame lib r")
    case (Inl err)
    with "1.prems" show ?thesis by (subst (asm) inbound_loop.simps) auto
  next
    case (Inr found)
    obtain frame r' where f: "read_frame lib r = Inr (frame, r')" using Inr by (cases found) auto
    obtain inj where i: "inbound_loop lib mac r' = (inj, e)"
      and injected: "injected = (if frame_accepted lib mac frame then (eth_type lib frame, frame) # inj else inj)"
      using "1.prems" f by (subst (asm) inbound_loop.simps) (auto split: prod.splits if_splits)
    have "frame_size_ok lib (length frame)"
      using f by (auto simp: read_frame_def Let_def dest!: read_fullD split: sum.splits prod.splits if_splits)
    with "1.IH" [OF f refl i] injected show ?thesis by simp
  qed
qed

end
