(* ===== verification/Qemu_Run.thy ===== *)
theory Qemu_Run
  imports Task_Group Qemu
begin

text \<open>
  The end of \<open>Run\<close> of sdk/pkg/qemuproxy/proxy.go: the loop that reads frames and the loop that writes
  them run side by side, each sends one result, the context closes the connection from outside, and
  \<open>Run\<close> waits for the first result, stops the other loop and waits for the second.
\<close>

section \<open>The two loops and Run\<close>

text \<open>
  A loop fails on the connection, or the writer finds the inner context done. \<open>qr_inbound\<close> and
  \<open>qr_outbound\<close> count the frames still to come from the guest and from the engine, \<open>qr_results\<close> is the
  channel of results and \<open>qr_first\<close> the first one received.
\<close>

datatype loop_error = ConnError string | ContextError

record qemu_run =
  qr_inbound :: nat
  qr_outbound :: nat
  qr_reading :: bool
  qr_writing :: bool
  qr_conn_open :: bool
  qr_inner_done :: bool
  qr_context_done :: bool
  qr_results :: "loop_error list"
  qr_first :: "loop_error option"
  qr_returned :: "loop_error option"

definition new_qemu_run :: "nat \<Rightarrow> nat \<Rightarrow> qemu_run" where
  "new_qemu_run inbound outbound =
     \<lparr>qr_inbound = inbound, qr_outbound = outbound, qr_reading = True, qr_writing = True, qr_conn_open = True,
      qr_inner_done = False, qr_context_done = False, qr_results = [], qr_first = None, qr_returned = None\<rparr>"

text \<open>
  The steps, with whether something from outside may happen: frames, a failing peer, a cancelled context.
  A loop that is given its first frame after the inner context is done may still pass it on.
\<close>

inductive qemu_step :: "bool \<Rightarrow> qemu_run \<Rightarrow> qemu_run \<Rightarrow> bool" for outside :: bool where
  frame_read: "outside \<Longrightarrow> qr_reading s \<Longrightarrow> qr_conn_open s \<Longrightarrow> qr_inbound s = Suc n
    \<Longrightarrow> qemu_step outside s (s\<lparr>qr_inbound := n\<rparr>)"
| frame_written: "outside \<Longrightarrow> qr_writing s \<Longrightarrow> qr_conn_open s \<Longrightarrow> qr_outbound s = Suc n
    \<Longrightarrow> qemu_step outside s (s\<lparr>qr_outbound := n\<rparr>)"
| reader_fails: "qr_reading s \<Longrightarrow> outside \<or> \<not> qr_conn_open s
    \<Longrightarrow> qemu_step outside s (s\<lparr>qr_reading := False, qr_results := qr_results s @ [ConnError e]\<rparr>)"
| writer_fails: "outside \<Longrightarrow> qr_writing s
    \<Longrightarrow> qemu_step outside s (s\<lparr>qr_writing := False, qr_results := qr_results s @ [ConnError e]\<rparr>)"
| writer_stops: "qr_writing s \<Longrightarrow> qr_inner_done s
    \<Longrightarrow> qemu_step outside s (s\<lparr>qr_writing := False, qr_results := qr_results s @ [ContextError]\<rparr>)"
| context_ends: "outside \<Longrightarrow> qr_returned s = None \<Longrightarrow> \<not> qr_context_done s
    \<Longrightarrow> qemu_step outside s (s\<lparr>qr_context_done := True, qr_inner_done := True\<rparr>)"
| closed_by_context: "qr_returned s = None \<Longrightarrow> qr_inner_done s \<Longrightarrow> qr_conn_open s
    \<Longrightarrow> qemu_step outside s (s\<lparr>qr_conn_open := False\<rparr>)"
| first_result: "qr_first s = None \<Longrightarrow> qr_results s = e # es
    \<Longrightarrow> qemu_step outside s
          (s\<lparr>qr_results := es, qr_first := Some e, qr_inner_done := True, qr_conn_open := False\<rparr>)"
| second_result: "qr_first s = Some e1 \<Longrightarrow> qr_returned s = None \<Longrightarrow> qr_results s = e # es
    \<Longrightarrow> qemu_step outside s (s\<lparr>qr_results := es,
          qr_returned := Some (if qr_context_done s then ContextError else e1)\<rparr>)"

inductive_cases qemu_stepE: "qemu_step outside s s'"

definition qemu_returned :: "qemu_run \<Rightarrow> bool" where
  "qemu_returned s = (qr_returned s \<noteq> None)"

definition qemu_stopping :: "qemu_run \<Rightarrow> bool" where
  "qemu_stopping s = (\<not> qr_reading s \<or> \<not> qr_writing s \<or> qr_inner_done s)"

text \<open>Two results in all: sent, received or still to come from a running loop.\<close>

definition qemu_valid :: "qemu_run \<Rightarrow> bool" where
  "qemu_valid s =
     (of_bool (qr_reading s) + of_bool (qr_writing s) + length (qr_results s)
        + of_bool (qr_first s \<noteq> None) + of_bool (qemu_returned s) = (2 :: nat)
      \<and> (qemu_returned s \<longrightarrow> qr_first s \<noteq> None)
      \<and> (qr_first s \<noteq> None \<longrightarrow> qr_inner_done s \<and> \<not> qr_conn_open s)
      \<and> (qr_inner_done s \<longrightarrow> qr_context_done s \<or> qr_first s \<noteq> None)
      \<and> (qr_first s = None \<and> ContextError \<in> set (qr_results s) \<longrightarrow> qr_context_done s)
      \<and> (qr_first s = Some ContextError \<longrightarrow> qr_context_done s)
      \<and> (qr_context_done s \<longrightarrow> qr_inner_done s)
      \<and> (qemu_returned s \<longrightarrow>
            qr_returned s = (if qr_context_done s then Some ContextError else qr_first s)))"

definition qemu_left :: "qemu_run \<Rightarrow> nat" where
  "qemu_left s =
     qr_inbound s + qr_outbound s + 2 * of_bool (qr_reading s) + 2 * of_bool (qr_writing s) + length (qr_results s)
       + of_bool (qr_conn_open s) + of_bool (\<not> qr_context_done s)"

lemmas qemu_run_defs =
  qemu_valid_def qemu_stopping_def qemu_returned_def qemu_left_def

lemma qemu_valid_step: "qemu_step outside s s' \<Longrightarrow> qemu_valid s \<Longrightarrow> qemu_valid s'"
  by (erule qemu_stepE) (auto simp: qemu_run_defs)

lemma own_qemu_step: "qemu_step False s s' \<Longrightarrow> qemu_step True s s'"
  by (elim qemu_stepE) (simp_all only: qemu_step.intros simp_thms)

lemma qemu_never_stuck:
  assumes "qemu_valid s" and "qemu_stopping s" and "\<not> qemu_returned s"
  shows "\<exists>s'. qemu_step False s s'"
proof (cases "qr_results s")
  case Nil
  then have "qr_inner_done s" and "qr_reading s \<or> qr_writing s"
    using assms by (auto simp: qemu_run_defs of_bool_def split: if_splits)
  with assms(3) show ?thesis
    by (cases "qr_conn_open s") (auto simp: qemu_returned_def intro: closed_by_context reader_fails writer_stops)
next
  case (Cons e es)
  with assms(3) show ?thesis
    by (cases "qr_first s") (auto simp: qemu_returned_def intro: first_result second_result)
qed

interpretation qemu: task_group "qemu_step False" "qemu_step True" qemu_valid qemu_stopping qemu_returned qemu_left
proof
  fix s s'
  show "qemu_step False s s' \<Longrightarrow> qemu_step True s s'" by (rule own_qemu_step)
  assume step: "qemu_step True s s'" and valid: "qemu_valid s"
  show "qemu_valid s'" by (rule qemu_valid_step [OF step valid])
  assume "qemu_stopping s"
  with step show "qemu_stopping s' \<and> qemu_left s' < qemu_left s"
    by (elim qemu_stepE) (auto simp: qemu_stopping_def qemu_left_def)
qed (rule qemu_never_stuck)

lemma new_qemu_run_valid: "qemu_valid (new_qemu_run inbound outbound)"
  by (simp add: qemu_run_defs new_qemu_run_def)

section \<open>Properties\<close>

lemma qemu_left_bound:
  assumes "qemu_valid s" and "qemu_stopping s"
  shows "qemu_left s \<le> qr_inbound s + qr_outbound s + 5"
  using assms
  by (cases "qr_reading s"; cases "qr_writing s") (auto simp: qemu_run_defs of_bool_def split: if_splits)

text \<open>
  C7. A stopped QEMU proxy leaves nothing running. Once a loop has failed or the context is done, at most
  five more steps follow besides the frames still to come, and when no step of its own is left \<open>Run\<close> has
  returned; when it returns, both loops have ended and the connection is closed, and what it returns is
  the context's error if the context is done and the error of the loop that failed first otherwise,
  never success.
\<close>

theorem qemu_run_returns:
  assumes "(qemu_step True)\<^sup>*\<^sup>* (new_qemu_run inbound outbound) s"
  shows "(qemu_stopping s \<longrightarrow> (\<forall>n s'. (qemu_step True ^^ n) s s' \<longrightarrow>
             n \<le> qr_inbound s + qr_outbound s + 5 \<and> ((\<nexists>s''. qemu_step False s' s'') \<longrightarrow> qemu_returned s')))
    \<and> (\<forall>e. qr_returned s = Some e \<longrightarrow> \<not> qr_reading s \<and> \<not> qr_writing s \<and> \<not> qr_conn_open s
         \<and> (if qr_context_done s then e = ContextError else qr_first s = Some e \<and> e \<noteq> ContextError))"
proof -
  have valid: "qemu_valid s" using qemu.valid_later [OF assms new_qemu_run_valid] .
  have "n \<le> qr_inbound s + qr_outbound s + 5 \<and> ((\<nexists>s''. qemu_step False s' s'') \<longrightarrow> qemu_returned s')"
    if "(qemu_step True ^^ n) s s'" "qemu_stopping s" for n s'
    using qemu.ends [OF that(1) valid that(2)] qemu_left_bound [OF valid that(2)] by (blast intro: le_trans)
  moreover have "\<not> qr_reading s \<and> \<not> qr_writing s \<and> \<not> qr_conn_open s
      \<and> (if qr_context_done s then e = ContextError else qr_first s = Some e \<and> e \<noteq> ContextError)"
    if "qr_returned s = Some e" for e
    using valid that by (auto simp: qemu_run_defs of_bool_def split: if_splits)
  ultimately show ?thesis by blast
qed

theorem qemu_run_returns_witness:
  "\<exists>s. (qemu_step True)\<^sup>*\<^sup>* (new_qemu_run 0 0) s \<and> qr_returned s = Some (ConnError ''EOF'') \<and> \<not> qr_writing s"
proof -
  let ?s0 = "new_qemu_run 0 0"
  let ?s1 = "?s0\<lparr>qr_reading := False, qr_results := [ConnError ''EOF'']\<rparr>"
  let ?s2 = "?s1\<lparr>qr_results := [], qr_first := Some (ConnError ''EOF''), qr_inner_done := True, qr_conn_open := False\<rparr>"
  let ?s3 = "?s2\<lparr>qr_writing := False, qr_results := [ContextError]\<rparr>"
  let ?s4 = "?s3\<lparr>qr_results := [], qr_returned := Some (ConnError ''EOF'')\<rparr>"
  have "qemu_step True ?s0 ?s1" using reader_fails [of ?s0 True "''EOF''"] by (simp add: new_qemu_run_def)
  moreover have "qemu_step True ?s1 ?s2" using first_result [of ?s1] by (simp add: new_qemu_run_def)
  moreover have "qemu_step True ?s2 ?s3" using writer_stops [of ?s2] by (simp add: new_qemu_run_def)
  moreover have "qemu_step True ?s3 ?s4" using second_result [of ?s3] by (simp add: new_qemu_run_def)
  ultimately have run: "(qemu_step True)\<^sup>*\<^sup>* ?s0 ?s4"
    by (meson converse_rtranclp_into_rtranclp r_into_rtranclp)
  have "qr_returned ?s4 = Some (ConnError ''EOF'')" by simp
  with qemu_run_returns [OF run] run show ?thesis by blast
qed

end
