(* ===== verification/Netns_Setup.thy ===== *)
theory Netns_Setup
  imports Netns_Flows
begin

text \<open>
  The set-up of the namespace proxy (sdk/pkg/netnsproxy): socket options (socket_linux.go), the nftables
  rules (rules_linux.go), the policy routes (routes_linux.go), \<open>New\<close>, \<open>Run\<close> and \<open>Close\<close>
  (proxy_linux.go). The kernel's answers are parameters; what is sent to the kernel is data: rules are
  lists of the expressions of the nftables package, and the open sockets, the installed table and the
  routing state before and after a call are compared. Numbers of the Linux interface are spelled out.
\<close>

section \<open>Socket options\<close>

datatype sock_option = SockOption int int

definition ip_recvorigdstaddr :: int where "ip_recvorigdstaddr = 20"
definition ipv6_recvorigdstaddr :: int where "ipv6_recvorigdstaddr = 74"
definition ip_transparent :: int where "ip_transparent = 19"
definition ipv6_transparent :: int where "ipv6_transparent = 75"
definition sol_socket :: int where "sol_socket = 1"
definition so_reuseaddr :: int where "so_reuseaddr = 2"

text \<open>The options set before binding, in order; the first failure is returned and ends the list.\<close>

fun set_options :: "(sock_option \<Rightarrow> bool) \<Rightarrow> sock_option list \<Rightarrow> sock_option list \<times> bool" where
  "set_options ok [] = ([], True)"
| "set_options ok (opt # opts) =
     (if ok opt then (case set_options ok opts of (done, success) \<Rightarrow> (opt # done, success))
      else ([], False))"

definition udp_options :: "(sock_option \<Rightarrow> bool) \<Rightarrow> bool \<Rightarrow> sock_option list \<times> bool" where
  "udp_options ok ipv6 =
     (let level = (if ipv6 then sol_ipv6 else sol_ip);
          original = (if ipv6 then ipv6_recvorigdstaddr else ip_recvorigdstaddr);
          option = (if ipv6 then ipv6_transparent else ip_transparent) in
      set_options ok [SockOption level original, SockOption level option])"

record reply_socket_request =
  rs_network :: string
  rs_local :: addr_port
  rs_remote :: addr_port
  rs_options :: "sock_option list"

definition reply_socket ::
  "(sock_option \<Rightarrow> bool) \<Rightarrow> (reply_socket_request \<Rightarrow> bool) \<Rightarrow> addr_port \<Rightarrow> addr_port
    \<Rightarrow> reply_socket_request option" where
  "reply_socket ok dial peer destination =
     (let v6 = is6 (ap_addr destination) in
      (case set_options ok
              [SockOption (if v6 then sol_ipv6 else sol_ip) (if v6 then ipv6_transparent else ip_transparent),
               SockOption sol_socket so_reuseaddr] of
         (opts, success) \<Rightarrow>
           (let request = \<lparr>rs_network = (if v6 then ''udp6'' else ''udp4''), rs_local = destination,
                           rs_remote = peer, rs_options = opts\<rparr> in
            if success \<and> dial request then Some request else None)))"

section \<open>The rules\<close>

datatype meta_key = MetaIIF | MetaL4Proto | MetaNFProto | MetaMark

datatype cmp_op = CmpEq | CmpNeq

datatype verdict_kind = VerdictAccept | VerdictDrop

datatype nft_expr =
    MetaLoad meta_key nat
  | MetaStore meta_key nat
  | Cmp cmp_op nat bytes
  | PayloadTransport nat nat nat
  | Immediate nat bytes
  | TProxy u8 nat
  | Redir nat
  | CtStatus nat
  | Bitwise nat nat bytes bytes
  | VerdictExpr verdict_kind
  | Reject nat nat

record listener_ports =
  lp_family :: u8
  lp_tcp :: u16
  lp_udp :: u16

datatype chain_name = Prerouting | UdpPrerouting | InputChain | ForwardChain

datatype chain_type = NatChain | FilterChain

datatype chain_hook = HookPrerouting | HookInput | HookForward

text \<open>A chain has a name, a type, the hook it is attached to and its priority there.\<close>

datatype nft_op =
    AddChain chain_name chain_type chain_hook int
  | AddRule chain_name "nft_expr list"

definition chain_priority_nat_dest :: int where "chain_priority_nat_dest = - 100"
definition chain_priority_mangle :: int where "chain_priority_mangle = - 150"
definition chain_priority_filter :: int where "chain_priority_filter = 0"

definition nfproto_ipv4 :: u8 where "nfproto_ipv4 = 2"
definition nfproto_ipv6 :: u8 where "nfproto_ipv6 = 10"
definition ipproto_tcp :: u8 where "ipproto_tcp = 6"
definition ipproto_udp :: u8 where "ipproto_udp = 17"
definition ipproto_icmp :: u8 where "ipproto_icmp = 1"
definition ipproto_icmpv6 :: u8 where "ipproto_icmpv6 = 58"
definition status_destination_nat :: u32 where "status_destination_nat = push_bit 5 1"
definition routing_mark :: u32 where "routing_mark = 0x616e"
definition routing_table :: int where "routing_table = 16666"

definition native32 :: "bool \<Rightarrow> u32 \<Rightarrow> bytes" where
  "native32 little w = (if little then rev (be_bytes 4 w) else be_bytes 4 w)"

definition interface_match :: "bool \<Rightarrow> u32 \<Rightarrow> nft_expr list" where
  "interface_match little index = [MetaLoad MetaIIF 1, Cmp CmpEq 1 (native32 little index)]"

definition protocol_match :: "u8 \<Rightarrow> nft_expr list" where
  "protocol_match protocol = [MetaLoad MetaL4Proto 1, Cmp CmpEq 1 [protocol]]"

definition family_match :: "u8 \<Rightarrow> nft_expr list" where
  "family_match family = [MetaLoad MetaNFProto 1, Cmp CmpEq 1 [family]]"

definition port_match :: "u16 \<Rightarrow> nft_expr list" where
  "port_match port = [PayloadTransport 1 2 2, Cmp CmpEq 1 (be_bytes 2 port)]"

text \<open>The body of the inner loop: one listener, one transport.\<close>

definition redirect_rule :: "bool \<Rightarrow> u32 \<Rightarrow> bool \<Rightarrow> listener_ports \<Rightarrow> u8 \<times> u16 \<Rightarrow> nft_op" where
  "redirect_rule little index udp l transport =
     (case transport of (protocol, port) \<Rightarrow>
        (let exprs = interface_match little index @ family_match (lp_family l) @ protocol_match protocol
                @ (if protocol = ipproto_udp \<and> \<not> udp then port_match 53 else [])
                @ [Immediate 1 (be_bytes 2 port)] in
         if protocol = ipproto_udp then
           AddRule UdpPrerouting
             (exprs @ [TProxy (lp_family l) 1, Immediate 1 (native32 little routing_mark),
                       MetaStore MetaMark 1, VerdictExpr VerdictAccept])
         else AddRule Prerouting (exprs @ [Redir 1])))"

definition listener_rules :: "bool \<Rightarrow> u32 \<Rightarrow> bool \<Rightarrow> listener_ports \<Rightarrow> nft_op list" where
  "listener_rules little index udp l =
     map (redirect_rule little index udp l) [(ipproto_tcp, lp_tcp l), (ipproto_udp, lp_udp l)]"

definition input_accept :: "bool \<Rightarrow> u32 \<Rightarrow> listener_ports \<Rightarrow> nft_op" where
  "input_accept little index l =
     AddRule InputChain
       (interface_match little index @ protocol_match ipproto_tcp @ family_match (lp_family l)
        @ port_match (lp_tcp l)
        @ [CtStatus 1, Bitwise 1 1 (native32 little status_destination_nat) (replicate 4 0),
           Cmp CmpNeq 1 (replicate 4 0), VerdictExpr VerdictAccept])"

definition redirect_rules :: "bool \<Rightarrow> u32 \<Rightarrow> listener_ports list \<Rightarrow> bool \<Rightarrow> nft_op list" where
  "redirect_rules little index listeners udp =
     [AddChain Prerouting NatChain HookPrerouting chain_priority_nat_dest,
      AddChain UdpPrerouting FilterChain HookPrerouting chain_priority_mangle,
      AddRule UdpPrerouting (interface_match little index
        @ [Immediate 1 (replicate 4 0), MetaStore MetaMark 1])]
     @ concat (map (listener_rules little index udp) listeners)
     @ [AddChain InputChain FilterChain HookInput chain_priority_filter,
        AddRule InputChain (interface_match little index @ protocol_match ipproto_udp
          @ [MetaLoad MetaMark 1, Cmp CmpEq 1 (native32 little routing_mark), VerdictExpr VerdictAccept])]
     @ map (\<lambda>protocol. AddRule InputChain (interface_match little index @ protocol_match protocol
          @ [VerdictExpr VerdictAccept])) [ipproto_icmp, ipproto_icmpv6]
     @ map (input_accept little index) listeners
     @ [AddRule InputChain (interface_match little index @ [Reject 2 1]),
        AddChain ForwardChain FilterChain HookForward chain_priority_filter,
        AddRule ForwardChain (interface_match little index @ [VerdictExpr VerdictDrop])]"

section \<open>Policy routes\<close>

datatype ip_family = AF_INET | AF_INET6

record policy_rule_entry =
  pr_family :: ip_family
  pr_table :: int
  pr_priority :: int
  pr_mark :: u32

record local_route =
  rt_family :: ip_family
  rt_table :: int
  rt_link :: int

record routing =
  rg_rules :: "policy_rule_entry set"
  rg_routes :: "local_route set"

text \<open>
  What the kernel answers: whether a rule list can be read and, for an operation that is possible,
  whether it succeeds. Adding what is there already fails.
\<close>

record route_answers =
  ra_loopback :: "int option"
  ra_list :: "ip_family \<Rightarrow> bool"
  ra_route_add :: "ip_family \<Rightarrow> bool"
  ra_rule_add :: "ip_family \<Rightarrow> bool"
  ra_delete :: bool

definition in_use :: "policy_rule_entry \<Rightarrow> bool" where
  "in_use r = (pr_table r = routing_table \<or> pr_priority r = routing_table \<or> pr_mark r = routing_mark)"

definition our_route :: "int \<Rightarrow> ip_family \<Rightarrow> local_route" where
  "our_route link family = \<lparr>rt_family = family, rt_table = routing_table, rt_link = link\<rparr>"

definition our_rule :: "ip_family \<Rightarrow> policy_rule_entry" where
  "our_rule family =
     \<lparr>pr_family = family, pr_table = routing_table, pr_priority = routing_table, pr_mark = routing_mark\<rparr>"

text \<open>The loop, with the families whose route and rule it has added so far; the result is whether it completed.\<close>

fun add_families ::
  "route_answers \<Rightarrow> int \<Rightarrow> routing \<Rightarrow> local_route list \<Rightarrow> policy_rule_entry list \<Rightarrow> ip_family list
    \<Rightarrow> bool \<times> routing \<times> local_route list \<times> policy_rule_entry list" where
  "add_families k link w routes rules [] = (True, w, routes, rules)"
| "add_families k link w routes rules (family # families) =
     (if \<not> ra_list k family then (False, w, routes, rules)
      else if \<exists>r\<in>rg_rules w. pr_family r = family \<and> in_use r then (False, w, routes, rules)
      else
        (let route = our_route link family in
         if route \<in> rg_routes w \<or> \<not> ra_route_add k family then (False, w, routes, rules)
         else
           (let w1 = w\<lparr>rg_routes := insert route (rg_routes w)\<rparr>;
                routes1 = routes @ [route];
                rule = our_rule family in
            if rule \<in> rg_rules w1 \<or> \<not> ra_rule_add k family then (False, w1, routes1, rules)
            else
              add_families k link (w1\<lparr>rg_rules := insert rule (rg_rules w1)\<rparr>) routes1 (rules @ [rule])
                families)))"

text \<open>The deferred clean-up ignores errors of the deletions; whether they succeed is an answer as well.\<close>

definition remove_added ::
  "route_answers \<Rightarrow> local_route list \<Rightarrow> policy_rule_entry list \<Rightarrow> routing \<Rightarrow> routing" where
  "remove_added k routes rules w =
     (if ra_delete k
      then w\<lparr>rg_rules := rg_rules w - set rules, rg_routes := rg_routes w - set routes\<rparr> else w)"

definition route_families :: "bool \<Rightarrow> ip_family list" where
  "route_families ipv6 = (if ipv6 then [AF_INET, AF_INET6] else [AF_INET])"

definition install_routes :: "route_answers \<Rightarrow> bool \<Rightarrow> routing \<Rightarrow> bool \<times> routing" where
  "install_routes k ipv6 w =
     (case ra_loopback k of
        None \<Rightarrow> (False, w)
      | Some link \<Rightarrow>
          (case add_families k link w [] [] (route_families ipv6) of
             (True, w', routes, rules) \<Rightarrow> (True, w')
           | (False, w', routes, rules) \<Rightarrow> (False, remove_added k routes rules w')))"

section \<open>New, Run and Close\<close>

record netns_config =
  nc_has_forwarder :: bool
  nc_interface :: string
  nc_table :: string
  nc_udp :: bool
  nc_ipv6 :: bool
  nc_max_connections :: int

record net_interface =
  if_index :: u32
  if_loopback :: bool
  if_up :: bool

record netns_host =
  nh_little :: bool
  nh_link :: "string \<Rightarrow> net_interface option"
  nh_interfaces :: "net_interface list option"
  nh_listen_tcp :: "bool \<Rightarrow> u16 option"
  nh_listen_udp :: "bool \<Rightarrow> u16 option"
  nh_options :: "sock_option \<Rightarrow> bool"
  nh_nftables :: bool
  nh_flush :: bool
  nh_undo_flush :: bool
  nh_routes :: route_answers

text \<open>What a call leaves in the namespace: open listeners, the installed tables by name, the routing.\<close>

record namespace =
  ns_sockets :: nat
  ns_tables :: "string \<Rightarrow> nft_op list option"
  ns_routing :: routing

datatype netns_error =
    MissingParts | NoInterface | BadInterface | UnexpectedInterface | ListenFailed | NftFailed
  | InstallFailed | RoutesFailed

text \<open>A listener is one more open socket; \<open>Close\<close> of a proxy with \<open>n\<close> listeners closes them.\<close>

definition add_listener :: "namespace \<Rightarrow> namespace" where
  "add_listener ns = ns\<lparr>ns_sockets := ns_sockets ns + 1\<rparr>"

definition proxy_close :: "nat \<Rightarrow> namespace \<Rightarrow> namespace" where
  "proxy_close n ns = ns\<lparr>ns_sockets := ns_sockets ns - n\<rparr>"

text \<open>
  The listeners of the families in order, \<open>True\<close> for IPv6, after \<open>opened\<close> others of this proxy: the number
  that was open in the end and their ports, if none failed; a failure closes those before it.
\<close>

fun open_listeners ::
  "netns_host \<Rightarrow> nat \<Rightarrow> namespace \<Rightarrow> bool list \<Rightarrow> (nat \<times> listener_ports list option) \<times> namespace" where
  "open_listeners h opened ns [] = ((opened, Some []), ns)"
| "open_listeners h opened ns (v6 # families) =
     (case nh_listen_tcp h v6 of
        None \<Rightarrow> ((opened, None), proxy_close opened ns)
      | Some tcp \<Rightarrow>
          (let ns1 = add_listener ns in
           if \<not> snd (udp_options (nh_options h) v6) then ((opened + 1, None), proxy_close (opened + 1) ns1)
           else
             (case nh_listen_udp h v6 of
                None \<Rightarrow> ((opened + 1, None), proxy_close (opened + 1) ns1)
              | Some udp \<Rightarrow>
                  (case open_listeners h (opened + 2) (add_listener ns1) families of
                     ((n, None), ns') \<Rightarrow> ((n, None), ns')
                   | ((n, Some rest), ns') \<Rightarrow>
                       ((n, Some (\<lparr>lp_family = (if v6 then nfproto_ipv6 else nfproto_ipv4), lp_tcp = tcp,
                                   lp_udp = udp\<rparr> # rest)), ns')))))"

definition other_interfaces :: "net_interface \<Rightarrow> net_interface list \<Rightarrow> bool" where
  "other_interfaces link candidates =
     list_ex (\<lambda>c. if_index c \<noteq> if_index link \<and> \<not> if_loopback c) candidates"

text \<open>
  The second half of \<open>New\<close>, with the listeners open: the table is created exclusively, and it is deleted
  again when the routes cannot be installed. Every failure closes the listeners.
\<close>

definition install_netns ::
  "netns_host \<Rightarrow> netns_config \<Rightarrow> net_interface \<Rightarrow> nat \<Rightarrow> listener_ports list \<Rightarrow> namespace
    \<Rightarrow> (netns_error + netns_proxy) \<times> namespace" where
  "install_netns h cfg link n listeners ns =
     (let table = (if nc_table cfg = [] then ''agents_net'' else nc_table cfg) in
      if \<not> nh_nftables h then (Inl NftFailed, proxy_close n ns)
      else if ns_tables ns table \<noteq> None \<or> \<not> nh_flush h then (Inl InstallFailed, proxy_close n ns)
      else
        (let rules = redirect_rules (nh_little h) (if_index link) listeners (nc_udp cfg);
             ns1 = ns\<lparr>ns_tables := (ns_tables ns)(table \<mapsto> rules)\<rparr> in
         (case install_routes (nh_routes h) (nc_ipv6 cfg) (ns_routing ns) of
            (False, w) \<Rightarrow>
              (Inl RoutesFailed,
               proxy_close n
                 ((if nh_undo_flush h then ns1\<lparr>ns_tables := (ns_tables ns1)(table := None)\<rparr>
                   else ns1)\<lparr>ns_routing := w\<rparr>))
          | (True, w) \<Rightarrow>
              (Inr (new_proxy (nc_udp cfg) (nc_max_connections cfg)), ns1\<lparr>ns_routing := w\<rparr>))))"

definition listener_families :: "netns_config \<Rightarrow> bool list" where
  "listener_families cfg = (if nc_ipv6 cfg then [False, True] else [False])"

definition new_netns ::
  "netns_host \<Rightarrow> netns_config \<Rightarrow> namespace \<Rightarrow> (netns_error + netns_proxy) \<times> namespace" where
  "new_netns h cfg ns =
     (if \<not> nc_has_forwarder cfg then (Inl MissingParts, ns)
      else if nc_interface cfg = [] then (Inl NoInterface, ns)
      else
        (case nh_link h (nc_interface cfg) of
           None \<Rightarrow> (Inl NoInterface, ns)
         | Some link \<Rightarrow>
             if if_loopback link \<or> \<not> if_up link then (Inl BadInterface, ns)
             else
               (case nh_interfaces h of
                  None \<Rightarrow> (Inl NoInterface, ns)
                | Some candidates \<Rightarrow>
                    if other_interfaces link candidates then (Inl UnexpectedInterface, ns)
                    else
                      (case open_listeners h 0 ns (listener_families cfg) of
                         ((_, None), ns') \<Rightarrow> (Inl ListenFailed, ns')
                       | ((n, Some listeners), ns') \<Rightarrow> install_netns h cfg link n listeners ns'))))"

text \<open>\<open>Run\<close>: a second call is refused; the results of the loops are joined unless they say closed.\<close>

datatype serve_error = ErrClosed | ServeError string

definition proxy_run :: "bool \<Rightarrow> serve_error option list \<Rightarrow> (string + serve_error list) \<times> bool" where
  "proxy_run running results =
     (if running then (Inl ''Run called more than once'', running)
      else (Inr (concat (map (\<lambda>r. case r of None \<Rightarrow> [] | Some ErrClosed \<Rightarrow> [] | Some e \<Rightarrow> [e]) results)), True))"

section \<open>All or nothing\<close>

lemma add_families_added:
  assumes "add_families k link w routes rules families = (ok, w', routes', rules')"
    and "distinct families"
    and "\<And>f. f \<in> set families \<Longrightarrow> our_route link f \<notin> set routes \<and> our_rule f \<notin> set rules"
  shows "\<exists>rs ps. routes' = routes @ rs \<and> rules' = rules @ ps
    \<and> rg_routes w' = rg_routes w \<union> set rs \<and> rg_rules w' = rg_rules w \<union> set ps
    \<and> set rs \<inter> rg_routes w = {} \<and> set ps \<inter> rg_rules w = {}
    \<and> (ok \<longrightarrow> rs = map (our_route link) families \<and> ps = map our_rule families
         \<and> (\<forall>f\<in>set families. \<forall>r\<in>rg_rules w. pr_family r = f \<longrightarrow> \<not> in_use r))"
  using assms
proof (induction k link w routes rules families rule: add_families.induct)
  case (1 k link w routes rules)
  then show ?case by simp
next
  case (2 k link w routes rules family families)
  let ?route = "our_route link family" and ?rule = "our_rule family"
  let ?w1 = "w\<lparr>rg_routes := insert ?route (rg_routes w)\<rparr>"
  let ?w2 = "?w1\<lparr>rg_rules := insert ?rule (rg_rules ?w1)\<rparr>"
  consider (stop) "\<not> ra_list k family \<or> (\<exists>r\<in>rg_rules w. pr_family r = family \<and> in_use r)
        \<or> ?route \<in> rg_routes w \<or> \<not> ra_route_add k family"
    | (half) "?route \<notin> rg_routes w" "ra_list k family" "\<not> (\<exists>r\<in>rg_rules w. pr_family r = family \<and> in_use r)"
        "ra_route_add k family" "?rule \<in> rg_rules ?w1 \<or> \<not> ra_rule_add k family"
    | (added) "?route \<notin> rg_routes w" "ra_list k family" "\<not> (\<exists>r\<in>rg_rules w. pr_family r = family \<and> in_use r)"
        "ra_route_add k family" "?rule \<notin> rg_rules ?w1" "ra_rule_add k family"
    by blast
  then show ?case
  proof cases
    case stop
    with "2.prems"(1) show ?thesis by (intro exI [of _ "[]"]) (auto simp: Let_def split: if_splits)
  next
    case half
    with "2.prems"(1) show ?thesis
      by (intro exI [of _ "[?route]"] exI [of _ "[]"]) (auto simp: Let_def split: if_splits)
  next
    case added
    with "2.prems"(1) have run: "add_families k link ?w2 (routes @ [?route]) (rules @ [?rule]) families
        = (ok, w', routes', rules')"
      by (auto simp: Let_def split: if_splits)
    have fresh: "our_route link f \<notin> set (routes @ [?route]) \<and> our_rule f \<notin> set (rules @ [?rule])"
      if "f \<in> set families" for f
      using that "2.prems"(2,3) by (auto simp: our_route_def our_rule_def)
    have "\<exists>rs ps. routes' = (routes @ [?route]) @ rs \<and> rules' = (rules @ [?rule]) @ ps
        \<and> rg_routes w' = rg_routes ?w2 \<union> set rs \<and> rg_rules w' = rg_rules ?w2 \<union> set ps
        \<and> set rs \<inter> rg_routes ?w2 = {} \<and> set ps \<inter> rg_rules ?w2 = {}
        \<and> (ok \<longrightarrow> rs = map (our_route link) families \<and> ps = map our_rule families
             \<and> (\<forall>f\<in>set families. \<forall>r\<in>rg_rules ?w2. pr_family r = f \<longrightarrow> \<not> in_use r))"
      by (rule "2.IH" [OF _ _ refl _ refl refl refl _ run _ fresh]) (use added "2.prems"(2) in auto)
    then obtain rs ps where *: "routes' = (routes @ [?route]) @ rs" "rules' = (rules @ [?rule]) @ ps"
      "rg_routes w' = rg_routes ?w2 \<union> set rs" "rg_rules w' = rg_rules ?w2 \<union> set ps"
      "set rs \<inter> rg_routes ?w2 = {}" "set ps \<inter> rg_rules ?w2 = {}"
      "ok \<longrightarrow> rs = map (our_route link) families \<and> ps = map our_rule families
         \<and> (\<forall>f\<in>set families. \<forall>r\<in>rg_rules ?w2. pr_family r = f \<longrightarrow> \<not> in_use r)" by blast
    with added show ?thesis
      by (intro exI [of _ "?route # rs"] exI [of _ "?rule # ps"]) auto
  qed
qed

lemma install_routes_cases:
  assumes "install_routes k ipv6 w = (ok, w')" and "ra_delete k"
  shows "if ok then \<exists>link. ra_loopback k = Some link
        \<and> rg_routes w' = rg_routes w \<union> our_route link ` set (route_families ipv6)
        \<and> rg_rules w' = rg_rules w \<union> our_rule ` set (route_families ipv6)
        \<and> (\<forall>r\<in>rg_rules w. pr_family r \<in> set (route_families ipv6) \<longrightarrow> \<not> in_use r)
      else w' = w"
proof (cases "ra_loopback k")
  case None
  with assms(1) show ?thesis by (simp add: install_routes_def)
next
  case (Some link)
  obtain complete w1 routes rules where run:
    "add_families k link w [] [] (route_families ipv6) = (complete, w1, routes, rules)" by (metis prod_cases4)
  have "distinct (route_families ipv6)" by (simp add: route_families_def)
  from add_families_added [OF run this] have *:
    "rg_routes w1 = rg_routes w \<union> set routes" "rg_rules w1 = rg_rules w \<union> set rules"
    "set routes \<inter> rg_routes w = {}" "set rules \<inter> rg_rules w = {}"
    "complete \<longrightarrow> routes = map (our_route link) (route_families ipv6) \<and> rules = map our_rule (route_families ipv6)
       \<and> (\<forall>f\<in>set (route_families ipv6). \<forall>r\<in>rg_rules w. pr_family r = f \<longrightarrow> \<not> in_use r)"
    by auto
  show ?thesis
  proof (cases "complete")
    case True
    with assms(1) Some run * show ?thesis by (auto simp: install_routes_def)
  next
    case False
    then have "w' = remove_added k routes rules w1" "\<not> ok"
      using assms(1) Some run by (auto simp: install_routes_def)
    moreover have "remove_added k routes rules w1 = w"
      using * assms(2) by (cases w; cases w1) (auto simp: remove_added_def)
    ultimately show ?thesis by simp
  qed
qed

lemma open_listeners_result:
  assumes "open_listeners h opened ns families = ((n, ports), ns')" and "opened \<le> ns_sockets ns"
  shows "case ports of
      None \<Rightarrow> ns' = proxy_close opened ns
    | Some ls \<Rightarrow> n = opened + 2 * length families
        \<and> map lp_family ls = map (\<lambda>v6. if v6 then nfproto_ipv6 else nfproto_ipv4) families
        \<and> ns' = ns\<lparr>ns_sockets := ns_sockets ns + 2 * length families\<rparr>"
  using assms
proof (induction h opened ns families arbitrary: n ports ns' rule: open_listeners.induct)
  case (2 h opened ns v6 families)
  then show ?case
    by (auto simp: Let_def proxy_close_def add_listener_def
        split: option.splits if_splits prod.splits)
qed simp

lemma new_netnsE:
  assumes "new_netns h cfg ns = (result, ns')"
  obtains (early) e where "result = Inl e" "ns' = ns"
  | (late) link candidates n listeners ns1 where
    "nh_link h (nc_interface cfg) = Some link" "if_up link" "\<not> if_loopback link"
    "nh_interfaces h = Some candidates" "\<not> other_interfaces link candidates"
    "n = 2 * length listeners" "ns1 = ns\<lparr>ns_sockets := ns_sockets ns + n\<rparr>"
    "map lp_family listeners = (if nc_ipv6 cfg then [nfproto_ipv4, nfproto_ipv6] else [nfproto_ipv4])"
    "install_netns h cfg link n listeners ns1 = (result, ns')"
proof -
  obtain n ports ns1 where o: "open_listeners h 0 ns (listener_families cfg) = ((n, ports), ns1)"
    by (metis prod.collapse)
  note opened = open_listeners_result [OF o le0]
  have "(\<exists>e. result = Inl e \<and> ns' = ns) \<or> ports = None \<and> (\<exists>e. result = Inl e) \<and> ns' = ns1
    \<or> (\<exists>ls link candidates. ports = Some ls \<and> nh_link h (nc_interface cfg) = Some link \<and> if_up link
        \<and> \<not> if_loopback link \<and> nh_interfaces h = Some candidates \<and> \<not> other_interfaces link candidates
        \<and> install_netns h cfg link n ls ns1 = (result, ns'))"
    using assms o unfolding new_netns_def by (simp split: if_splits option.splits) blast+
  then consider "\<exists>e. result = Inl e \<and> ns' = ns" | "ports = None" "\<exists>e. result = Inl e" "ns' = ns1"
    | ls link candidates where "ports = Some ls" "nh_link h (nc_interface cfg) = Some link" "if_up link"
        "\<not> if_loopback link" "nh_interfaces h = Some candidates" "\<not> other_interfaces link candidates"
        "install_netns h cfg link n ls ns1 = (result, ns')" by blast
  then show thesis
  proof cases
    case 1
    then show ?thesis using early by blast
  next
    case 2
    with opened show ?thesis using early by (auto simp: proxy_close_def)
  next
    case (3 ls link candidates)
    with opened have "map lp_family ls = (if nc_ipv6 cfg then [nfproto_ipv4, nfproto_ipv6] else [nfproto_ipv4])"
      "n = 2 * length ls" "ns1 = ns\<lparr>ns_sockets := ns_sockets ns + n\<rparr>"
      by (auto simp: listener_families_def dest: arg_cong [where f = length] split: if_splits)
    with 3 show ?thesis using late by blast
  qed
qed

lemma install_netns_cases:
  assumes "install_netns h cfg link n listeners ns = (result, ns')" and "ra_delete (nh_routes h)"
    and "nh_undo_flush h"
  obtains (undone) e where "result = Inl e" "ns' = proxy_close n ns"
  | (installed) p lo table where "result = Inr p" "ns_tables ns table = None"
    "ns_sockets ns' = ns_sockets ns"
    "ns_tables ns' = (ns_tables ns)
       (table \<mapsto> redirect_rules (nh_little h) (if_index link) listeners (nc_udp cfg))"
    "rg_routes (ns_routing ns')
       = rg_routes (ns_routing ns) \<union> our_route lo ` set (route_families (nc_ipv6 cfg))"
    "rg_rules (ns_routing ns')
       = rg_rules (ns_routing ns) \<union> our_rule ` set (route_families (nc_ipv6 cfg))"
    "\<forall>r\<in>rg_rules (ns_routing ns). pr_family r \<in> set (route_families (nc_ipv6 cfg)) \<longrightarrow> \<not> in_use r"
proof -
  obtain ok w where routes: "install_routes (nh_routes h) (nc_ipv6 cfg) (ns_routing ns) = (ok, w)" by fastforce
  note w = install_routes_cases [OF routes assms(2)]
  show ?thesis
  proof (cases "ok \<and> nh_nftables h \<and> nh_flush h
      \<and> ns_tables ns (if nc_table cfg = [] then ''agents_net'' else nc_table cfg) = None")
    case True
    with assms(1) routes w show ?thesis
      by (auto simp: install_netns_def Let_def intro!: installed)
  next
    case False
    with assms(1,3) routes w have "(\<exists>e. result = Inl e) \<and> ns' = proxy_close n ns"
      by (auto simp: install_netns_def Let_def fun_upd_idem split: if_splits bool.splits)
    with undone show ?thesis by blast
  qed
qed

text \<open>
  C30. Setting up the namespace is all or nothing: when \<open>New\<close> fails, and the kernel grants the undoing of
  what it had granted before, the listeners, tables and routing state are as they were. When it succeeds,
  the ingress interface is up and is the only one besides loopback, two listeners per family are open, the
  table was not there before and now holds the redirect rules for exactly those families, and the route
  and the rule of every family were added to a routing state in which their table, priority and mark
  were free.
\<close>

theorem netns_setup_all_or_nothing:
  assumes "ra_delete (nh_routes h)" and "nh_undo_flush h" and "new_netns h cfg ns = (result, ns')"
  shows "case result of
      Inl e \<Rightarrow> ns' = ns
    | Inr p \<Rightarrow>
        (\<exists>link candidates listeners lo table. nh_link h (nc_interface cfg) = Some link
           \<and> if_up link \<and> \<not> if_loopback link
           \<and> nh_interfaces h = Some candidates \<and> \<not> other_interfaces link candidates
           \<and> ns_sockets ns' = ns_sockets ns + 2 * length listeners
           \<and> map lp_family listeners = (if nc_ipv6 cfg then [nfproto_ipv4, nfproto_ipv6] else [nfproto_ipv4])
           \<and> ns_tables ns table = None
           \<and> ns_tables ns' = (ns_tables ns)
               (table \<mapsto> redirect_rules (nh_little h) (if_index link) listeners (nc_udp cfg))
           \<and> rg_routes (ns_routing ns')
               = rg_routes (ns_routing ns) \<union> our_route lo ` set (route_families (nc_ipv6 cfg))
           \<and> rg_rules (ns_routing ns')
               = rg_rules (ns_routing ns) \<union> our_rule ` set (route_families (nc_ipv6 cfg))
           \<and> (\<forall>r\<in>rg_rules (ns_routing ns).
                pr_family r \<in> set (route_families (nc_ipv6 cfg)) \<longrightarrow> \<not> in_use r))"
  using assms(3)
proof (cases rule: new_netnsE)
  case early
  then show ?thesis by simp
next
  case (late link candidates n listeners ns1)
  have same: "ns_tables ns1 = ns_tables ns" "ns_routing ns1 = ns_routing ns" "proxy_close n ns1 = ns"
    by (simp_all add: late(7) proxy_close_def)
  from late(9) assms(1,2) show ?thesis
  proof (cases rule: install_netns_cases)
    case undone
    with same show ?thesis by simp
  next
    case (installed p lo table)
    with late(1-8) same show ?thesis
      by (simp only: sum.case, intro exI [of _ link] exI [of _ candidates] exI [of _ listeners]
          exI [of _ lo] exI [of _ table]) simp
  qed
qed

definition sample_link :: net_interface where
  "sample_link = \<lparr>if_index = 2, if_loopback = False, if_up = True\<rparr>"

definition sample_netns_host :: netns_host where
  "sample_netns_host =
     \<lparr>nh_little = True, nh_link = (\<lambda>_. Some sample_link), nh_interfaces = Some [sample_link],
      nh_listen_tcp = (\<lambda>_. Some 40001), nh_listen_udp = (\<lambda>_. Some 40002), nh_options = (\<lambda>_. True),
      nh_nftables = True, nh_flush = True, nh_undo_flush = True,
      nh_routes = \<lparr>ra_loopback = Some 1, ra_list = (\<lambda>_. True), ra_route_add = (\<lambda>_. True),
                   ra_rule_add = (\<lambda>f. f = AF_INET), ra_delete = True\<rparr>\<rparr>"

definition sample_netns_config :: netns_config where
  "sample_netns_config =
     \<lparr>nc_has_forwarder = True, nc_interface = ''veth0'', nc_table = [], nc_udp = False, nc_ipv6 = True,
      nc_max_connections = 0\<rparr>"

definition empty_namespace :: namespace where
  "empty_namespace =
     \<lparr>ns_sockets = 0, ns_tables = (\<lambda>_. None), ns_routing = \<lparr>rg_rules = {}, rg_routes = {}\<rparr>\<rparr>"

text \<open>The routes of the second family cannot be installed: everything done for the first is undone.\<close>

theorem netns_setup_all_or_nothing_witness:
  "new_netns sample_netns_host sample_netns_config empty_namespace = (Inl RoutesFailed, empty_namespace)"
proof -
  obtain result ns' where run: "new_netns sample_netns_host sample_netns_config empty_namespace = (result, ns')"
    by fastforce
  have "fst (new_netns sample_netns_host sample_netns_config empty_namespace) = Inl RoutesFailed"
    by (simp add: new_netns_def sample_netns_host_def sample_netns_config_def empty_namespace_def sample_link_def
        other_interfaces_def listener_families_def udp_options_def add_listener_def proxy_close_def install_netns_def install_routes_def
        route_families_def our_rule_def our_route_def Let_def)
  with run have "result = Inl RoutesFailed" by simp
  moreover have "ra_delete (nh_routes sample_netns_host)" "nh_undo_flush sample_netns_host"
    by (simp_all add: sample_netns_host_def)
  ultimately show ?thesis using netns_setup_all_or_nothing [OF _ _ run] run by simp
qed

section \<open>What a set-up does not report\<close>

lemma install_netns_parts: "fst (install_netns h cfg link n listeners ns) \<noteq> Inl MissingParts"
  by (simp add: install_netns_def Let_def split: prod.split option.split bool.split)

lemma new_netns_parts: "nc_has_forwarder cfg \<Longrightarrow> fst (new_netns h cfg ns) \<noteq> Inl MissingParts"
  by (simp add: new_netns_def install_netns_parts split: prod.split option.split)

section \<open>Replies and the end of Run\<close>

text \<open>A reply socket is bound to the address the guest wrote to and connected to the guest, transparently.\<close>

lemma reply_socket_speaks_as_destination:
  assumes "reply_socket ok dial peer destination = Some request"
  shows "rs_local request = destination \<and> rs_remote request = peer
    \<and> (if is6 (ap_addr destination)
       then rs_network request = ''udp6'' \<and> SockOption sol_ipv6 ipv6_transparent \<in> set (rs_options request)
       else rs_network request = ''udp4'' \<and> SockOption sol_ip ip_transparent \<in> set (rs_options request))"
  using assms by (auto simp: reply_socket_def Let_def split: if_splits prod.splits)

text \<open>A run reports exactly the errors of its loops that are not the closing itself, and only once.\<close>

lemma proxy_run_reports:
  "proxy_run False results = (Inr errors, running)
    \<Longrightarrow> running \<and> set errors = {e. Some e \<in> set results \<and> e \<noteq> ErrClosed}"
  "fst (proxy_run True results) = Inl ''Run called more than once''"
  by (auto simp: proxy_run_def split: option.splits serve_error.splits) (metis serve_error.exhaust)

end
