(* ===== verification/Netns_Run.thy ===== *)
theory Netns_Run
  imports Task_Group Netns_Setup "HOL-Library.Multiset"
begin

text \<open>
  How the namespace proxy ends (\<open>Run\<close>, \<open>Close\<close>, \<open>serveTCP\<close> and \<open>serveUDP\<close> of
  sdk/pkg/netnsproxy/proxy_linux.go). Each listener has a loop with its workers: when its read fails the
  loop closes the proxy, waits for its workers and returns its error, and \<open>Run\<close> takes one result
  per loop. The workers of a closed proxy end because their connections and context do; what they do
  until then is in Netns_Flows, Udp_Session and Tcp_Relay.
\<close>

section \<open>Loops, workers and Run\<close>

text \<open>A loop waits for its listener, handles what it got from it, waits for its workers or has returned.\<close>

datatype serve_loop = Serving | Handling | Draining serve_error | Returned serve_error

text \<open>A loop with the number of its workers, which is its wait group.\<close>

record netns_run =
  nr_loops :: "(serve_loop \<times> nat) list"
  nr_closed :: bool
  nr_results :: "serve_error list"
  nr_taken :: "serve_error list"

definition new_netns_run :: "nat \<Rightarrow> netns_run" where
  "new_netns_run listeners =
     \<lparr>nr_loops = replicate listeners (Serving, 0), nr_closed = False, nr_results = [], nr_taken = []\<rparr>"

definition set_loop :: "nat \<Rightarrow> serve_loop \<times> nat \<Rightarrow> netns_run \<Rightarrow> netns_run" where
  "set_loop i l s = s\<lparr>nr_loops := (nr_loops s)[i := l]\<rparr>"

text \<open>
  The steps, with whether something from outside may happen: guests arriving, workers ending before they
  are told to, a listener failing, \<open>Close\<close> and the context. A listener that is still open fails with an
  error of its own; once closed it may report that. What was accepted before the proxy was closed is
  still handled after: a TCP guest gets a worker, a new UDP flow two, and anything else none.
\<close>

inductive netns_run_step :: "bool \<Rightarrow> netns_run \<Rightarrow> netns_run \<Rightarrow> bool" for outside :: bool where
  guest_arrives: "outside \<Longrightarrow> i < length (nr_loops s) \<Longrightarrow> nr_loops s ! i = (Serving, n) \<Longrightarrow> \<not> nr_closed s
    \<Longrightarrow> netns_run_step outside s (set_loop i (Handling, n) s)"
| guest_handled: "i < length (nr_loops s) \<Longrightarrow> nr_loops s ! i = (Handling, n) \<Longrightarrow> k \<le> 2
    \<Longrightarrow> netns_run_step outside s (set_loop i (Serving, n + k) s)"
| worker_ends: "i < length (nr_loops s) \<Longrightarrow> nr_loops s ! i = (l, Suc n) \<Longrightarrow> outside \<or> nr_closed s
    \<Longrightarrow> netns_run_step outside s (set_loop i (l, n) s)"
| loop_fails: "i < length (nr_loops s) \<Longrightarrow> nr_loops s ! i = (Serving, n)
    \<Longrightarrow> nr_closed s \<or> outside \<and> e \<noteq> ErrClosed
    \<Longrightarrow> netns_run_step outside s ((set_loop i (Draining e, n) s)\<lparr>nr_closed := True\<rparr>)"
| loop_returns: "i < length (nr_loops s) \<Longrightarrow> nr_loops s ! i = (Draining e, 0)
    \<Longrightarrow> netns_run_step outside s ((set_loop i (Returned e, 0) s)\<lparr>nr_results := nr_results s @ [e]\<rparr>)"
| result_taken: "nr_results s = e # es
    \<Longrightarrow> netns_run_step outside s (s\<lparr>nr_results := es, nr_taken := nr_taken s @ [e], nr_closed := True\<rparr>)"
| closed_outside: "outside \<Longrightarrow> \<not> nr_closed s \<Longrightarrow> netns_run_step outside s (s\<lparr>nr_closed := True\<rparr>)"

inductive_cases netns_run_stepE: "netns_run_step outside s s'"

definition run_returned :: "netns_run \<Rightarrow> bool" where
  "run_returned s = (length (nr_taken s) = length (nr_loops s))"

definition loop_result :: "serve_loop \<times> nat \<Rightarrow> serve_error list" where
  "loop_result l = (case fst l of Returned e \<Rightarrow> [e] | _ \<Rightarrow> [])"

definition loop_left :: "serve_loop \<times> nat \<Rightarrow> nat" where
  "loop_left l = snd l + (case fst l of Serving \<Rightarrow> 3 | Handling \<Rightarrow> 6 | Draining _ \<Rightarrow> 2 | Returned _ \<Rightarrow> 0)"

definition run_left :: "netns_run \<Rightarrow> nat" where
  "run_left s = sum_list (map loop_left (nr_loops s)) + length (nr_results s)"

text \<open>
  Results sent or taken are those of the loops that have returned, a returned loop has no workers, and a
  loop that no longer serves has closed the proxy.
\<close>

definition loop_ok :: "bool \<Rightarrow> serve_loop \<times> nat \<Rightarrow> bool" where
  "loop_ok shut l = (case fst l of Serving \<Rightarrow> True | Handling \<Rightarrow> True | Draining _ \<Rightarrow> shut | Returned _ \<Rightarrow> shut \<and> snd l = 0)"

definition run_valid :: "netns_run \<Rightarrow> bool" where
  "run_valid s =
     (mset (nr_taken s @ nr_results s) = mset (concat (map loop_result (nr_loops s)))
      \<and> list_all (loop_ok (nr_closed s)) (nr_loops s))"

lemma loop_simps [simp]:
  "loop_result (Serving, n) = []" "loop_result (Handling, n) = []" "loop_result (Draining e, n) = []" "loop_result (Returned e, n) = [e]"
  "loop_left (Serving, n) = n + 3" "loop_left (Handling, n) = n + 6" "loop_left (Draining e, n) = n + 2" "loop_left (Returned e, n) = n"
  "loop_ok c (Serving, n)" "loop_ok c (Handling, n)" "loop_ok c (Draining e, n) = c" "loop_ok c (Returned e, n) = (c \<and> n = 0)"
  by (simp_all add: loop_result_def loop_left_def loop_ok_def)

lemma loop_ok_closed: "loop_ok c l \<Longrightarrow> loop_ok True l"
  by (simp add: loop_ok_def split: serve_loop.splits)

lemma loop_results_le: "length (concat (map loop_result ls)) \<le> length ls"
proof (induction ls)
  case (Cons l ls)
  then show ?case by (cases l; cases "fst l") auto
qed simp

lemma mset_loop_results_update:
  assumes "i < length ls"
  shows "mset (concat (map loop_result (ls[i := l]))) + mset (loop_result (ls ! i))
    = mset (concat (map loop_result ls)) + mset (loop_result l)"
  using assms
proof (induction ls arbitrary: i)
  case (Cons a ls)
  then show ?case by (cases i) auto
qed simp

lemma sum_loop_left_update:
  assumes "i < length ls"
  shows "sum_list (map loop_left (ls[i := l])) + loop_left (ls ! i) = sum_list (map loop_left ls) + loop_left l"
  using assms
proof (induction ls arbitrary: i)
  case (Cons a ls)
  then show ?case by (cases i) auto
qed simp

lemma list_all_update: "list_all P ls \<Longrightarrow> P l \<Longrightarrow> list_all P (ls[i := l])"
  using set_update_subset_insert [of ls i l] by (auto simp: list_all_iff)

lemma run_valid_set_loop:
  assumes "run_valid s" and "i < length (nr_loops s)" and "loop_ok (nr_closed s) l"
    and "loop_result l = loop_result (nr_loops s ! i)"
  shows "run_valid (set_loop i l s)"
  using assms mset_loop_results_update [OF assms(2), of l]
  by (simp add: run_valid_def set_loop_def list_all_update)

lemma run_valid_close: "run_valid s \<Longrightarrow> run_valid (s\<lparr>nr_closed := True\<rparr>)"
  by (auto simp: run_valid_def list_all_iff loop_ok_closed)

lemma run_valid_step:
  assumes "netns_run_step outside s s'" and "run_valid s"
  shows "run_valid s'"
proof -
  have ok: "loop_ok (nr_closed s) (nr_loops s ! i)" if "i < length (nr_loops s)" for i
    using that assms(2) by (simp add: run_valid_def list_all_length)
  from assms(1) show ?thesis
  proof (cases rule: netns_run_step.cases)
    case (guest_arrives i n)
    with assms(2) run_valid_set_loop [of s i "(Handling, n)"] show ?thesis by simp
  next
    case (guest_handled i n k)
    with assms(2) run_valid_set_loop [of s i "(Serving, n + k)"] show ?thesis by simp
  next
    case (worker_ends i l n)
    with ok [of i] have "loop_ok (nr_closed s) (l, n)" "loop_result (l, n) = loop_result (l, Suc n)"
      by (cases l; simp)+
    with worker_ends assms(2) run_valid_set_loop [of s i "(l, n)"] show ?thesis by simp
  next
    case (loop_fails i n e)
    have "run_valid (s\<lparr>nr_closed := True\<rparr>)" using assms(2) by (rule run_valid_close)
    with loop_fails run_valid_set_loop [of "s\<lparr>nr_closed := True\<rparr>" i "(Draining e, n)"] show ?thesis
      by (simp add: set_loop_def run_valid_def)
  next
    case (loop_returns i e)
    with ok [of i] assms(2) mset_loop_results_update [of i "nr_loops s" "(Returned e, 0)"] show ?thesis
      by (simp add: run_valid_def set_loop_def list_all_update)
  next
    case (result_taken e es)
    have "run_valid (s\<lparr>nr_closed := True\<rparr>)" using assms(2) by (rule run_valid_close)
    with result_taken show ?thesis by (simp add: run_valid_def)
  qed (use assms(2) run_valid_close in simp)
qed

lemma run_left_step:
  assumes "netns_run_step outside s s'" and "nr_closed s"
  shows "nr_closed s' \<and> run_left s' < run_left s"
  using assms
proof (cases rule: netns_run_step.cases)
  case (guest_handled i n k)
  with sum_loop_left_update [of i "nr_loops s" "(Serving, n + k)"] assms(2) show ?thesis
    by (simp add: run_left_def set_loop_def)
next
  case (worker_ends i l n)
  have "loop_left (l, n) < loop_left (l, Suc n)" by (cases l) simp_all
  with worker_ends sum_loop_left_update [of i "nr_loops s" "(l, n)"] assms(2) show ?thesis
    by (simp add: run_left_def set_loop_def)
next
  case (loop_fails i n e)
  with sum_loop_left_update [of i "nr_loops s" "(Draining e, n)"] show ?thesis
    by (simp add: run_left_def set_loop_def)
next
  case (loop_returns i e)
  with sum_loop_left_update [of i "nr_loops s" "(Returned e, 0)"] assms(2) show ?thesis
    by (simp add: run_left_def set_loop_def)
qed (use assms(2) in \<open>simp_all add: run_left_def\<close>)

lemma all_returned:
  "length (concat (map loop_result ls)) = length ls \<longleftrightarrow> list_all (\<lambda>l. \<exists>e n. l = (Returned e, n)) ls"
proof (induction ls)
  case (Cons l ls)
  with loop_results_le [of ls] show ?case by (cases l; cases "fst l") auto
qed simp

lemma run_never_stuck:
  assumes "run_valid s" and "nr_closed s" and "\<not> run_returned s"
  shows "\<exists>s'. netns_run_step False s s'"
proof (cases "nr_results s")
  case Nil
  with assms(1,3) have "\<not> list_all (\<lambda>l. \<exists>e n. l = (Returned e, n)) (nr_loops s)"
    using all_returned [of "nr_loops s"] mset_eq_length [of "nr_taken s @ nr_results s"]
    by (auto simp: run_valid_def run_returned_def)
  then obtain i where i: "i < length (nr_loops s)" "\<nexists>e n. nr_loops s ! i = (Returned e, n)"
    by (auto simp: list_all_length)
  obtain l n where l: "nr_loops s ! i = (l, n)" by fastforce
  show ?thesis
  proof (cases l)
    case Serving
    with i l assms(2) show ?thesis by (blast intro: loop_fails [of i s n _ ErrClosed])
  next
    case Handling
    with i l show ?thesis by (blast intro: guest_handled [of i s n 0])
  next
    case (Draining e)
    with i l assms(2) show ?thesis by (cases n) (auto intro: worker_ends loop_returns)
  qed (use i l in blast)
qed (blast intro: result_taken)

lemma own_run_step: "netns_run_step False s s' \<Longrightarrow> netns_run_step True s s'"
  by (elim netns_run_stepE) (auto intro: netns_run_step.intros)

interpretation netns_run: task_group "netns_run_step False" "netns_run_step True" run_valid nr_closed
  run_returned run_left
  by unfold_locales (auto intro: own_run_step run_valid_step run_never_stuck dest: run_left_step)

lemma new_netns_run_valid: "run_valid (new_netns_run n)"
proof -
  have "concat (map loop_result (replicate n (Serving, 0))) = []"
    by (induction n) simp_all
  then show ?thesis by (simp add: run_valid_def new_netns_run_def list_all_iff)
qed

lemma loops_kept: "(netns_run_step outside)\<^sup>*\<^sup>* s s' \<Longrightarrow> length (nr_loops s') = length (nr_loops s)"
  by (induction rule: rtranclp_induct) (auto elim!: netns_run_stepE simp: set_loop_def)

text \<open>When all results are taken, every loop has returned without workers, with the errors taken.\<close>

lemma returned_loops:
  assumes "run_valid s" and "run_returned s"
  shows "\<exists>errors. nr_loops s = map (\<lambda>e. (Returned e, 0)) errors \<and> mset errors = mset (nr_taken s)"
proof -
  have m: "mset (nr_taken s @ nr_results s) = mset (concat (map loop_result (nr_loops s)))"
    using assms(1) by (simp add: run_valid_def)
  have "length (nr_taken s) + length (nr_results s) = length (concat (map loop_result (nr_loops s)))"
    using mset_eq_length [OF m] by simp
  with assms(2) loop_results_le [of "nr_loops s"]
  have "length (nr_results s) = 0" and eq: "length (concat (map loop_result (nr_loops s))) = length (nr_loops s)"
    unfolding run_returned_def by linarith+
  then have none: "nr_results s = []" and all: "list_all (\<lambda>l. \<exists>e n. l = (Returned e, n)) (nr_loops s)"
    using all_returned by auto
  have "ls = map (\<lambda>e. (Returned e, 0)) (concat (map loop_result ls))"
    if "list_all (\<lambda>l. \<exists>e n. l = (Returned e, n)) ls" "list_all (loop_ok (nr_closed s)) ls" for ls
    using that by (induction ls) auto
  with all assms(1) m none show ?thesis by (auto simp: run_valid_def)
qed

section \<open>Properties\<close>

text \<open>
  C5. The namespace proxy shuts down completely. Once it is closed, by its context, by \<open>Close\<close> or because
  one listener failed, every run of its loops and workers ends after a bounded number of steps, and
  when no step of its own is left \<open>Run\<close> has returned. \<open>Run\<close> returns only when it is closed, every loop has returned and so
  every worker of every loop has ended, and its error joins exactly the loops' errors that do not just
  say closed.
\<close>

theorem netns_run_drains:
  assumes "(netns_run_step True)\<^sup>*\<^sup>* (new_netns_run listeners) s" and "0 < listeners"
  shows "(nr_closed s \<longrightarrow> (\<forall>n s'. (netns_run_step True ^^ n) s s' \<longrightarrow>
             n \<le> run_left s \<and> ((\<nexists>s''. netns_run_step False s' s'') \<longrightarrow> run_returned s')))
    \<and> (run_returned s \<longrightarrow> nr_closed s
        \<and> (\<exists>errors. nr_loops s = map (\<lambda>e. (Returned e, 0)) errors \<and> mset errors = mset (nr_taken s))
        \<and> proxy_run False (map Some (nr_taken s)) = (Inr (filter (\<lambda>e. e \<noteq> ErrClosed) (nr_taken s)), True))"
proof -
  have valid: "run_valid s" using netns_run.valid_later [OF assms(1) new_netns_run_valid] .
  have "n \<le> run_left s \<and> ((\<nexists>s''. netns_run_step False s' s'') \<longrightarrow> run_returned s')"
    if "(netns_run_step True ^^ n) s s'" "nr_closed s" for n s'
    using netns_run.ends [OF that(1) valid that(2)] .
  moreover have "nr_closed s
      \<and> (\<exists>errors. nr_loops s = map (\<lambda>e. (Returned e, 0)) errors \<and> mset errors = mset (nr_taken s))"
    if ret: "run_returned s"
  proof -
    obtain errors where e: "nr_loops s = map (\<lambda>e. (Returned e, 0)) errors" "mset errors = mset (nr_taken s)"
      using returned_loops [OF valid ret] by blast
    have "nr_loops s \<noteq> []" using loops_kept [OF assms(1)] assms(2) by (auto simp: new_netns_run_def)
    with e(1) valid have "nr_closed s" by (cases errors) (auto simp: run_valid_def)
    with e show ?thesis by blast
  qed
  moreover have "concat (map (\<lambda>r. case r of None \<Rightarrow> [] | Some ErrClosed \<Rightarrow> [] | Some e \<Rightarrow> [e]) (map Some es))
      = filter (\<lambda>e. e \<noteq> ErrClosed) es" for es
    by (induction es) (auto split: serve_error.split)
  then have "proxy_run False (map Some (nr_taken s)) = (Inr (filter (\<lambda>e. e \<noteq> ErrClosed) (nr_taken s)), True)"
    by (simp add: proxy_run_def)
  ultimately show ?thesis by blast
qed

theorem netns_run_drains_witness:
  "\<exists>s. (netns_run_step True)\<^sup>*\<^sup>* (new_netns_run 1) s \<and> run_returned s \<and> nr_loops s = [(Returned (ServeError ''read''), 0)]"
proof -
  let ?s0 = "new_netns_run 1"
  let ?e = "ServeError ''read''"
  let ?s1 = "(set_loop 0 (Draining ?e, 0) ?s0)\<lparr>nr_closed := True\<rparr>"
  let ?s2 = "(set_loop 0 (Returned ?e, 0) ?s1)\<lparr>nr_results := [?e]\<rparr>"
  let ?s3 = "?s2\<lparr>nr_results := [], nr_taken := [?e], nr_closed := True\<rparr>"
  have "netns_run_step True ?s0 ?s1" by (rule loop_fails) (simp_all add: new_netns_run_def)
  moreover have "netns_run_step True ?s1 ?s2"
    using loop_returns [of 0 ?s1 ?e True] by (simp add: new_netns_run_def set_loop_def)
  moreover have "netns_run_step True ?s2 ?s3"
    using result_taken [of ?s2 ?e "[]" True] by (simp add: new_netns_run_def set_loop_def)
  ultimately have run: "(netns_run_step True)\<^sup>*\<^sup>* ?s0 ?s3"
    by (meson converse_rtranclp_into_rtranclp r_into_rtranclp)
  have "run_returned ?s3" "nr_taken ?s3 = [?e]" by (simp_all add: run_returned_def new_netns_run_def set_loop_def)
  moreover have "nr_loops ?s3 = [(Returned ?e, 0)]" by (simp add: new_netns_run_def set_loop_def)
  ultimately show ?thesis using netns_run_drains [OF run] run by blast
qed

end
