(* ===== verification/Engine_Close.thy ===== *)
theory Engine_Close
  imports Task_Group Engine
begin

text \<open>
  How the engine is closed (\<open>Close\<close>, \<open>acquire\<close> and \<open>release\<close> of sdk/pkg/tun2connect/engine.go): \<open>Close\<close>
  refuses new flows, cancels the context of the running ones, waits for their workers and only then
  tears the network stack down.
\<close>

section \<open>Workers and Close\<close>

datatype close_phase = NotClosed | Waiting | StackDown

record closing_engine =
  cl_engine :: engine
  cl_running :: nat
  cl_phase :: close_phase

definition running_engine :: "int \<Rightarrow> bool \<Rightarrow> closing_engine" where
  "running_engine limit udp = \<lparr>cl_engine = new_engine limit udp, cl_running = 0, cl_phase = NotClosed\<rparr>"

text \<open>
  The steps, with whether something from outside may happen: a flow of the guest, a worker whose flow
  ends before the context is cancelled, and the call of \<open>Close\<close>, which takes effect once.
\<close>

inductive close_step :: "bool \<Rightarrow> closing_engine \<Rightarrow> closing_engine \<Rightarrow> bool" for outside :: bool where
  flow_admitted: "outside \<Longrightarrow> engine_acquire (cl_engine s) = (True, e)
    \<Longrightarrow> close_step outside s (s\<lparr>cl_engine := e, cl_running := Suc (cl_running s)\<rparr>)"
| flow_ends: "cl_running s = Suc n \<Longrightarrow> outside \<or> eng_closed (cl_engine s)
    \<Longrightarrow> close_step outside s (s\<lparr>cl_engine := engine_release (cl_engine s), cl_running := n\<rparr>)"
| close_called: "outside \<Longrightarrow> cl_phase s = NotClosed
    \<Longrightarrow> close_step outside s (s\<lparr>cl_engine := engine_close (cl_engine s), cl_phase := Waiting\<rparr>)"
| stack_closed: "cl_phase s = Waiting \<Longrightarrow> eng_workers (cl_engine s) = 0
    \<Longrightarrow> close_step outside s (s\<lparr>cl_phase := StackDown\<rparr>)"

inductive_cases close_stepE: "close_step outside s s'"

definition close_valid :: "nat \<Rightarrow> closing_engine \<Rightarrow> bool" where
  "close_valid limit s =
     (engine_inv limit (cl_engine s, cl_running s)
      \<and> (eng_closed (cl_engine s) \<longleftrightarrow> cl_phase s \<noteq> NotClosed)
      \<and> (cl_phase s = StackDown \<longrightarrow> cl_running s = 0))"

definition close_called_on :: "closing_engine \<Rightarrow> bool" where
  "close_called_on s = (cl_phase s \<noteq> NotClosed)"

definition close_returned :: "closing_engine \<Rightarrow> bool" where
  "close_returned s = (cl_phase s = StackDown)"

definition close_left :: "closing_engine \<Rightarrow> nat" where
  "close_left s = cl_running s + of_bool (cl_phase s = Waiting)"

lemmas close_defs = close_valid_def close_called_on_def close_returned_def close_left_def

lemma own_close_step: "close_step False s s' \<Longrightarrow> close_step True s s'"
  by (elim close_stepE) (simp_all only: close_step.intros simp_thms)

lemma closed_refuses: "eng_closed e \<Longrightarrow> engine_acquire e \<noteq> (True, e')"
  by (simp add: engine_acquire_def)

lemma close_valid_step:
  assumes "close_step outside s s'" and "close_valid limit s"
  shows "close_valid limit s'"
  using assms(1)
proof cases
  case (flow_admitted e)
  then have "engine_step (cl_engine s, cl_running s) (e, Suc (cl_running s))"
    by (intro engine_step.work server_step.admit)
  moreover have "\<not> eng_closed (cl_engine s)" using flow_admitted closed_refuses by blast
  moreover have "eng_closed e = eng_closed (cl_engine s)"
    using flow_admitted by (auto simp: engine_acquire_def split: if_splits prod.splits bool.splits)
  ultimately show ?thesis
    using flow_admitted assms(2) engine_step_inv by (auto simp: close_valid_def)
next
  case (flow_ends n)
  then have "engine_step (cl_engine s, cl_running s) (engine_release (cl_engine s), n)"
    using server_step.finish [of engine_acquire engine_release "cl_engine s" n]
    by (auto intro: engine_step.work)
  then show ?thesis
    using flow_ends assms(2) engine_step_inv by (auto simp: close_valid_def engine_release_def)
next
  case close_called
  then show ?thesis
    using assms(2) engine_step_inv [OF engine_step.shut] by (auto simp: close_valid_def engine_close_def)
next
  case stack_closed
  then show ?thesis using assms(2) by (auto simp: close_valid_def engine_inv_def)
qed

lemma close_never_stuck:
  assumes "close_valid limit s" and "close_called_on s" and "\<not> close_returned s"
  shows "\<exists>s'. close_step False s s'"
proof (cases "cl_running s")
  case 0
  with assms have "cl_phase s = Waiting" "eng_workers (cl_engine s) = 0"
    by (cases "cl_phase s"; simp add: close_defs engine_inv_def)+
  then show ?thesis by (blast intro: stack_closed)
next
  case (Suc n)
  with assms show ?thesis by (auto simp: close_defs intro: flow_ends)
qed

interpretation closing: task_group "close_step False" "close_step True" "close_valid limit" close_called_on
  close_returned close_left for limit
proof
  fix s s'
  show "close_step False s s' \<Longrightarrow> close_step True s s'" by (rule own_close_step)
  assume step: "close_step True s s'" and valid: "close_valid limit s"
  show "close_valid limit s'" by (rule close_valid_step [OF step valid])
  assume "close_called_on s"
  with step valid show "close_called_on s' \<and> close_left s' < close_left s"
    by (elim close_stepE) (auto simp: close_defs closed_refuses)
qed (rule close_never_stuck)

lemma running_engine_valid: "close_valid (max_connections limit) (running_engine limit udp)"
  by (simp add: close_valid_def engine_inv_def running_engine_def new_engine_def new_slots_def)

section \<open>Properties\<close>

text \<open>
  C8. Closing the engine ends everything. Whatever flows came and went before, once \<open>Close\<close> is called no
  flow is admitted any more and at most one step per running worker and one for the stack follow; when
  no step of its own is left \<open>Close\<close> has returned. The stack is torn down only when the last worker has
  ended and every slot is free, so no worker ever uses a closed stack, and at no moment do more workers
  run than the connection limit allows.
\<close>

theorem engine_close_returns:
  assumes "(close_step True)\<^sup>*\<^sup>* (running_engine limit udp) s"
  shows "(close_called_on s \<longrightarrow> fst (engine_acquire (cl_engine s)) = False
        \<and> (\<forall>n s'. (close_step True ^^ n) s s' \<longrightarrow>
             n \<le> cl_running s + 1 \<and> ((\<nexists>s''. close_step False s' s'') \<longrightarrow> close_returned s')))
    \<and> (close_returned s \<longrightarrow> cl_running s = 0 \<and> slot_used (eng_sessions (cl_engine s)) = 0)
    \<and> cl_running s \<le> max_connections limit"
proof -
  have valid: "close_valid (max_connections limit) s"
    using closing.valid_later [OF assms running_engine_valid] .
  have left: "close_left s \<le> cl_running s + 1" by (simp add: close_left_def)
  have "n \<le> cl_running s + 1 \<and> ((\<nexists>s''. close_step False s' s'') \<longrightarrow> close_returned s')"
    if "(close_step True ^^ n) s s'" "close_called_on s" for n s'
    using closing.ends [OF that(1) valid that(2)] left by (blast intro: le_trans)
  moreover have "fst (engine_acquire (cl_engine s)) = False" if "close_called_on s"
    using valid that by (simp add: close_defs engine_acquire_def)
  ultimately show ?thesis using valid by (auto simp: close_defs engine_inv_def)
qed

theorem engine_close_returns_witness:
  "\<exists>s. (close_step True)\<^sup>*\<^sup>* (running_engine 1 False) s \<and> close_returned s \<and> cl_running s = 0"
proof -
  let ?s0 = "running_engine 1 False"
  let ?s1 = "?s0\<lparr>cl_engine := engine_close (cl_engine ?s0), cl_phase := Waiting\<rparr>"
  let ?s2 = "?s1\<lparr>cl_phase := StackDown\<rparr>"
  have "close_step True ?s0 ?s1" by (rule close_called) (simp_all add: running_engine_def)
  moreover have "close_step True ?s1 ?s2"
    by (rule stack_closed) (simp_all add: running_engine_def new_engine_def engine_close_def)
  ultimately have run: "(close_step True)\<^sup>*\<^sup>* ?s0 ?s2"
    by (meson converse_rtranclp_into_rtranclp r_into_rtranclp)
  have "close_returned ?s2" by (simp add: close_returned_def)
  with engine_close_returns [OF run] run show ?thesis by blast
qed

end
