(* ===== verification/Ingress.thy ===== *)
theory Ingress
  imports Net_Addr Proxy_Status
begin

text \<open>
  The ingress channel of the launcher (sdk/cmd/tun2connect/run.go): the pinned ports of the command
  line, the CONNECT head a gateway sends, and the handler that joins the stream to a loopback service.
  A connection is the bytes that will arrive on it, before it ends, fails or times out; the pinned ports
  (a Go map whose values are all true) are a set. \<open>ingress_target\<close> returns the refusal, or the address
  to dial and the bytes after the head. How far bufio had read ahead when the head was complete is an
  argument of the handler; the dial is a parameter.
\<close>

section \<open>The pinned ports\<close>

fun add_pinned :: "u16 set \<Rightarrow> string list \<Rightarrow> string + u16 set" where
  "add_pinned pinned [] = Inr pinned"
| "add_pinned pinned (field # rest) =
     (case parse_uint 16 (trim_space field) of
        None \<Rightarrow> Inl field
      | Some number \<Rightarrow>
          if number = 0 then Inl field else add_pinned (insert (of_nat number) pinned) rest)"

definition parse_pinned_ports :: "string \<Rightarrow> string + u16 set" where
  "parse_pinned_ports text =
     (if text = [] then Inr {} else add_pinned {} (split_byte (CHR '','') text))"

section \<open>The request head\<close>

definition max_ingress_head :: nat where
  "max_ingress_head = push_bit 10 8"

text \<open>\<open>bufio.Reader.ReadString\<close> up to a line feed, \<open>None\<close> when the stream ends before one.\<close>

definition read_string :: "string \<Rightarrow> (string \<times> string) option" where
  "read_string s =
     (case cut_byte (CHR 0x0A) s of
        (line, rest, found) \<Rightarrow> if found then Some (line @ [CHR 0x0A], rest) else None)"

definition strip_line :: "string \<Rightarrow> string" where
  "strip_line line = trim_suffix (trim_suffix line [CHR 0x0A]) [CHR 0x0D]"

definition header_name_ok :: "string \<Rightarrow> bool" where
  "header_name_ok name = (name \<noteq> [] \<and> CHR '' '' \<notin> set name \<and> CHR 0x09 \<notin> set name)"

lemma read_string_shorter: "read_string s = Some (line, rest) \<Longrightarrow> length rest < length s"
  by (auto simp: read_string_def dest!: cut_byte_foundD split: prod.splits if_splits)

text \<open>The header loop: how many Host fields, the content of the last one, and the bytes that follow.\<close>

function ingress_headers ::
  "text_env \<Rightarrow> nat \<Rightarrow> string \<Rightarrow> string \<Rightarrow> (nat \<times> string \<times> string) option" where
  "ingress_headers env hosts host s =
     (case read_string s of
        None \<Rightarrow> None
      | Some (raw, rest) \<Rightarrow>
          (let line = strip_line raw in
           if line = [] then Some (hosts, host, rest)
           else
             (case cut_byte (CHR '':'') line of
                (name, content, ok) \<Rightarrow>
                  if \<not> ok \<or> \<not> header_name_ok name then None
                  else if equal_fold env name ''Host''
                  then ingress_headers env (Suc hosts) (trim_space content) rest
                  else ingress_headers env hosts host rest)))"
  by pat_completeness auto
termination ingress_headers
  by (relation "measure (\<lambda>(env, hosts, host, s). length s)") (auto dest: read_string_shorter)

declare ingress_headers.simps [simp del]

definition ingress_target ::
  "text_env \<Rightarrow> u16 set \<Rightarrow> string \<Rightarrow> (nat \<times> string) + (string \<times> string)" where
  "ingress_target env pinned s =
     (case read_string s of
        None \<Rightarrow> Inl (400, ''malformed-request-line'')
      | Some (line, s1) \<Rightarrow>
          (case split_byte (CHR '' '') (strip_line line) of
             [verb, target, version] \<Rightarrow>
               if verb = [] \<or> target = [] then Inl (400, ''malformed-request-line'')
               else if version \<noteq> ''HTTP/1.1'' \<and> version \<noteq> ''HTTP/1.0'' then
                 (if has_prefix version ''HTTP/'' then Inl (505, ''unsupported-version'')
                  else Inl (400, ''malformed-request-line''))
               else
                 (case ingress_headers env 0 [] s1 of
                    None \<Rightarrow> Inl (400, ''malformed-header'')
                  | Some (hosts, host, rest) \<Rightarrow>
                      if hosts > 1 then Inl (400, ''duplicate-host'')
                      else if verb \<noteq> ''CONNECT'' then Inl (405, ''connect-only'')
                      else if version = ''HTTP/1.1'' \<and> hosts = 0 then Inl (400, ''missing-host'')
                      else
                        (case split_host_port target of
                           None \<Rightarrow> Inl (400, ''malformed-target'')
                         | Some (addr, port) \<Rightarrow>
                             if addr \<noteq> ''127.0.0.1'' \<and> addr \<noteq> ''::1'' then Inl (400, ''malformed-target'')
                             else
                               (case parse_uint 16 port of
                                  None \<Rightarrow> Inl (400, ''malformed-port'')
                                | Some number \<Rightarrow>
                                    if number = 0 then Inl (400, ''malformed-port'')
                                    else if hosts = 1 \<and> host \<noteq> target
                                    then Inl (400, ''authority-mismatch'')
                                    else if of_nat number \<notin> pinned
                                    then Inl (403, ''port-not-permitted'')
                                    else Inr (target, rest))))
           | _ \<Rightarrow> Inl (400, ''malformed-request-line'')))"

section \<open>The handler of one connection\<close>

text \<open>\<open>http.StatusText\<close> for the statuses of the ingress channel and of the boundary.\<close>

definition status_text :: "nat \<Rightarrow> string" where
  "status_text status =
     (if status = 400 then ''Bad Request'' else if status = 403 then ''Forbidden''
      else if status = 405 then ''Method Not Allowed''
      else if status = 431 then ''Request Header Fields Too Large''
      else if status = 502 then ''Bad Gateway'' else if status = 503 then ''Service Unavailable''
      else if status = 505 then ''HTTP Version Not Supported'' else [])"

definition crlf :: string where
  "crlf = [CHR 0x0D, CHR 0x0A]"

definition ingress_refusal :: "nat \<Rightarrow> string \<Rightarrow> string \<Rightarrow> string" where
  "ingress_refusal status message reason =
     ''HTTP/1.1 '' @ show_nat status @ '' '' @ message @ crlf
       @ ''Proxy-Status: '' @ proxy_status ''ingress'' reason @ crlf
       @ ''Content-Length: 0'' @ crlf @ crlf"

text \<open>
  What one connection leads to: the head written to the gateway, the loopback address dialed, and, when
  the dial succeeded, the bytes copied to the service (first what bufio holds, then the connection).
\<close>

record ingress_outcome =
  io_head :: string
  io_dialed :: "string option"
  io_upstream :: "string option"

definition buffered_bytes :: "nat \<Rightarrow> nat \<Rightarrow> string \<Rightarrow> string" where
  "buffered_bytes consumed ahead s = drop consumed (take (consumed + ahead) s)"

definition serve_ingress ::
  "text_env \<Rightarrow> u16 set \<Rightarrow> (string \<Rightarrow> bool) \<Rightarrow> nat \<Rightarrow> string \<Rightarrow> ingress_outcome" where
  "serve_ingress env pinned dial ahead s =
     (let limited = take max_ingress_head s in
      (case ingress_target env pinned limited of
         Inl (status, reason) \<Rightarrow>
           \<lparr>io_head = ingress_refusal status (status_text status) reason, io_dialed = None,
            io_upstream = None\<rparr>
       | Inr (target, rest) \<Rightarrow>
           if \<not> dial target then
             \<lparr>io_head = ingress_refusal 502 ''Bad Gateway'' ''dial-failed'', io_dialed = Some target,
              io_upstream = None\<rparr>
           else
             (let consumed = length limited - length rest in
              \<lparr>io_head = ''HTTP/1.1 200 OK'' @ crlf @ crlf, io_dialed = Some target,
               io_upstream = Some (buffered_bytes consumed ahead s @ drop (consumed + ahead) s)\<rparr>)))"

section \<open>Only pinned loopback ports\<close>

lemma add_pinned_spec:
  "add_pinned pinned parts = Inr result
    \<Longrightarrow> n \<in> result \<longleftrightarrow> n \<in> pinned
          \<or> n \<noteq> 0 \<and> list_ex (\<lambda>f. parse_uint 16 (trim_space f) = Some (unat n)) parts"
proof (induction parts arbitrary: pinned)
  case (Cons field rest)
  then obtain number where number: "parse_uint 16 (trim_space field) = Some number" "number \<noteq> 0"
    and rest: "add_pinned (insert (of_nat number) pinned) rest = Inr result"
    by (auto split: option.splits if_splits)
  have "number < 2 ^ 16" using number(1) by (rule parse_uint_bound)
  then have "unat (of_nat number :: u16) = number" by (simp add: unat_of_nat)
  then have "n = of_nat number \<longleftrightarrow> unat n = number" by (metis word_unat_eq_iff)
  with Cons.IH [OF rest] number show ?case by (auto simp: unat_eq_zero)
qed simp

text \<open>A port is pinned exactly when the comma-separated option lists it.\<close>

lemma pinned_iff_listed:
  assumes "parse_pinned_ports text = Inr pinned"
  shows "n \<in> pinned \<longleftrightarrow> text \<noteq> [] \<and> n \<noteq> 0
    \<and> list_ex (\<lambda>f. parse_uint 16 (trim_space f) = Some (unat n)) (split_byte (CHR '','') text)"
  using assms by (auto simp: parse_pinned_ports_def add_pinned_spec split: if_splits)

lemma ingress_targetE:
  assumes "ingress_target env pinned s = Inr (target, rest)"
  obtains line s1 version hosts host addr port number where
    "read_string s = Some (line, s1)"
    "split_byte (CHR '' '') (strip_line line) = [''CONNECT'', target, version]"
    "version = ''HTTP/1.1'' \<and> hosts = 1 \<or> version = ''HTTP/1.0''"
    "ingress_headers env 0 [] s1 = Some (hosts, host, rest)"
    "hosts \<le> 1" "hosts = 1 \<Longrightarrow> host = target"
    "split_host_port target = Some (addr, port)" "addr = ''127.0.0.1'' \<or> addr = ''::1''"
    "parse_uint 16 port = Some number" "number \<noteq> 0" "of_nat number \<in> pinned"
  using assms
  by (auto simp: ingress_target_def split: option.splits list.splits if_splits)

text \<open>A head that is read leaves a suffix of the stream.\<close>

lemma read_string_Some:
  "read_string s = Some (line, rest) \<longleftrightarrow> (\<exists>t. line = t @ [CHR 0x0A] \<and> s = line @ rest \<and> CHR 0x0A \<notin> set t)"
proof
  assume "read_string s = Some (line, rest)"
  then show "\<exists>t. line = t @ [CHR 0x0A] \<and> s = line @ rest \<and> CHR 0x0A \<notin> set t"
    by (auto simp: read_string_def dest!: cut_byte_foundD split: prod.splits if_splits)
next
  assume "\<exists>t. line = t @ [CHR 0x0A] \<and> s = line @ rest \<and> CHR 0x0A \<notin> set t"
  then show "read_string s = Some (line, rest)"
    using cut_byte_append by (fastforce simp: read_string_def)
qed

lemma ingress_headers_suffix:
  "ingress_headers env hosts host s = Some (hosts', host', rest) \<Longrightarrow> \<exists>head. s = head @ rest"
proof (induction env hosts host s rule: ingress_headers.induct)
  case (1 env hosts host s)
  from "1.prems" obtain raw s1 where line: "read_string s = Some (raw, s1)"
    by (subst (asm) ingress_headers.simps) (auto split: option.splits)
  then have s: "s = raw @ s1" by (auto simp: read_string_Some)
  have "\<exists>head. s1 = head @ rest"
  proof (cases "strip_line raw = []")
    case True
    with "1.prems" line show ?thesis by (subst (asm) ingress_headers.simps) simp
  next
    case False
    obtain name content ok where cut: "cut_byte (CHR '':'') (strip_line raw) = (name, content, ok)"
      by (metis prod_cases3)
    with "1.prems" line False have ok: "\<not> (\<not> ok \<or> \<not> header_name_ok name)"
      by (subst (asm) ingress_headers.simps) (simp split: if_splits)
    note IH = "1.IH" [OF line refl refl False cut [symmetric] refl ok]
    from "1.prems" line False cut ok have
      "(if equal_fold env name ''Host'' then ingress_headers env (Suc hosts) (trim_space content) s1
        else ingress_headers env hosts host s1) = Some (hosts', host', rest)"
      by (subst (asm) ingress_headers.simps) simp
    with IH show ?thesis by (simp split: if_splits)
  qed
  with s show ?case by auto
qed

lemma ingress_target_suffix:
  assumes "ingress_target env pinned s = Inr (target, rest)"
  shows "\<exists>head. s = head @ rest"
proof -
  from assms obtain line s1 hosts host where "read_string s = Some (line, s1)"
    and "ingress_headers env 0 [] s1 = Some (hosts, host, rest)"
    by (rule ingress_targetE) blast
  then show ?thesis using ingress_headers_suffix by (fastforce simp: read_string_Some)
qed

section \<open>What the handler dials\<close>

lemma serve_ingress_dials:
  "io_dialed (serve_ingress env pinned dial ahead s) = Some t
    \<longleftrightarrow> (\<exists>rest. ingress_target env pinned (take max_ingress_head s) = Inr (t, rest))"
  by (auto simp: serve_ingress_def Let_def split: sum.splits prod.splits)

section \<open>A pinned service is reached\<close>

definition ingress_request :: "string \<Rightarrow> string" where
  "ingress_request target =
     ''CONNECT '' @ target @ '' HTTP/1.1'' @ crlf @ ''Host: '' @ target @ crlf @ crlf"

definition loopback_target :: "bool \<Rightarrow> u16 \<Rightarrow> string" where
  "loopback_target v6 port =
     join_host_port (if v6 then ''::1'' else ''127.0.0.1'') (show_nat (unat port))"

lemma read_string_crlf: "CHR 0x0A \<notin> set a \<Longrightarrow> read_string (a @ crlf @ s) = Some (a @ crlf, s)"
  using cut_byte_append [of "CHR 0x0A" "a @ [CHR 0x0D]" s] by (simp add: read_string_def crlf_def)

lemma strip_line_crlf: "strip_line (a @ crlf) = a"
  using trim_suffix_append [of "a @ [CHR 0x0D]" "[CHR 0x0A]"]
  by (simp add: strip_line_def crlf_def)

lemmas crlf_lines = read_string_crlf [of "[]", simplified] strip_line_crlf [of "[]", simplified]
  read_string_crlf strip_line_crlf

lemma ingress_headers_host:
  assumes "visible_char (hd target)" and "visible_char (last target)" and "target \<noteq> []"
    and "CHR 0x0A \<notin> set target"
  shows "ingress_headers env 0 [] (''Host: '' @ target @ crlf @ crlf @ s) = Some (1, target, s)"
proof -
  let ?line = "''Host: '' @ target"
  have "read_string (''Host: '' @ target @ crlf @ crlf @ s) = Some (?line @ crlf, crlf @ s)"
    using read_string_crlf [of ?line "crlf @ s"] assms(4) by simp
  moreover have "cut_byte (CHR '':'') ?line = (''Host'', CHR '' '' # target, True)"
    using cut_byte_append [of "CHR '':''" "''Host''" "CHR '' '' # target"] by simp
  moreover have "strip_line (?line @ crlf) = ?line" by (rule strip_line_crlf)
  moreover have "ingress_headers env (Suc 0) target (crlf @ s) = Some (1, target, s)"
    by (subst ingress_headers.simps) (simp add: crlf_lines)
  ultimately show ?thesis
    using trim_space_leading_blank [OF assms(3,1,2)]
    by (subst ingress_headers.simps) (simp add: header_name_ok_def equal_fold_def is_ascii_def byte_of_def)
qed

lemma loopback_target_shape:
  "loopback_target v6 port
     = (if v6 then ''[::1]:'' else ''127.0.0.1:'') @ show_nat (unat port)"
  by (simp add: loopback_target_def join_host_port_def)

lemma loopback_target_chars:
  "visible_char (hd (loopback_target v6 port))" "visible_char (last (loopback_target v6 port))"
  "loopback_target v6 port \<noteq> []" "CHR 0x0A \<notin> set (loopback_target v6 port)"
  "CHR '' '' \<notin> set (loopback_target v6 port)"
proof -
  let ?p = "show_nat (unat port)"
  have digits: "48 \<le> byte_of c \<and> byte_of c \<le> 57" if "c \<in> set ?p" for c
    using that show_nat_digits [of "unat port"] by (auto simp: list_all_iff is_digit_def)
  show "visible_char (last (loopback_target v6 port))"
    using digits [of "last ?p"] by (simp add: loopback_target_shape visible_char_def)
  show "CHR 0x0A \<notin> set (loopback_target v6 port)" "CHR '' '' \<notin> set (loopback_target v6 port)"
    using digits [of "CHR 0x0A"] digits [of "CHR '' ''"] by (auto simp: loopback_target_shape byte_of_def)
qed (simp_all add: loopback_target_shape visible_char_def byte_of_def)

lemma split_loopback_target:
  "split_host_port (loopback_target v6 port)
     = Some (if v6 then ''::1'' else ''127.0.0.1'', show_nat (unat port))"
  unfolding loopback_target_def
  by (rule split_join_host_port) (use digit_not_special [OF show_nat_digits] in auto)

lemma length_ingress_request: "length (ingress_request (loopback_target v6 port)) < max_ingress_head"
proof -
  have "unat port < 2 ^ 16" using unsigned_less [of port] by simp
  then have "length (show_nat (unat port)) \<le> 5" by (intro length_show_nat) simp_all
  then show ?thesis
    by (simp add: ingress_request_def loopback_target_shape crlf_def max_ingress_head_def)
qed

lemma request_targeted:
  assumes "port \<in> pinned" and "port \<noteq> 0"
  shows "ingress_target env pinned (ingress_request (loopback_target v6 port) @ s)
    = Inr (loopback_target v6 port, s)"
proof -
  let ?t = "loopback_target v6 port"
  let ?line = "''CONNECT '' @ ?t @ '' HTTP/1.1''"
  let ?fields = "''Host: '' @ ?t @ crlf @ crlf @ s"
  have "CHR 0x0A \<notin> set ?line" using loopback_target_chars(4) by simp
  then have "read_string (ingress_request ?t @ s) = Some (?line @ crlf, ?fields)"
    using read_string_crlf [of ?line ?fields] by (simp add: ingress_request_def)
  moreover have "split_byte (CHR '' '') (strip_line (?line @ crlf)) = [''CONNECT'', ?t, ''HTTP/1.1'']"
    unfolding strip_line_crlf
    using split_byte_append [of "CHR '' ''" ?t "''HTTP/1.1''"] loopback_target_chars(5) by simp
  moreover note ingress_headers_host [OF loopback_target_chars(1-4)]
  moreover have "unat port < 2 ^ 16" using unsigned_less [of port] by simp
  then have "parse_uint 16 (show_nat (unat port)) = Some (unat port)" by (rule parse_uint_show_nat)
  moreover note split_loopback_target [of v6 port] loopback_target_chars(3) [of v6 port]
  ultimately show ?thesis
    using assms by (cases v6) (simp_all add: ingress_target_def unat_eq_zero)
qed

lemma buffered_then_rest: "buffered_bytes n ahead s @ drop (n + ahead) s = drop n s"
  by (metis append_take_drop_id buffered_bytes_def drop_drop drop_take add_diff_cancel_left' add.commute)

lemma tunnel_bytes_complete:
  assumes "ingress_target env pinned (take max_ingress_head s) = Inr (t, rest)" and "dial t"
  shows "\<exists>n \<le> max_ingress_head. io_upstream (serve_ingress env pinned dial ahead s) = Some (drop n s)"
  using assms buffered_then_rest
  by (intro exI [of _ "length (take max_ingress_head s) - length rest"])
     (simp add: serve_ingress_def Let_def)

text \<open>The values of the Host fields of a head, read off its lines after the first, up to the empty one.\<close>

function header_lines :: "string \<Rightarrow> string list" where
  "header_lines s =
     (case read_string s of
        None \<Rightarrow> []
      | Some (raw, rest) \<Rightarrow> if strip_line raw = [] then [] else strip_line raw # header_lines rest)"
  by pat_completeness auto
termination header_lines
  by (relation "measure length") (auto dest: read_string_shorter)

declare header_lines.simps [simp del]

definition host_fields :: "text_env \<Rightarrow> string \<Rightarrow> string list" where
  "host_fields env s =
     (case read_string s of
        None \<Rightarrow> []
      | Some (request_line, lines) \<Rightarrow>
          map (\<lambda>l. trim_space (fst (snd (cut_byte (CHR '':'') l))))
            (filter (\<lambda>l. equal_fold env (fst (cut_byte (CHR '':'') l)) ''Host'') (header_lines lines)))"

lemma ingress_headers_hosts:
  assumes "ingress_headers env hosts host s = Some (hosts', host', rest)"
  shows "let values = map (\<lambda>l. trim_space (fst (snd (cut_byte (CHR '':'') l))))
           (filter (\<lambda>l. equal_fold env (fst (cut_byte (CHR '':'') l)) ''Host'') (header_lines s)) in
    hosts' = hosts + length values \<and> host' = last (host # values)"
  using assms
proof (induction env hosts host s rule: ingress_headers.induct)
  case (1 env hosts host s)
  from "1.prems" obtain raw s1 where r: "read_string s = Some (raw, s1)"
    by (subst (asm) ingress_headers.simps) (auto split: option.splits)
  show ?case
  proof (cases "strip_line raw = []")
    case True
    with r "1.prems" show ?thesis by (simp add: ingress_headers.simps [of _ _ _ s] header_lines.simps [of s])
  next
    case False
    obtain name content ok where c: "cut_byte (CHR '':'') (strip_line raw) = (name, content, ok)"
      by (metis prod_cases3)
    from "1.prems" r False c have ok: "\<not> (\<not> ok \<or> \<not> header_name_ok name)"
      by (subst (asm) ingress_headers.simps) (auto simp: Let_def split: if_splits)
    note step = "1.prems" [unfolded ingress_headers.simps [of _ _ _ s] r] c ok False
    show ?thesis
    proof (cases "equal_fold env name ''Host''")
      case host: True
      with step have "ingress_headers env (Suc hosts) (trim_space content) s1 = Some (hosts', host', rest)" by simp
      from "1.IH"(1) [OF r refl refl False c [symmetric] refl ok host this] r c host False
      show ?thesis by (simp add: header_lines.simps [of s])
    next
      case host: False
      with step have "ingress_headers env hosts host s1 = Some (hosts', host', rest)" by simp
      from "1.IH"(2) [OF r refl refl False c [symmetric] refl ok host this] r c host False
      show ?thesis by (simp add: header_lines.simps [of s])
    qed
  qed
qed

text \<open>
  C18. The ingress channel reaches only pinned loopback services: whatever bytes a gateway sends, an
  address the handler dials is the IPv4 or the IPv6 loopback address with a decimal port that the
  \<open>-ingress-port\<close> option lists, it was named by a CONNECT request line and, when a Host field is present,
  by exactly one that equals it; an HTTP/1.1 request has one.
\<close>

theorem ingress_dials_only_pinned_loopback:
  assumes "parse_pinned_ports text = Inr pinned"
    and "io_dialed (serve_ingress env pinned dial ahead s) = Some t"
  shows "\<exists>port number. t \<in> {''127.0.0.1:'' @ port, ''[127.0.0.1]:'' @ port, ''[::1]:'' @ port}
    \<and> parse_uint 16 port = Some number \<and> 0 < number \<and> number < 2 ^ 16
    \<and> list_ex (\<lambda>f. parse_uint 16 (trim_space f) = Some number) (split_byte (CHR '','') text)
    \<and> (\<exists>version. has_prefix s (''CONNECT '' @ t @ '' '' @ version)
         \<and> (version = ''HTTP/1.1'' \<or> version = ''HTTP/1.0'')
         \<and> (host_fields env (take max_ingress_head s) = [t]
            \<or> version = ''HTTP/1.0'' \<and> host_fields env (take max_ingress_head s) = []))"
proof -
  from assms(2) obtain rest where "ingress_target env pinned (take max_ingress_head s) = Inr (t, rest)"
    by (auto simp: serve_ingress_dials)
  then obtain line s1 version hosts host addr port number where
    line: "read_string (take max_ingress_head s) = Some (line, s1)"
      "split_byte (CHR '' '') (strip_line line) = [''CONNECT'', t, version]"
      "version = ''HTTP/1.1'' \<and> hosts = 1 \<or> version = ''HTTP/1.0''"
    and hosts: "ingress_headers env 0 [] s1 = Some (hosts, host, rest)" "hosts \<le> 1" "hosts = 1 \<Longrightarrow> host = t"
    and split: "split_host_port t = Some (addr, port)" and addr: "addr = ''127.0.0.1'' \<or> addr = ''::1''"
    and number: "parse_uint 16 port = Some number" "number \<noteq> 0" "of_nat number \<in> pinned"
    by (rule ingress_targetE) blast
  have bound: "number < 2 ^ 16" using number(1) by (rule parse_uint_bound)
  then have "unat (of_nat number :: u16) = number" by (simp add: unat_of_nat)
  with pinned_iff_listed [OF assms(1)] number(3) have
    listed: "list_ex (\<lambda>f. parse_uint 16 (trim_space f) = Some number) (split_byte (CHR '','') text)"
    by simp
  have "strip_line line = ''CONNECT '' @ t @ '' '' @ version"
    using join_split_byte [of "CHR '' ''" "strip_line line"] line(2) by simp
  moreover have "\<exists>post. take max_ingress_head s = strip_line line @ post"
    using line(1) by (auto simp: read_string_Some strip_line_def trim_suffix_def has_suffix_iff)
  ultimately have "has_prefix s (''CONNECT '' @ t @ '' '' @ version)"
    by (metis append.assoc append_take_drop_id has_prefix_iff)
  moreover have "t \<in> {''127.0.0.1:'' @ port, ''[127.0.0.1]:'' @ port, ''[::1]:'' @ port}"
    using addr split_host_port_Some [OF split] by auto
  moreover have "host_fields env (take max_ingress_head s) = [t]
      \<or> version = ''HTTP/1.0'' \<and> host_fields env (take max_ingress_head s) = []"
    using ingress_headers_hosts [OF hosts(1)] hosts(2,3) line(1,3)
    by (auto simp: host_fields_def Let_def le_Suc_eq length_Suc_conv)
  ultimately show ?thesis using number bound listed line(3) by blast
qed

theorem ingress_dials_only_pinned_loopback_witness:
  "\<exists>port number. loopback_target True 8081
       \<in> {''127.0.0.1:'' @ port, ''[127.0.0.1]:'' @ port, ''[::1]:'' @ port}
     \<and> parse_uint 16 port = Some number
     \<and> list_ex (\<lambda>f. parse_uint 16 (trim_space f) = Some number) [''8080'', '' 8081'']"
proof -
  let ?s = "ingress_request (loopback_target True 8081)"
  have pinned: "parse_pinned_ports ''8080, 8081'' = Inr {8080, 8081}"
    by (simp add: parse_pinned_ports_def net_eval insert_commute)
  have "take max_ingress_head ?s = ?s"
    using length_ingress_request [of True 8081] by simp
  then have "io_dialed (serve_ingress ascii_env {8080, 8081} (\<lambda>_. True) 0 ?s) = Some (loopback_target True 8081)"
    using request_targeted [of 8081 "{8080, 8081}" ascii_env True "[]"] by (simp add: serve_ingress_dials)
  moreover have "split_byte (CHR '','') ''8080, 8081'' = [''8080'', '' 8081'']" by simp
  ultimately show ?thesis using ingress_dials_only_pinned_loopback [OF pinned] by metis
qed

text \<open>
  C35. Every pinned service is reached, and nothing is lost on the way: for each pinned port and either
  loopback address, the request of the specification is answered 200 when the service accepts the
  connection, exactly that address is dialed, and the service is sent every byte that follows the head,
  however far the reader had run ahead of it.
\<close>

theorem pinned_service_reached:
  assumes "port \<in> pinned" and "port \<noteq> 0" and "dial (loopback_target v6 port)"
  shows "serve_ingress env pinned dial ahead (ingress_request (loopback_target v6 port) @ data)
    = \<lparr>io_head = ''HTTP/1.1 200 OK'' @ crlf @ crlf, io_dialed = Some (loopback_target v6 port),
       io_upstream = Some data\<rparr>"
proof -
  let ?r = "ingress_request (loopback_target v6 port)"
  let ?limited = "take max_ingress_head (?r @ data)"
  obtain more_data where limited: "?limited = ?r @ more_data"
    using length_ingress_request [of v6 port] by simp
  then have "length ?limited - length more_data = length ?r" by simp
  with limited request_targeted [OF assms(1,2)] assms(3)
    buffered_then_rest [of "length ?r" ahead "?r @ data"]
  show ?thesis by (simp add: serve_ingress_def Let_def)
qed

theorem pinned_service_reached_witness:
  "io_upstream (serve_ingress ascii_env {8081} (\<lambda>_. True) 7
     (ingress_request (loopback_target False 8081) @ ''hello'')) = Some ''hello''"
  using pinned_service_reached [of 8081 "{8081}" "\<lambda>_. True" False ascii_env 7 "''hello''"] by simp

section \<open>Refusals\<close>

definition ingress_reasons :: "(nat \<times> string) list" where
  "ingress_reasons =
     [(400, ''malformed-request-line''), (505, ''unsupported-version''), (400, ''malformed-header''),
      (400, ''duplicate-host''), (405, ''connect-only''), (400, ''missing-host''),
      (400, ''malformed-target''), (400, ''malformed-port''), (400, ''authority-mismatch''),
      (403, ''port-not-permitted'')]"

lemma ingress_reason_mem:
  "(400, ''malformed-request-line'') \<in> set ingress_reasons" "(505, ''unsupported-version'') \<in> set ingress_reasons"
  "(400, ''malformed-header'') \<in> set ingress_reasons" "(400, ''duplicate-host'') \<in> set ingress_reasons"
  "(405, ''connect-only'') \<in> set ingress_reasons" "(400, ''missing-host'') \<in> set ingress_reasons"
  "(400, ''malformed-target'') \<in> set ingress_reasons" "(400, ''malformed-port'') \<in> set ingress_reasons"
  "(400, ''authority-mismatch'') \<in> set ingress_reasons" "(403, ''port-not-permitted'') \<in> set ingress_reasons"
  by (simp_all add: ingress_reasons_def)

lemma ingress_target_refusal:
  "ingress_target env pinned s = Inl (status, reason) \<Longrightarrow> (status, reason) \<in> set ingress_reasons"
  by (auto simp: ingress_target_def ingress_reason_mem split: option.splits list.splits if_splits)

lemma ingress_reasons_read_back:
  "(status, reason) \<in> set ((502, ''dial-failed'') # ingress_reasons)
    \<Longrightarrow> proxy_status_reason (proxy_status ''ingress'' reason) = reason
        \<and> 400 \<le> status \<and> (status \<noteq> 502 \<longrightarrow> status_text status \<noteq> [])"
proof -
  assume "(status, reason) \<in> set ((502, ''dial-failed'') # ingress_reasons)"
  moreover have "list_all (\<lambda>(status, reason). reason_token reason \<and> 400 \<le> status
      \<and> (status \<noteq> 502 \<longrightarrow> status_text status \<noteq> [])) ((502, ''dial-failed'') # ingress_reasons)"
    by (simp add: ingress_reasons_def reason_token_def token_char_def byte_of_def status_text_def)
  ultimately have "reason_token reason \<and> 400 \<le> status \<and> (status \<noteq> 502 \<longrightarrow> status_text status \<noteq> [])"
    by (auto simp: list_all_iff)
  then show ?thesis by (simp add: proxy_status_reason_status)
qed

text \<open>
  A gateway always learns why: a connection that is not joined to a service gets an HTTP response
  whose status and reason belong to one fixed table (with \<open>dial-failed\<close> for a pinned service that does
  not answer), and the Proxy-Status field of that response reads back as exactly that reason.
\<close>

lemma ingress_refusals_readable:
  assumes "io_upstream (serve_ingress env pinned dial ahead s) = None"
  shows "\<exists>status message reason. io_head (serve_ingress env pinned dial ahead s)
        = ingress_refusal status message reason
    \<and> (status, reason) \<in> set ((502, ''dial-failed'') # ingress_reasons) \<and> message \<noteq> []
    \<and> proxy_status_reason (proxy_status ''ingress'' reason) = reason
    \<and> (io_dialed (serve_ingress env pinned dial ahead s) = None \<longleftrightarrow> status \<noteq> 502)"
proof (cases "ingress_target env pinned (take max_ingress_head s)")
  case (Inl refusal)
  obtain status reason where r: "refusal = (status, reason)" by fastforce
  with Inl ingress_target_refusal have mem: "(status, reason) \<in> set ingress_reasons" by blast
  then have "status \<noteq> 502" by (auto simp: ingress_reasons_def)
  with mem ingress_reasons_read_back [of status reason] Inl r show ?thesis
    by (intro exI [of _ status] exI [of _ "status_text status"] exI [of _ reason])
       (simp add: serve_ingress_def)
next
  case (Inr found)
  with assms have "\<not> dial (fst found)"
    by (cases found) (auto simp: serve_ingress_def Let_def split: if_splits)
  with Inr ingress_reasons_read_back [of 502 "''dial-failed''"] show ?thesis
    by (intro exI [of _ 502] exI [of _ "''Bad Gateway''"] exI [of _ "''dial-failed''"])
       (cases found, simp add: serve_ingress_def)
qed

text \<open>
  Two refusals that differ from the specification: a request line that is not CONNECT is answered with
  405 and not as a malformed request line, and a head over the limit with 400 and not with 431.
\<close>

lemma other_method_answered_405:
  assumes "verb \<noteq> ''CONNECT''" and "verb \<noteq> []" and "target \<noteq> []"
    and "split_byte (CHR '' '') line = [verb, target, ''HTTP/1.1'']" and "CHR 0x0A \<notin> set line"
    and "ingress_headers env 0 [] s = Some (hosts, host, rest)" and "hosts \<le> 1"
  shows "ingress_target env pinned (line @ crlf @ s) = Inl (405, ''connect-only'')"
  using assms by (simp add: ingress_target_def read_string_crlf strip_line_crlf)

lemma endless_head_answered_400:
  assumes "list_all (\<lambda>c. c \<noteq> CHR 0x0A) (take max_ingress_head s)"
  shows "io_head (serve_ingress env pinned dial ahead s)
    = ingress_refusal 400 ''Bad Request'' ''malformed-request-line''"
proof -
  have "CHR 0x0A \<notin> set (take max_ingress_head s)" using assms by (auto simp: list_all_iff)
  then have "read_string (take max_ingress_head s) = None"
    by (simp add: read_string_def cut_byte_absent)
  then show ?thesis by (simp add: serve_ingress_def ingress_target_def status_text_def)
qed

end
