(* ===== verification/Launcher.thy ===== *)
theory Launcher
  imports Ingress Http_Head Virtual_DNS
begin

text \<open>
  The tun2connect command (sdk/cmd/tun2connect/run.go and main.go): arguments and addresses of the
  boundary, the setup of the TUN device, the drop of \<open>CAP_NET_ADMIN\<close>, the order in which the launcher
  does all of it, and its duties as the first process. What the kernel answers (interfaces, netlink,
  capability and wait calls) and what \<open>url.Parse\<close> returns are parameters; the program's decisions and
  the order of its effects are the model. \<open>log.Fatal\<close> ends the run with the outcome \<open>Fatal\<close>.
\<close>

section \<open>Arguments and addresses\<close>

text \<open>\<open>strings.Contains\<close>.\<close>

fun contains_sub :: "string \<Rightarrow> string \<Rightarrow> bool" where
  "contains_sub [] sub = (sub = [])"
| "contains_sub (x # xs) sub = (has_prefix (x # xs) sub \<or> contains_sub xs sub)"

fun parse_run_args :: "string list \<Rightarrow> (string \<times> string list) option" where
  "parse_run_args [] = None"
| "parse_run_args (first # command) =
     (if contains_sub first ''://'' then Some (first, command) else Some (''unix://'' @ first, command))"

definition parse_vsock :: "string \<Rightarrow> string + (u32 \<times> u32)" where
  "parse_vsock addr =
     (case cut_byte (CHR '':'') addr of
        (raw_cid, raw_port, found) \<Rightarrow>
          if \<not> found then Inl ''invalid vsock address''
          else
            (case parse_uint 32 raw_cid of
               None \<Rightarrow> Inl ''invalid vsock cid''
             | Some cid \<Rightarrow>
                 (case parse_uint 32 raw_port of
                    None \<Rightarrow> Inl ''invalid vsock port''
                  | Some port \<Rightarrow> Inr (of_nat cid, of_nat port))))"

record parsed_url =
  url_scheme :: string
  url_host :: string
  url_path :: string

datatype boundary_dial = DialNet string string | DialVsock u32 u32

definition boundary_dialer :: "parsed_url option \<Rightarrow> string + boundary_dial" where
  "boundary_dialer parsed =
     (case parsed of
        None \<Rightarrow> Inl ''invalid URL''
      | Some u \<Rightarrow>
          if url_scheme u = ''unix'' then Inr (DialNet ''unix'' (url_path u))
          else if url_scheme u = ''tcp'' then Inr (DialNet ''tcp'' (url_host u))
          else if url_scheme u = ''vsock'' then
            (case parse_vsock (url_host u) of
               Inl e \<Rightarrow> Inl e
             | Inr (cid, port) \<Rightarrow> Inr (DialVsock cid port))
          else Inl ''unsupported proxy scheme'')"

definition virtual_dns_with :: "int \<Rightarrow> virtual_dns option" where
  "virtual_dns_with ttl = (if ttl < 0 then None else Some (new_virtual_dns\<lparr>dns_ttl := ttl\<rparr>))"

datatype listen_action = ListenVsock u32 | ListenUnix string

definition listen_ingress :: "string \<Rightarrow> string + listen_action" where
  "listen_ingress spec =
     (case cut_prefix spec ''vsock://'' of
        (raw_port, found) \<Rightarrow>
          if found then
            (case parse_uint 32 (trim_prefix raw_port '':'') of
               None \<Rightarrow> Inl ''invalid vsock port''
             | Some port \<Rightarrow> Inr (ListenVsock (of_nat port)))
          else Inr (ListenUnix (trim_prefix spec ''unix://'')))"

section \<open>The TUN device\<close>

text \<open>
  \<open>openTUN\<close>: the answers of its four calls are arguments; the result is whether the descriptor is
  returned, and what was done with it.
\<close>

record tun_answers =
  ta_open :: bool
  ta_ifreq :: bool
  ta_setiff :: bool
  ta_nonblock :: bool

datatype fd_event = FdOpened | FdClosed

definition open_tun :: "tun_answers \<Rightarrow> bool \<times> fd_event list" where
  "open_tun k =
     (if \<not> ta_open k then (False, [])
      else if \<not> ta_ifreq k then (False, [FdOpened, FdClosed])
      else if \<not> ta_setiff k then (False, [FdOpened, FdClosed])
      else if \<not> ta_nonblock k then (False, [FdOpened, FdClosed])
      else (True, [FdOpened]))"

definition guest_addr4 :: string where "guest_addr4 = ''100.127.255.254''"
definition pool4_prefix_len :: nat where "pool4_prefix_len = 10"
definition resolver_addr :: string where "resolver_addr = ''100.127.255.253''"
definition guest_addr6 :: string where "guest_addr6 = ''100::ffff:ffff:ffff:fffe''"
definition pool6_prefix_len :: nat where "pool6_prefix_len = 64"

datatype net_op = LinkUp string | AddrAdd string string | RouteAdd string string

text \<open>Operations are done in order until one fails.\<close>

fun run_ops :: "(net_op \<Rightarrow> bool) \<Rightarrow> net_op list \<Rightarrow> net_op list \<times> bool" where
  "run_ops ok [] = ([], True)"
| "run_ops ok (op # ops) =
     (if ok op then (case run_ops ok ops of (done, success) \<Rightarrow> (op # done, success))
      else ([op], False))"

definition configure_ops :: "string \<Rightarrow> net_op list" where
  "configure_ops name =
     [AddrAdd name (guest_addr4 @ ''/'' @ show_nat pool4_prefix_len),
      AddrAdd name (guest_addr6 @ ''/'' @ show_nat pool6_prefix_len),
      LinkUp name, RouteAdd name ''0.0.0.0/0'', RouteAdd name ''::/0'']"

definition configure_tun :: "(net_op \<Rightarrow> bool) \<Rightarrow> bool \<Rightarrow> bool \<Rightarrow> string \<Rightarrow> net_op list \<times> bool" where
  "configure_tun ok has_lo has_link name =
     (case run_ops ok (if has_lo then [LinkUp ''lo''] else []) of
        (loop, False) \<Rightarrow> (loop, False)
      | (loop, True) \<Rightarrow>
          if \<not> has_link then (loop, False)
          else (case run_ops ok (configure_ops name) of (ops, success) \<Rightarrow> (loop @ ops, success)))"

section \<open>Capabilities\<close>

record capabilities =
  cap_bounding :: u64
  cap_effective :: u32
  cap_permitted :: u32
  cap_inheritable :: u32

record cap_answers =
  ca_bset_drop :: bool
  ca_capget :: bool
  ca_capset :: bool
  ca_bset_read :: bool

definition cap_net_admin :: nat where "cap_net_admin = 12"

definition drop_net_admin :: "cap_answers \<Rightarrow> capabilities \<Rightarrow> bool \<times> capabilities" where
  "drop_net_admin k c =
     (if \<not> ca_bset_drop k then (False, c)
      else
        (let c1 = c\<lparr>cap_bounding := unset_bit cap_net_admin (cap_bounding c)\<rparr> in
         if \<not> ca_capget k then (False, c1)
         else
           (let mask = NOT (push_bit cap_net_admin 1) in
            if \<not> ca_capset k then (False, c1)
            else
              (let c2 = c1\<lparr>cap_effective := cap_effective c1 AND mask,
                           cap_permitted := cap_permitted c1 AND mask,
                           cap_inheritable := cap_inheritable c1 AND mask\<rparr> in
               (ca_bset_read k \<and> \<not> bit (cap_bounding c2) cap_net_admin, c2)))))"

section \<open>The launcher\<close>

record launch_options =
  lo_device :: string
  lo_mtu :: u32
  lo_udp :: bool
  lo_dns_ttl :: int
  lo_ingress :: string
  lo_ingress_ports :: string
  lo_sandbox_id :: string
  lo_args :: "string list"

text \<open>What the host answers: interfaces as name and loopback flag, \<open>None\<close> when they cannot be listed.\<close>

record launch_host =
  lh_interfaces :: "(string \<times> bool) list option"
  lh_parse_url :: "string \<Rightarrow> parsed_url option"
  lh_listen :: "listen_action \<Rightarrow> bool"
  lh_tun :: tun_answers
  lh_has_lo :: bool
  lh_has_link :: bool
  lh_net :: "net_op \<Rightarrow> bool"
  lh_resolv :: bool
  lh_cap_answers :: cap_answers
  lh_caps :: capabilities
  lh_device :: bool
  lh_engine :: bool

record engine_setup =
  es_dial :: boundary_dial
  es_header :: mime_header
  es_dns :: virtual_dns
  es_udp :: bool

datatype launch_event =
    Listening listen_action
  | TunOpened string u32
  | Netlink net_op
  | ResolvWritten string bool
  | NetAdminDropped capabilities
  | DeviceMade u32
  | EngineStarted engine_setup
  | IngressServed "u16 set"
  | AgentRun "string list"
  | Serving

datatype launch_outcome = Usage | Fatal string | Launched

definition sandbox_header :: "string \<Rightarrow> mime_header" where
  "sandbox_header sandbox_id = (if sandbox_id = [] then [] else [(''Sandbox-Id'', [sandbox_id])])"

definition interfaces_ok :: "string \<Rightarrow> (string \<times> bool) list \<Rightarrow> bool" where
  "interfaces_ok device ifaces = list_all (\<lambda>(name, loopback). loopback \<or> name = device) ifaces"

text \<open>The ingress listener: nothing without the option, otherwise the listening socket or an error.\<close>

definition ingress_listener :: "launch_host \<Rightarrow> string \<Rightarrow> launch_event list \<times> bool" where
  "ingress_listener h spec =
     (if spec = [] then ([], True)
      else
        (case listen_ingress spec of
           Inl _ \<Rightarrow> ([], False)
         | Inr action \<Rightarrow> ([Listening action], lh_listen h action)))"

text \<open>From the device onwards: the part that runs once arguments, interfaces and listener are in order.\<close>

definition launch_device ::
  "launch_host \<Rightarrow> launch_options \<Rightarrow> boundary_dial \<Rightarrow> virtual_dns \<Rightarrow> u16 set \<Rightarrow> string list
    \<Rightarrow> launch_event list \<times> launch_outcome" where
  "launch_device h opts dial dns pinned argv =
     (if \<not> fst (open_tun (lh_tun h)) then ([], Fatal ''tun'')
      else
        (case configure_tun (lh_net h) (lh_has_lo h) (lh_has_link h) (lo_device opts) of
           (ops, configured) \<Rightarrow>
             (let e1 = TunOpened (lo_device opts) (lo_mtu opts) # map Netlink ops in
              if \<not> configured then (e1, Fatal ''configuring device'')
              else
                (let e2 = e1 @ [ResolvWritten (''nameserver '' @ resolver_addr @ [CHR 0x0A]) (lh_resolv h)] in
                 (case drop_net_admin (lh_cap_answers h) (lh_caps h) of
                    (dropped, caps) \<Rightarrow>
                      if \<not> dropped then (e2, Fatal ''dropping CAP_NET_ADMIN'')
                      else
                        (let e3 = e2 @ [NetAdminDropped caps] in
                         if \<not> lh_device h then (e3, Fatal ''link endpoint'')
                         else
                           (let e4 = e3 @ [DeviceMade (lo_mtu opts)] in
                            if \<not> lh_engine h then (e4, Fatal ''engine'')
                            else
                              (e4 @ [EngineStarted \<lparr>es_dial = dial,
                                       es_header = sandbox_header (lo_sandbox_id opts),
                                       es_dns = dns, es_udp = lo_udp opts\<rparr>]
                                  @ (if lo_ingress opts \<noteq> [] then [IngressServed pinned] else [])
                                  @ [if argv = [] then Serving else AgentRun argv], Launched))))))))"

definition run_launcher ::
  "launch_host \<Rightarrow> launch_options \<Rightarrow> launch_event list \<times> launch_outcome" where
  "run_launcher h opts =
     (case parse_run_args (lo_args opts) of
        None \<Rightarrow> ([], Usage)
      | Some (boundary, argv) \<Rightarrow>
          (let pinned = parse_pinned_ports (lo_ingress_ports opts) in
           if lo_ingress opts \<noteq> [] \<and> (\<not> is_ok pinned \<or> pinned = Inr {})
           then ([], Fatal ''-ingress-socket requires -ingress-port'')
           else
             (case virtual_dns_with (lo_dns_ttl opts) of
                None \<Rightarrow> ([], Fatal ''-dns-ttl must not be negative'')
              | Some dns \<Rightarrow>
                  (case lh_interfaces h of
                     None \<Rightarrow> ([], Fatal ''listing interfaces'')
                   | Some ifaces \<Rightarrow>
                       if \<not> interfaces_ok (lo_device opts) ifaces
                       then ([], Fatal ''unexpected interface'')
                       else
                         (case boundary_dialer (lh_parse_url h boundary) of
                            Inl e \<Rightarrow> ([], Fatal e)
                          | Inr dial \<Rightarrow>
                              (case ingress_listener h (lo_ingress opts) of
                                 (e0, listening) \<Rightarrow>
                                   if \<not> listening then (e0, Fatal ''ingress listener'')
                                   else
                                     (case launch_device h opts dial dns
                                             (case pinned of Inl _ \<Rightarrow> {} | Inr ps \<Rightarrow> ps) argv of
                                        (events, outcome) \<Rightarrow> (e0 @ events, outcome))))))))"

text \<open>The daemon mode of \<open>main\<close>: an engine on a device that the operator routes to.\<close>

definition run_daemon :: "launch_host \<Rightarrow> launch_options \<Rightarrow> string \<Rightarrow> launch_event list \<times> launch_outcome" where
  "run_daemon h opts proxy =
     (case virtual_dns_with (lo_dns_ttl opts) of
        None \<Rightarrow> ([], Fatal ''-dns-ttl must not be negative'')
      | Some dns \<Rightarrow>
          (case boundary_dialer (lh_parse_url h proxy) of
             Inl e \<Rightarrow> ([], Fatal e)
           | Inr dial \<Rightarrow>
               if \<not> fst (open_tun (lh_tun h)) then ([], Fatal ''tun'')
               else
                 (let e1 = [TunOpened (lo_device opts) (lo_mtu opts)] in
                  if \<not> lh_device h then (e1, Fatal ''link endpoint'')
                  else
                    (let e2 = e1 @ [DeviceMade (lo_mtu opts)] in
                     if \<not> lh_engine h then (e2, Fatal ''engine'')
                     else (e2 @ [EngineStarted \<lparr>es_dial = dial,
                                   es_header = sandbox_header (lo_sandbox_id opts), es_dns = dns,
                                   es_udp = lo_udp opts\<rparr>, Serving], Launched)))))"

section \<open>The first process\<close>

text \<open>
  \<open>runChild\<close>: each delivery is a signal with the answers \<open>wait4\<close> gives while it is handled, \<open>None\<close> for an
  error or a pid that is not positive. The result is the signals sent to the agent's process group and
  the exit status once the agent is reaped, \<open>None\<close> while it waits for more signals.
\<close>

datatype wait_status = Exited nat | Signaled nat

datatype delivery = ChildSignal "(nat \<times> wait_status) option list" | ForwardSignal nat

fun exit_status :: "wait_status \<Rightarrow> nat" where
  "exit_status (Exited code) = code"
| "exit_status (Signaled sig) = 128 + sig"

fun reap :: "nat \<Rightarrow> (nat \<times> wait_status) option list \<Rightarrow> nat option" where
  "reap child [] = None"
| "reap child (None # answers) = None"
| "reap child (Some (pid, status) # answers) =
     (if pid = child then Some (exit_status status) else reap child answers)"

fun run_child :: "nat \<Rightarrow> delivery list \<Rightarrow> nat list \<times> nat option" where
  "run_child child [] = ([], None)"
| "run_child child (ForwardSignal sig # rest) =
     (case run_child child rest of (kills, status) \<Rightarrow> (sig # kills, status))"
| "run_child child (ChildSignal answers # rest) =
     (case reap child answers of
        Some status \<Rightarrow> ([], Some status)
      | None \<Rightarrow> run_child child rest)"

section \<open>Capabilities are gone\<close>

definition holds_net_admin :: "capabilities \<Rightarrow> bool" where
  "holds_net_admin c =
     (bit (cap_bounding c) cap_net_admin \<or> bit (cap_effective c) cap_net_admin
      \<or> bit (cap_permitted c) cap_net_admin \<or> bit (cap_inheritable c) cap_net_admin)"

lemma bit_and_not_power: "bit (w AND NOT (2 ^ k)) n \<longleftrightarrow> bit w n \<and> n \<noteq> k" for w :: "'a::len word"
  by (auto simp: bit_simps dest: bit_imp_le_length)

lemma drop_net_admin_drops:
  "drop_net_admin k c = (True, c') \<Longrightarrow> \<not> holds_net_admin c'"
  by (auto simp: drop_net_admin_def holds_net_admin_def Let_def bit_and_not_power bit_unset_bit_iff
      split: if_splits)

lemma drop_net_admin_keeps_others:
  assumes "drop_net_admin k c = (ok, c')" and "n \<noteq> cap_net_admin"
  shows "bit (cap_bounding c') n = bit (cap_bounding c) n"
    and "bit (cap_effective c') n = bit (cap_effective c) n"
    and "bit (cap_permitted c') n = bit (cap_permitted c) n"
    and "bit (cap_inheritable c') n = bit (cap_inheritable c) n"
  using assms
  by (auto simp: drop_net_admin_def Let_def bit_and_not_power bit_unset_bit_iff split: if_splits)

section \<open>Descriptors and netlink operations\<close>

lemma open_tun_no_leak: "count_list (snd (open_tun k)) FdOpened
    = count_list (snd (open_tun k)) FdClosed + (if fst (open_tun k) then 1 else 0)"
  by (simp add: open_tun_def)

lemma run_ops_success: "run_ops ok ops = (tried, True) \<longleftrightarrow> tried = ops \<and> list_all ok ops"
proof (induction ops arbitrary: tried)
  case (Cons op ops)
  obtain t b where r: "run_ops ok ops = (t, b)" by fastforce
  from Cons.IH [of t] Cons.IH [of ops] r show ?case by (cases b) auto
qed auto

lemma run_ops_failure:
  "run_ops ok ops = (tried, False) \<Longrightarrow> \<exists>n < length ops. tried = take (Suc n) ops \<and> \<not> ok (ops ! n)
     \<and> list_all ok (take n ops)"
proof (induction ops arbitrary: tried)
  case (Cons op ops)
  show ?case
  proof (cases "ok op")
    case True
    with Cons.prems obtain t where t: "run_ops ok ops = (t, False)" "tried = op # t"
      by (auto split: prod.splits)
    from Cons.IH [OF t(1)] obtain n where "n < length ops" "t = take (Suc n) ops" "\<not> ok (ops ! n)"
      "list_all ok (take n ops)" by blast
    with t(2) True show ?thesis by (intro exI [of _ "Suc n"]) simp
  next
    case False
    with Cons.prems show ?thesis by (intro exI [of _ 0]) simp
  qed
qed simp

lemma configure_tun_success:
  "configure_tun ok has_lo has_link name = (ops, True)
    \<Longrightarrow> list_all ok ops \<and> (\<exists>loop. ops = loop @ configure_ops name)"
  by (auto simp: configure_tun_def run_ops_success split: prod.splits bool.splits if_splits)

section \<open>The order of a launch\<close>

definition setup_event :: "launch_event \<Rightarrow> bool" where
  "setup_event e = (case e of Listening _ \<Rightarrow> True | TunOpened _ _ \<Rightarrow> True | Netlink _ \<Rightarrow> True
     | ResolvWritten _ _ \<Rightarrow> True | _ \<Rightarrow> False)"

definition service_event :: "launch_event \<Rightarrow> bool" where
  "service_event e = (case e of EngineStarted _ \<Rightarrow> True | IngressServed _ \<Rightarrow> True | AgentRun _ \<Rightarrow> True
     | Serving \<Rightarrow> True | _ \<Rightarrow> False)"

lemmas event_kinds = setup_event_def service_event_def

lemma launch_device_shape:
  assumes "launch_device h opts dial dns pinned argv = (events, Launched)"
  obtains ops caps where
    "configure_tun (lh_net h) (lh_has_lo h) (lh_has_link h) (lo_device opts) = (ops, True)"
    "drop_net_admin (lh_cap_answers h) (lh_caps h) = (True, caps)"
    "events = (TunOpened (lo_device opts) (lo_mtu opts) # map Netlink ops
         @ [ResolvWritten (''nameserver '' @ resolver_addr @ [CHR 0x0A]) (lh_resolv h)])
       @ NetAdminDropped caps # DeviceMade (lo_mtu opts)
       # [EngineStarted \<lparr>es_dial = dial, es_header = sandbox_header (lo_sandbox_id opts), es_dns = dns,
            es_udp = lo_udp opts\<rparr>]
       @ (if lo_ingress opts \<noteq> [] then [IngressServed pinned] else [])
       @ [if argv = [] then Serving else AgentRun argv]"
  using assms by (auto simp: launch_device_def Let_def split: prod.splits if_splits)

lemma launch_device_failed:
  "launch_device h opts dial dns pinned argv = (events, outcome) \<Longrightarrow> outcome \<noteq> Launched
    \<Longrightarrow> list_all (\<lambda>e. \<not> service_event e) events"
  by (auto simp: launch_device_def Let_def event_kinds list_all_iff split: prod.splits if_splits)

lemma ingress_listener_events:
  "ingress_listener h spec = (events, ok) \<Longrightarrow> list_all (\<lambda>e. setup_event e \<and> \<not> service_event e) events"
  by (auto simp: ingress_listener_def event_kinds split: if_splits sum.splits)

lemma run_launcherE:
  assumes "run_launcher h opts = (events, outcome)"
  obtains (refused) "outcome \<noteq> Launched" "list_all (\<lambda>e. \<not> service_event e) events"
  | (started) boundary argv ifaces dial dns e0 rest ports where
    "parse_run_args (lo_args opts) = Some (boundary, argv)"
    "lh_interfaces h = Some ifaces" "interfaces_ok (lo_device opts) ifaces"
    "boundary_dialer (lh_parse_url h boundary) = Inr dial"
    "virtual_dns_with (lo_dns_ttl opts) = Some dns"
    "lo_ingress opts \<noteq> [] \<Longrightarrow> parse_pinned_ports (lo_ingress_ports opts) = Inr ports \<and> ports \<noteq> {}"
    "list_all (\<lambda>e. setup_event e \<and> \<not> service_event e) e0"
    "launch_device h opts dial dns ports argv = (rest, outcome)" "events = e0 @ rest"
proof (cases "parse_run_args (lo_args opts)")
  case None
  with assms show ?thesis by (intro refused) (auto simp: run_launcher_def)
next
  case (Some found)
  obtain boundary argv where args: "parse_run_args (lo_args opts) = Some (boundary, argv)"
    using Some by (cases found) auto
  let ?pinned = "parse_pinned_ports (lo_ingress_ports opts)"
  obtain e0 ok where e0: "ingress_listener h (lo_ingress opts) = (e0, ok)" by fastforce
  note l = ingress_listener_events [OF e0]
  show ?thesis
  proof (cases "\<exists>ifaces dial dns. lh_interfaces h = Some ifaces \<and> interfaces_ok (lo_device opts) ifaces
      \<and> boundary_dialer (lh_parse_url h boundary) = Inr dial
      \<and> virtual_dns_with (lo_dns_ttl opts) = Some dns \<and> ok
      \<and> \<not> (lo_ingress opts \<noteq> [] \<and> (\<not> is_ok ?pinned \<or> ?pinned = Inr {}))")
    case False
    with assms args e0 l show ?thesis
      by (intro refused) (auto simp: run_launcher_def Let_def list_all_iff
          split: option.splits sum.splits prod.splits if_splits)
  next
    case True
    then obtain ifaces dial dns where
      k: "lh_interfaces h = Some ifaces" "interfaces_ok (lo_device opts) ifaces"
        "boundary_dialer (lh_parse_url h boundary) = Inr dial"
        "virtual_dns_with (lo_dns_ttl opts) = Some dns" "ok"
        "\<not> (lo_ingress opts \<noteq> [] \<and> (\<not> is_ok ?pinned \<or> ?pinned = Inr {}))" by blast
    define ports where "ports = (case ?pinned of Inl _ \<Rightarrow> {} | Inr ps \<Rightarrow> ps)"
    obtain rest out where r: "launch_device h opts dial dns ports argv = (rest, out)" by fastforce
    have "run_launcher h opts = (e0 @ rest, out)"
      unfolding run_launcher_def Let_def using k args e0 r
      by (simp only: option.case sum.case prod.case ports_def [symmetric]) simp
    with assms have "events = e0 @ rest" "out = outcome" by simp_all
    moreover have "lo_ingress opts \<noteq> [] \<Longrightarrow> ?pinned = Inr ports \<and> ports \<noteq> {}"
      using k(6) by (cases ?pinned) (auto simp: ports_def)
    ultimately show ?thesis using started [OF args k(1-4)] l r by blast
  qed
qed

text \<open>When the agent runs, everything before it succeeded and was in this order.\<close>

lemma agent_events:
  assumes "run_launcher h opts = (events, outcome)" and "AgentRun argv \<in> set events"
  obtains e0 loop caps dial dns ports ifaces where "outcome = Launched" and "argv = tl (lo_args opts)"
    and "lh_interfaces h = Some ifaces" and "interfaces_ok (lo_device opts) ifaces"
    and "list_all (\<lambda>e. setup_event e \<and> \<not> service_event e) e0"
    and "list_all (lh_net h) (loop @ configure_ops (lo_device opts))" and "\<not> holds_net_admin caps"
    and "events = (e0 @ TunOpened (lo_device opts) (lo_mtu opts) # map Netlink (loop @ configure_ops (lo_device opts))
         @ [ResolvWritten (''nameserver '' @ resolver_addr @ [CHR 0x0A]) (lh_resolv h)])
       @ NetAdminDropped caps # (DeviceMade (lo_mtu opts)
         # [EngineStarted \<lparr>es_dial = dial, es_header = sandbox_header (lo_sandbox_id opts), es_dns = dns,
              es_udp = lo_udp opts\<rparr>]
         @ (if lo_ingress opts \<noteq> [] then [IngressServed ports] else [])) @ [AgentRun argv]"
    and "lo_ingress opts \<noteq> [] \<longrightarrow> parse_pinned_ports (lo_ingress_ports opts) = Inr ports \<and> ports \<noteq> {}"
  using assms(1)
proof (cases rule: run_launcherE)
  case refused
  with assms(2) show ?thesis by (auto simp: list_all_iff service_event_def)
next
  case (started boundary args ifaces dial dns e0 rest ports)
  have launched: "outcome = Launched"
  proof (rule ccontr)
    assume "outcome \<noteq> Launched"
    from launch_device_failed [OF started(8) this] started(7,9) assms(2) show False
      by (auto simp: list_all_iff service_event_def)
  qed
  with started(8) obtain ops caps where
    conf: "configure_tun (lh_net h) (lh_has_lo h) (lh_has_link h) (lo_device opts) = (ops, True)"
    and drop: "drop_net_admin (lh_cap_answers h) (lh_caps h) = (True, caps)"
    and rest: "rest = (TunOpened (lo_device opts) (lo_mtu opts) # map Netlink ops
         @ [ResolvWritten (''nameserver '' @ resolver_addr @ [CHR 0x0A]) (lh_resolv h)])
       @ NetAdminDropped caps # DeviceMade (lo_mtu opts)
       # [EngineStarted \<lparr>es_dial = dial, es_header = sandbox_header (lo_sandbox_id opts), es_dns = dns,
            es_udp = lo_udp opts\<rparr>]
       @ (if lo_ingress opts \<noteq> [] then [IngressServed ports] else [])
       @ [if args = [] then Serving else AgentRun args]"
    using launch_device_shape by metis
  from configure_tun_success [OF conf] obtain loop where
    ops: "list_all (lh_net h) ops" "ops = loop @ configure_ops (lo_device opts)" by blast
  have e0: "list_all (\<lambda>e. setup_event e \<and> \<not> service_event e) e0"
    using started(7) by (auto simp: list_all_iff)
  then have "AgentRun argv \<notin> set e0" by (force simp: list_all_iff service_event_def)
  with assms(2) started(9) rest have argv: "argv = args" "args \<noteq> []" by (auto split: if_splits)
  then have "argv = tl (lo_args opts)" using started(1) by (cases "lo_args opts") (auto split: if_splits)
  with that [of ifaces e0 loop caps dial dns ports] launched started(2,3,6,9) e0 ops rest argv
    drop_net_admin_drops [OF drop]
  show ?thesis by simp
qed

text \<open>
  C17. The agent runs confined: if the launcher starts it, the namespace had no interface besides loopback
  and the TUN device, every address, link and default-route operation on the device had succeeded,
  and \<open>CAP_NET_ADMIN\<close> was gone from all four sets before the engine, the ingress channel or the agent
  came up; no network setup happens afterwards, the agent is the last step and runs the given command,
  and an ingress channel that is served has a non-empty set of pinned ports.
\<close>

theorem agent_runs_confined:
  assumes "run_launcher h opts = (events, outcome)" and "AgentRun argv \<in> set events"
  shows "outcome = Launched \<and> argv = tl (lo_args opts)
    \<and> (\<exists>ifaces. lh_interfaces h = Some ifaces \<and> interfaces_ok (lo_device opts) ifaces)
    \<and> list_all (lh_net h) (configure_ops (lo_device opts))
    \<and> (\<exists>before caps after. events = before @ NetAdminDropped caps # after @ [AgentRun argv]
         \<and> list_all (\<lambda>op. Netlink op \<in> set before) (configure_ops (lo_device opts))
         \<and> \<not> holds_net_admin caps \<and> list_all (\<lambda>e. \<not> service_event e) before
         \<and> list_all (\<lambda>e. \<not> setup_event e) after)
    \<and> (\<forall>ports. IngressServed ports \<in> set events
         \<longrightarrow> parse_pinned_ports (lo_ingress_ports opts) = Inr ports \<and> ports \<noteq> {})"
proof -
  from assms obtain e0 loop caps dial dns ports ifaces where k: "outcome = Launched"
    "argv = tl (lo_args opts)" "lh_interfaces h = Some ifaces" "interfaces_ok (lo_device opts) ifaces"
    "list_all (\<lambda>e. setup_event e \<and> \<not> service_event e) e0"
    "list_all (lh_net h) (loop @ configure_ops (lo_device opts))" "\<not> holds_net_admin caps"
    "events = (e0 @ TunOpened (lo_device opts) (lo_mtu opts) # map Netlink (loop @ configure_ops (lo_device opts))
         @ [ResolvWritten (''nameserver '' @ resolver_addr @ [CHR 0x0A]) (lh_resolv h)])
       @ NetAdminDropped caps # (DeviceMade (lo_mtu opts)
         # [EngineStarted \<lparr>es_dial = dial, es_header = sandbox_header (lo_sandbox_id opts), es_dns = dns,
              es_udp = lo_udp opts\<rparr>]
         @ (if lo_ingress opts \<noteq> [] then [IngressServed ports] else [])) @ [AgentRun argv]"
      (is "events = ?before @ _ # ?after @ _")
    "lo_ingress opts \<noteq> [] \<longrightarrow> parse_pinned_ports (lo_ingress_ports opts) = Inr ports \<and> ports \<noteq> {}"
    by (rule agent_events)
  have "list_all (\<lambda>op. Netlink op \<in> set ?before) (configure_ops (lo_device opts))"
    by (simp add: list_all_iff)
  moreover have "list_all (\<lambda>e. \<not> service_event e) ?before" "list_all (\<lambda>e. \<not> setup_event e) ?after"
    using k(5) by (auto simp: list_all_iff event_kinds)
  moreover have "parse_pinned_ports (lo_ingress_ports opts) = Inr ps \<and> ps \<noteq> {}"
    if "IngressServed ps \<in> set events" for ps
  proof -
    have "IngressServed ps \<notin> set e0" using k(5) by (auto simp: list_all_iff service_event_def)
    then have "lo_ingress opts \<noteq> [] \<and> ps = ports" using that k(8) by (auto split: if_splits)
    then show ?thesis using k(9) by blast
  qed
  moreover have "list_all (lh_net h) (configure_ops (lo_device opts))" using k(6) by simp
  ultimately show ?thesis using k(1-4,7,8) by blast
qed

definition sample_host :: launch_host where
  "sample_host =
     \<lparr>lh_interfaces = Some [(''lo'', True)],
      lh_parse_url = (\<lambda>_. Some \<lparr>url_scheme = ''unix'', url_host = [], url_path = ''/run/b.sock''\<rparr>),
      lh_listen = (\<lambda>_. True), lh_tun = \<lparr>ta_open = True, ta_ifreq = True, ta_setiff = True, ta_nonblock = True\<rparr>,
      lh_has_lo = True, lh_has_link = True, lh_net = (\<lambda>_. True), lh_resolv = True,
      lh_cap_answers = \<lparr>ca_bset_drop = True, ca_capget = True, ca_capset = True, ca_bset_read = True\<rparr>,
      lh_caps = \<lparr>cap_bounding = 0x1000, cap_effective = 0x1000, cap_permitted = 0x1000, cap_inheritable = 0\<rparr>,
      lh_device = True, lh_engine = True\<rparr>"

definition sample_options :: launch_options where
  "sample_options =
     \<lparr>lo_device = ''tun0'', lo_mtu = 1500, lo_udp = False, lo_dns_ttl = 0, lo_ingress = [],
      lo_ingress_ports = [], lo_sandbox_id = [], lo_args = [''/run/b.sock'', ''agent'']\<rparr>"

theorem agent_runs_confined_witness:
  "AgentRun [''agent''] \<in> set (fst (run_launcher sample_host sample_options))
   \<and> (\<exists>before caps after. fst (run_launcher sample_host sample_options)
        = before @ NetAdminDropped caps # after @ [AgentRun [''agent'']] \<and> \<not> holds_net_admin caps)"
proof -
  obtain events outcome where run: "run_launcher sample_host sample_options = (events, outcome)" by fastforce
  then have agent: "AgentRun [''agent''] \<in> set events"
    by (auto simp: run_launcher_def sample_host_def sample_options_def has_prefix_def parse_pinned_ports_def
        virtual_dns_with_def interfaces_ok_def boundary_dialer_def ingress_listener_def launch_device_def
        open_tun_def configure_tun_def configure_ops_def drop_net_admin_def Let_def bit_unset_bit_iff)
  from agent_runs_confined [OF run this] have "\<exists>before caps after.
      events = before @ NetAdminDropped caps # after @ [AgentRun [''agent'']] \<and> \<not> holds_net_admin caps"
    by blast
  with run agent show ?thesis by simp
qed

section \<open>Guest addresses are never answers\<close>

definition guest_addresses :: "string list" where
  "guest_addresses = [guest_addr4, resolver_addr, guest_addr6]"

lemma guest_addresses_values:
  "map parse_addr guest_addresses
     = [Some (IP4 0x647FFFFE), Some (IP4 0x647FFFFD), Some (IP6 0x0100000000000000FFFFFFFFFFFFFFFE [])]"
  by (simp add: guest_addresses_def guest_addr4_def resolver_addr_def guest_addr6_def net_eval)

lemma guest_addresses_reserved:
  "text \<in> set guest_addresses \<Longrightarrow> parse_addr text = Some a
    \<Longrightarrow> prefix_contains (pool_of (is6 a)) a \<and> \<not> assignable v6 a"
proof -
  assume "text \<in> set guest_addresses" and "parse_addr text = Some a"
  then have "Some a \<in> set (map parse_addr guest_addresses)" by force
  then have "a = IP4 0x647FFFFE \<or> a = IP4 0x647FFFFD \<or> a = IP6 0x0100000000000000FFFFFFFFFFFFFFFE []"
    unfolding guest_addresses_values by auto
  then show ?thesis
    by (cases v6) (auto simp: assignable_def pool_of_def reserved_of_def pool_values prefix_contains_def
        prefix_valid_def)
qed

lemma virtual_dns_with_wf: "virtual_dns_with ttl = Some d \<Longrightarrow> dns_wf d"
  using new_virtual_dns_wf by (auto simp: virtual_dns_with_def dns_wf_def split: if_splits)

text \<open>
  The addresses the launcher gives to the guest and to its resolver lie in the synthetic pools, so the
  connected routes of the device cover them, and no query is ever answered with one of them: whatever
  the resolver was asked before, a resolution never yields the address of the guest or of the resolver.
\<close>

lemma guest_addresses_never_answered:
  assumes "virtual_dns_with ttl = Some d0" and "store_later (resolve env) reverse d0 d"
    and "text \<in> set guest_addresses" and "parse_addr text = Some a"
  shows "prefix_contains (pool_of (is6 a)) a \<and> fst (resolve env d name v6) \<noteq> Inr a"
proof -
  have wf: "dns_wf d" using dns.later_valid [OF assms(2) virtual_dns_with_wf [OF assms(1)]] .
  obtain res d1 where r: "resolve env d name v6 = (res, d1)" by fastforce
  have "res \<noteq> Inr a"
    using resolve_issued(1) [OF wf, of env name v6 a d1] r guest_addresses_reserved [OF assms(3,4)] by auto
  with r guest_addresses_reserved [OF assms(3,4)] show ?thesis by simp
qed

section \<open>Reaping\<close>

text \<open>The answers the reaping loop sees before it stops for lack of children.\<close>

definition reaped :: "(nat \<times> wait_status) option list \<Rightarrow> (nat \<times> wait_status) list" where
  "reaped answers = map the (takeWhile (\<lambda>a. a \<noteq> None) answers)"

lemma reap_map_of: "reap child answers = map_option exit_status (map_of (reaped answers) child)"
  by (induction child answers rule: reap.induct) (auto simp: reaped_def)

fun child_answers :: "delivery \<Rightarrow> (nat \<times> wait_status) list" where
  "child_answers (ChildSignal answers) = reaped answers"
| "child_answers (ForwardSignal sig) = []"

fun forwarded :: "delivery list \<Rightarrow> nat list" where
  "forwarded [] = []"
| "forwarded (ForwardSignal sig # rest) = sig # forwarded rest"
| "forwarded (ChildSignal answers # rest) = forwarded rest"

text \<open>
  C36. As the first process the launcher returns the agent's own status: over any sequence of signals and
  reaped orphans it ends exactly when the agent is reaped, with the agent's exit code or 128 plus the
  signal that killed it, and it has forwarded to the agent's process group every signal that came before,
  in order.
\<close>

theorem run_child_returns_agent_status:
  "run_child child ds
    = (forwarded (takeWhile (\<lambda>d. map_of (child_answers d) child = None) ds),
       map_option exit_status (map_of (concat (map child_answers ds)) child))"
proof (induction child ds rule: run_child.induct)
  case (3 child answers rest)
  then show ?case
    by (cases "map_of (reaped answers) child") (simp_all add: reap_map_of map_add_def)
qed simp_all

section \<open>The daemon\<close>

text \<open>The daemon mode leaves network, capabilities and agent alone: it only opens its device and serves.\<close>

lemma daemon_only_serves:
  assumes "run_daemon h opts proxy = (events, outcome)" and "e \<in> set events"
  shows "(case e of TunOpened _ _ \<Rightarrow> True | DeviceMade _ \<Rightarrow> True | EngineStarted _ \<Rightarrow> outcome = Launched
    | Serving \<Rightarrow> outcome = Launched | _ \<Rightarrow> False)"
  using assms by (auto simp: run_daemon_def Let_def split: option.splits sum.splits if_splits)

end
