(* ===== verification/Fixtures.thy ===== *)
theory Fixtures
  imports Launcher
begin

text \<open>
  The programs the scenarios run beside the sandbox (src/scenarios/cmd): the fixture boundary with its
  allow list, rewrites and peer identities (boundary-proxy), the forwarder in front of a vsock boundary
  with its counters (vsock-forwarder), and the target server with its stream and certificate
  (target-server). Their tunnels are relays of Tcp_Relay.
\<close>

section \<open>The fixture boundary\<close>

record fixture_config =
  fx_all :: bool
  fx_hosts :: "string set"
  fx_rewrites :: "string \<rightharpoonup> string"

fun add_allowed :: "text_env \<Rightarrow> bool \<times> string set \<Rightarrow> string list \<Rightarrow> bool \<times> string set" where
  "add_allowed env allowed [] = allowed"
| "add_allowed env allowed (h # hs) =
     (let clean = to_lower env (trim_space h) in
      add_allowed env
        (if clean = ''*'' then (True, snd allowed)
         else if clean \<noteq> [] then (fst allowed, insert clean (snd allowed)) else allowed) hs)"

fun add_rewrites :: "text_env \<Rightarrow> (string \<rightharpoonup> string) \<Rightarrow> string list \<Rightarrow> (string \<rightharpoonup> string)" where
  "add_rewrites env m [] = m"
| "add_rewrites env m (raw # raws) =
     (let entry = trim_space raw in
      if entry = [] then add_rewrites env m raws
      else
        (case cut_byte (CHR ''='') entry of
           (host, upstream, found) \<Rightarrow>
             if found
             then add_rewrites env (m(to_lower env (trim_space host) \<mapsto> trim_space upstream)) raws
             else add_rewrites env m raws))"

definition fixture_config_of :: "text_env \<Rightarrow> string \<Rightarrow> string \<Rightarrow> fixture_config" where
  "fixture_config_of env allow upstream_map =
     (let allowed = add_allowed env (False, {}) (split_byte (CHR '','') allow) in
      \<lparr>fx_all = fst allowed, fx_hosts = snd allowed,
       fx_rewrites = add_rewrites env Map.empty (split_byte (CHR '','') upstream_map)\<rparr>)"

text \<open>
  Who is on the other end, as the kernel says: the credentials of a Unix peer, else the CID of a vsock
  peer; \<open>pi_raw\<close> is whether the descriptor could be examined at all.
\<close>

record peer_info =
  pi_raw :: bool
  pi_ucred :: "(int \<times> u32) option"
  pi_vsock :: "u32 option"

definition capsule_identity :: "peer_info \<Rightarrow> string \<times> u32" where
  "capsule_identity peer =
     (if \<not> pi_raw peer then (''unknown'', 0)
      else
        (let vsock_identity =
               (case pi_vsock peer of
                  Some cid \<Rightarrow> (''capsule-microvm-cid-'' @ show_nat (unat cid), 0)
                | None \<Rightarrow> (''unknown'', 0)) in
         (case pi_ucred peer of
            Some (pid, uid) \<Rightarrow>
              if pid > 0
              then (''capsule-pid-'' @ format_int pid @ ''-uid-'' @ show_nat (unat uid), uid)
              else vsock_identity
          | None \<Rightarrow> vsock_identity)))"

text \<open>The request as \<open>http.ReadRequest\<close> returns it, its header under canonical keys.\<close>

record fixture_request =
  fr_method :: string
  fr_host :: string
  fr_header :: mime_header

definition guest_field :: "text_env \<Rightarrow> string \<Rightarrow> bool" where
  "guest_field env k = (has_prefix (to_lower env k) ''x-capsule-'' \<or> equal_fold env k ''sandbox-id'')"

definition header_set :: "string \<Rightarrow> string \<Rightarrow> mime_header \<Rightarrow> mime_header" where
  "header_set k v hs = filter (\<lambda>f. fst f \<noteq> k) hs @ [(k, [v])]"

definition sanitize_header :: "text_env \<Rightarrow> string \<times> u32 \<Rightarrow> mime_header \<Rightarrow> mime_header" where
  "sanitize_header env identity hs =
     header_set ''X-Capsule-Peer-Uid'' (show_nat (unat (snd identity)))
       (header_set ''X-Capsule-Id'' (fst identity) (filter (\<lambda>f. \<not> guest_field env (fst f)) hs))"

datatype fixture_effect =
    FxAudit string string string
  | FxDial string
  | FxReply nat string
  | FxFlow
  | FxTunnel mime_header

definition fixture_allows :: "text_env \<Rightarrow> fixture_config \<Rightarrow> string \<Rightarrow> string \<Rightarrow> bool" where
  "fixture_allows env cfg host target =
     (fx_all cfg \<or> to_lower env host \<in> fx_hosts cfg \<or> to_lower env target \<in> fx_hosts cfg)"

text \<open>\<open>handleConnection\<close> up to the copies; \<open>dial\<close> answers whether the address could be dialed.\<close>

definition fixture_target :: "string \<Rightarrow> string \<times> string" where
  "fixture_target target =
     (case split_host_port target of
        Some (host, port) \<Rightarrow> (host, target)
      | None \<Rightarrow> (target, join_host_port target ''80''))"

definition handle_fixture ::
  "text_env \<Rightarrow> fixture_config \<Rightarrow> (string \<Rightarrow> bool) \<Rightarrow> peer_info \<Rightarrow> fixture_request option \<Rightarrow> fixture_effect list" where
  "handle_fixture env cfg dial peer request =
     (case request of
        None \<Rightarrow> []
      | Some req \<Rightarrow>
          if fr_method req \<noteq> ''CONNECT'' then [FxReply 405 []]
          else
            (case fixture_target (fr_host req) of
               (host, target) \<Rightarrow>
                 (let identity = capsule_identity peer;
                      header = sanitize_header env identity (fr_header req) in
                  if \<not> fixture_allows env cfg host target
                  then [FxAudit ''BLOCK not-on-allowlist'' target (fst identity),
                        FxReply 403 ''not-on-allowlist'']
                  else
                    (let dial_target = (case fx_rewrites cfg (to_lower env host) of
                           Some upstream \<Rightarrow> upstream | None \<Rightarrow> target) in
                     if \<not> dial dial_target
                     then [FxDial dial_target, FxAudit ''DIAL-FAIL'' target (fst identity),
                           FxReply 502 ''dial-failed'']
                     else [FxDial dial_target, FxAudit ''ALLOW tcp'' target (fst identity), FxFlow,
                           FxReply 200 [], FxTunnel header]))))"

text \<open>The listener: the host part of a vsock URL may carry a CID, only its last part counts.\<close>

datatype fixture_listener = FxUnix string | FxTcp string | FxVsock u32

definition fixture_listen :: "parsed_url option \<Rightarrow> string + fixture_listener" where
  "fixture_listen parsed =
     (case parsed of
        None \<Rightarrow> Inl ''invalid listen URL''
      | Some u \<Rightarrow>
          if url_scheme u = ''unix'' then Inr (FxUnix (url_path u))
          else if url_scheme u = ''tcp'' then Inr (FxTcp (url_host u))
          else if url_scheme u = ''vsock'' then
            (case parse_uint 32 (List.last (split_byte (CHR '':'') (url_host u))) of
               None \<Rightarrow> Inl ''invalid vsock port''
             | Some port \<Rightarrow> Inr (FxVsock (of_nat port)))
          else Inl ''unsupported scheme'')"

lemma add_allowed_eq:
  "add_allowed env allowed hs =
     (fst allowed \<or> (\<exists>h\<in>set hs. to_lower env (trim_space h) = ''*''),
      snd allowed \<union> {to_lower env (trim_space h) |h. h \<in> set hs} - {[], ''*''} \<union> snd allowed)"
  by (induction env allowed hs rule: add_allowed.induct) (auto simp: Let_def)

text \<open>
  The fixture's decisions. It dials only for a CONNECT request whose host, or host and port, an entry of
  the allow list names (or an entry is \<open>*\<close>), and only the target itself or the rewrite of its host.
\<close>

lemma fixture_dials_only_allowed:
  assumes "FxDial address \<in> set (handle_fixture env (fixture_config_of env allow upstream_map) dial peer request)"
  shows "\<exists>req host target. request = Some req \<and> fr_method req = ''CONNECT''
    \<and> fixture_target (fr_host req) = (host, target)
    \<and> list_ex (\<lambda>h. to_lower env (trim_space h) \<in> {''*'', to_lower env host, to_lower env target})
        (split_byte (CHR '','') allow)
    \<and> address = (case fx_rewrites (fixture_config_of env allow upstream_map) (to_lower env host) of
        Some upstream \<Rightarrow> upstream | None \<Rightarrow> target)"
proof -
  let ?cfg = "fixture_config_of env allow upstream_map"
  from assms obtain req where req: "request = Some req" "fr_method req = ''CONNECT''"
    by (auto simp: handle_fixture_def split: option.splits if_splits)
  obtain host target where t: "fixture_target (fr_host req) = (host, target)" by fastforce
  with assms req have allowed: "fixture_allows env ?cfg host target"
    and "address = (case fx_rewrites ?cfg (to_lower env host) of Some u \<Rightarrow> u | None \<Rightarrow> target)"
    by (auto simp: handle_fixture_def Let_def split: if_splits)
  moreover have "list_ex (\<lambda>h. to_lower env (trim_space h) \<in> {''*'', to_lower env host, to_lower env target})
      (split_byte (CHR '','') allow)"
    using allowed by (auto simp: fixture_allows_def fixture_config_of_def add_allowed_eq Let_def list_ex_iff)
  ultimately show ?thesis using req t by blast
qed

text \<open>Every request is audited once with its answer, and the identity of a tunnel is the kernel's alone.\<close>

lemma fixture_audits_once:
  "length (filter (\<lambda>e. case e of FxAudit _ _ _ \<Rightarrow> True | _ \<Rightarrow> False)
     (handle_fixture env cfg dial peer request))
   = (case request of Some req \<Rightarrow> if fr_method req = ''CONNECT'' then 1 else 0 | None \<Rightarrow> 0)"
  by (auto simp: handle_fixture_def Let_def split: option.splits prod.splits)

lemma header_values_set:
  "header_values (header_set k v hs) k' = (if k' = k then [v] else header_values hs k')"
proof -
  have "map_of (filter (\<lambda>f. fst f \<noteq> k) hs) k' = (if k' = k then None else map_of hs k')"
    by (induction hs) auto
  then show ?thesis by (auto simp: header_values_def header_set_def map_add_def split: option.splits)
qed

lemma fixture_identity_unforgeable:
  assumes "FxTunnel header \<in> set (handle_fixture env cfg dial peer (Some req))"
  shows "header_values header ''X-Capsule-Id'' = [fst (capsule_identity peer)]
    \<and> header_values header ''X-Capsule-Peer-Uid'' = [show_nat (unat (snd (capsule_identity peer)))]
    \<and> (\<forall>k vs. (k, vs) \<in> set header \<and> guest_field env k \<longrightarrow> k \<in> {''X-Capsule-Id'', ''X-Capsule-Peer-Uid''})"
proof -
  from assms have h: "header = sanitize_header env (capsule_identity peer) (fr_header req)"
    by (auto simp: handle_fixture_def Let_def split: if_splits prod.splits)
  then have "(k, vs) \<in> set header \<Longrightarrow> guest_field env k \<Longrightarrow> k \<in> {''X-Capsule-Id'', ''X-Capsule-Peer-Uid''}"
    for k vs by (auto simp: sanitize_header_def header_set_def)
  moreover have "header_values header ''X-Capsule-Id'' = [fst (capsule_identity peer)]"
    "header_values header ''X-Capsule-Peer-Uid'' = [show_nat (unat (snd (capsule_identity peer)))]"
    using h by (simp_all add: sanitize_header_def header_values_set)
  ultimately show ?thesis by blast
qed

section \<open>The vsock forwarder\<close>

definition parse_vsock_addr :: "string \<Rightarrow> string + (u32 \<times> u32)" where
  "parse_vsock_addr addr =
     (case split_byte (CHR '':'') (trim_prefix addr ''vsock://'') of
        [raw_cid, raw_port] \<Rightarrow>
          (case parse_uint 32 raw_cid of
             None \<Rightarrow> Inl ''invalid CID''
           | Some cid \<Rightarrow>
               (case parse_uint 32 raw_port of
                  None \<Rightarrow> Inl ''invalid port''
                | Some port \<Rightarrow> Inr (of_nat cid, of_nat port)))
      | _ \<Rightarrow> Inl ''expected <cid>:<port>'')"

definition forwarder_dialer :: "string \<Rightarrow> string \<Rightarrow> parsed_url option \<Rightarrow> string + boundary_dial" where
  "forwarder_dialer vsock_dest target parsed =
     (if vsock_dest = [] \<and> target = [] then Inl ''either -vsock or -target must be specified''
      else if vsock_dest \<noteq> [] then
        (case parse_vsock_addr vsock_dest of
           Inl e \<Rightarrow> Inl e
         | Inr (cid, port) \<Rightarrow> Inr (DialVsock cid port))
      else
        (case parsed of
           None \<Rightarrow> Inr (DialNet ''tcp'' target)
         | Some u \<Rightarrow>
             if url_scheme u = [] then Inr (DialNet ''tcp'' target)
             else if url_scheme u = ''unix'' then Inr (DialNet ''unix'' (url_path u))
             else Inr (DialNet (url_scheme u) (url_host u))))"

definition forwarder_listen :: "string \<Rightarrow> fixture_listener" where
  "forwarder_listen addr =
     (if has_prefix addr ''unix://'' then FxUnix (trim_prefix addr ''unix://'')
      else FxTcp (trim_prefix addr ''tcp://''))"

text \<open>
  The counters of the forwarder; \<open>active\<close> is an \<open>int64\<close> and the others are \<open>uint64\<close>, all of them
  atomics that wrap around.
\<close>

record forwarder_counters =
  vf_active :: u64
  vf_total :: u64
  vf_bytes :: u64

definition new_forwarder :: forwarder_counters where
  "new_forwarder = \<lparr>vf_active = 0, vf_total = 0, vf_bytes = 0\<rparr>"

definition forwarder_accept :: "forwarder_counters \<Rightarrow> forwarder_counters" where
  "forwarder_accept f = f\<lparr>vf_active := vf_active f + 1, vf_total := vf_total f + 1\<rparr>"

definition forwarder_copied :: "nat \<Rightarrow> forwarder_counters \<Rightarrow> forwarder_counters" where
  "forwarder_copied n f = f\<lparr>vf_bytes := vf_bytes f + of_nat n\<rparr>"

definition forwarder_leave :: "forwarder_counters \<Rightarrow> forwarder_counters" where
  "forwarder_leave f = f\<lparr>vf_active := vf_active f - 1\<rparr>"

text \<open>
  \<open>Run\<close>: the accept loop over the results of \<open>Accept\<close>, and whether the context was done at the failure.
  A nil error is \<open>Inr\<close>; the loop has not returned while every accept succeeds.
\<close>

fun forwarder_run :: "bool option list \<Rightarrow> forwarder_counters \<Rightarrow> forwarder_counters \<times> (string + unit) option" where
  "forwarder_run [] f = (f, None)"
| "forwarder_run (None # accepts) f = forwarder_run accepts (forwarder_accept f)"
| "forwarder_run (Some finished # accepts) f = (f, Some (if finished then Inr () else Inl ''accept''))"

text \<open>The handlers of accepted connections in any interleaving, beside the numbers they should count.\<close>

inductive forwarder_step ::
  "forwarder_counters \<times> nat \<times> nat \<times> nat \<Rightarrow> forwarder_counters \<times> nat \<times> nat \<times> nat \<Rightarrow> bool" where
  accepted: "forwarder_step (f, running, opened, moved) (forwarder_accept f, Suc running, Suc opened, moved)"
| copied: "0 < running \<Longrightarrow>
    forwarder_step (f, running, opened, moved) (forwarder_copied n f, running, opened, moved + n)"
| left: "forwarder_step (f, Suc running, opened, moved) (forwarder_leave f, running, opened, moved)"

lemma forwarder_counters_exact:
  assumes "forwarder_step\<^sup>*\<^sup>* (new_forwarder, 0, 0, 0) (f, running, opened, moved)"
  shows "vf_active f = of_nat running \<and> vf_total f = of_nat opened \<and> vf_bytes f = of_nat moved \<and> running \<le> opened"
proof -
  have "vf_active f = of_nat running \<and> vf_total f = of_nat opened \<and> vf_bytes f = of_nat moved \<and> running \<le> opened"
    if "forwarder_step\<^sup>*\<^sup>* (new_forwarder, 0, 0, 0) s" and "s = (f, running, opened, moved)"
    for s f running opened moved
    using that
    by (induction arbitrary: f running opened moved rule: rtranclp_induct)
       (auto simp: new_forwarder_def forwarder_accept_def forwarder_copied_def forwarder_leave_def
         elim!: forwarder_step.cases)
  with assms show ?thesis by blast
qed

text \<open>What the launcher's \<open>parseVSOCK\<close> accepts the forwarder reads in the same way.\<close>

lemma vsock_parsers_agree:
  assumes "parse_vsock addr = Inr (cid, port)"
  shows "parse_vsock_addr addr = Inr (cid, port)"
proof -
  from assms obtain a b n m where cut: "cut_byte (CHR '':'') addr = (a, b, True)"
    and n: "parse_uint 32 a = Some n" and m: "parse_uint 32 b = Some m"
    and result: "cid = of_nat n" "port = of_nat m"
    by (auto simp: parse_vsock_def split: prod.splits if_splits option.splits)
  from parse_uint_digits [OF n] parse_uint_digits [OF m]
  have digits: "list_all is_digit a" "a \<noteq> []" "list_all is_digit b" by auto
  have "\<not> has_prefix addr ''vsock://''"
    using digits(1,2) cut_byte_foundD [OF cut] by (cases a) (auto simp: has_prefix_def is_digit_def byte_of_def)
  moreover have "CHR '':'' \<notin> set b" using digits(3) by (auto simp: list_all_iff is_digit_def byte_of_def)
  ultimately show ?thesis
    using cut_byte_foundD [OF cut] n m result
    by (simp add: parse_vsock_addr_def trim_prefix_def split_byte_append split_byte_absent)
qed

section \<open>The target server\<close>

text \<open>\<open>strconv.Atoi\<close>: an optional sign and decimal digits, within 64 bits.\<close>

definition atoi :: "string \<Rightarrow> int option" where
  "atoi s =
     (case s of
        CHR ''-'' # ds \<Rightarrow>
          (if ds = [] then None
           else (case parse_digits (2 ^ 63 + 1) 0 ds of None \<Rightarrow> None | Some n \<Rightarrow> Some (- int n)))
      | CHR ''+'' # ds \<Rightarrow> map_option int (parse_uint 63 ds)
      | _ \<Rightarrow> map_option int (parse_uint 63 s))"

text \<open>Arithmetic on \<open>int64\<close>: the result of an operation wraps around.\<close>

definition int64 :: "int \<Rightarrow> int" where
  "int64 i = signed_take_bit 63 i"

definition stream_megabytes :: "string \<Rightarrow> int" where
  "stream_megabytes s =
     (if s = [] then 50 else (case atoi s of Some v \<Rightarrow> if v > 0 then v else 50 | None \<Rightarrow> 50))"

definition stream_total :: "string \<Rightarrow> int" where
  "stream_total s = int64 (int64 (stream_megabytes s * 1024) * 1024)"

definition stream_chunk :: int where "stream_chunk = 64 * 1024"

text \<open>
  The loop of \<open>/stream\<close>. \<open>ok\<close> answers whether the write that starts at an offset succeeds; a write that
  does takes all of its bytes. The result is what was written when the handler returned; \<open>None\<close> means
  that the fuel did not suffice.
\<close>

fun stream_loop :: "nat \<Rightarrow> (int \<Rightarrow> bool) \<Rightarrow> int \<Rightarrow> int \<Rightarrow> int option" where
  "stream_loop 0 ok goal written = None"
| "stream_loop (Suc fuel) ok goal written =
     (if \<not> written < goal then Some written
      else
        (let to_write = (if int64 (written + stream_chunk) > goal then int64 (goal - written)
                         else stream_chunk) in
         if \<not> ok written then Some written
         else stream_loop fuel ok goal (int64 (written + to_write))))"

text \<open>The names of the generated certificate.\<close>

definition parse_ip :: "string \<Rightarrow> ip_addr option" where
  "parse_ip s = (case parse_addr s of Some a \<Rightarrow> if zone_of a = [] then Some a else None | None \<Rightarrow> None)"

fun certificate_names :: "string list \<Rightarrow> ip_addr list \<times> string list" where
  "certificate_names [] = ([], [])"
| "certificate_names (raw # raws) =
     (case certificate_names raws of
        (ips, names) \<Rightarrow>
          (let name = trim_space raw in
           (case parse_ip name of
              Some ip \<Rightarrow> (ip # ips, names)
            | None \<Rightarrow> if name \<noteq> [] then (ips, name # names) else (ips, names))))"

definition common_name :: "string list \<Rightarrow> string" where
  "common_name sans = (case sans of [] \<Rightarrow> ''test.example.com'' | s # _ \<Rightarrow> s)"

text \<open>
  \<open>ensureCertificate\<close>: the steps that can fail in their order, and the files they leave behind; \<open>ok\<close>
  answers for each step.
\<close>

datatype certificate_step =
    GenerateKey | SerialNumber | CreateCertificate | CreateCertFile | EncodeCert | CreateKeyFile | MarshalKey | EncodeKey

definition certificate_steps :: "certificate_step list" where
  "certificate_steps = [GenerateKey, SerialNumber, CreateCertificate, CreateCertFile, EncodeCert,
     CreateKeyFile, MarshalKey, EncodeKey]"

definition ensure_certificate ::
  "bool \<Rightarrow> bool \<Rightarrow> (certificate_step \<Rightarrow> bool) \<Rightarrow> certificate_step list \<times> bool" where
  "ensure_certificate cert_exists key_exists ok =
     (if cert_exists \<and> key_exists then ([], True)
      else (let completed = takeWhile ok certificate_steps in (completed, completed = certificate_steps)))"

datatype target_serving = ServeTLS string | ServePlain string | TargetFatal string

definition target_main ::
  "string \<Rightarrow> int \<Rightarrow> bool \<Rightarrow> string \<Rightarrow> string \<Rightarrow> bool \<Rightarrow> bool \<Rightarrow> (certificate_step \<Rightarrow> bool) \<Rightarrow> target_serving" where
  "target_main host port tls cert key cert_exists key_exists ok =
     (let addr = host @ '':'' @ format_int port in
      if \<not> tls then ServePlain addr
      else if cert = [] \<or> key = [] then TargetFatal ''both -cert and -key must be specified''
      else if \<not> snd (ensure_certificate cert_exists key_exists ok) then TargetFatal ''certificate''
      else ServeTLS addr)"

text \<open>Every name of the list that is not blank gets into the certificate, once, in its order and kind.\<close>

lemma certificate_names_complete:
  "fst (certificate_names sans) = List.map_filter (parse_ip \<circ> trim_space) sans
   \<and> snd (certificate_names sans)
     = filter (\<lambda>name. parse_ip name = None \<and> name \<noteq> []) (map trim_space sans)"
  by (induction sans) (auto simp: List.map_filter_simps Let_def split: prod.splits option.splits)

lemma int64_id: "- (2 ^ 63) \<le> i \<Longrightarrow> i < 2 ^ 63 \<Longrightarrow> int64 i = i"
  unfolding int64_def by (rule signed_take_bit_int_eq_self)

lemma stream_loop_exact:
  assumes "0 \<le> written" and "written \<le> goal" and "goal < 2 ^ 63 - stream_chunk"
    and "nat ((goal - written + stream_chunk - 1) div stream_chunk) < fuel" and "\<forall>i. ok i"
  shows "stream_loop fuel ok goal written = Some goal"
  using assms
proof (induction fuel arbitrary: written)
  case (Suc fuel)
  show ?case
  proof (cases "written < goal")
    case True
    let ?next = "written + (if written + stream_chunk > goal then goal - written else stream_chunk)"
    have w: "int64 (written + stream_chunk) = written + stream_chunk" "int64 (goal - written) = goal - written"
      using Suc.prems by (simp_all add: int64_id stream_chunk_def)
    have n: "int64 ?next = ?next" "written < ?next" "?next \<le> goal"
      using Suc.prems True by (simp_all add: int64_id stream_chunk_def)
    have "nat ((goal - ?next + stream_chunk - 1) div stream_chunk) < fuel"
      using Suc.prems(4) True by (auto simp: stream_chunk_def)
    with Suc.IH [of ?next] Suc.prems n True w show ?thesis
      by (cases "goal < written + stream_chunk") (simp_all add: Let_def)
  qed (use Suc.prems in simp)
qed simp

text \<open>
  The stream has the requested length as long as its byte count fits an \<open>int64\<close>; from \<open>2 ^ 43\<close> megabytes
  on the multiplication wraps around, and there the stream is empty.
\<close>

lemma stream_sends_requested:
  assumes "stream_megabytes s < 2 ^ 43" and "\<forall>i. ok i"
  shows "\<exists>fuel. stream_loop fuel ok (stream_total s) 0 = Some (stream_megabytes s * 2 ^ 20)"
proof -
  let ?m = "stream_megabytes s"
  have "0 < ?m" by (auto simp: stream_megabytes_def split: option.splits)
  then have "stream_total s = ?m * 2 ^ 20" "?m * 2 ^ 20 < 2 ^ 63 - stream_chunk"
    using assms(1) by (simp_all add: stream_total_def int64_id stream_chunk_def)
  moreover from this \<open>0 < ?m\<close> have "0 \<le> stream_total s" by simp
  ultimately show ?thesis
    using stream_loop_exact [OF order.refl _ _ lessI assms(2), of "stream_total s"] by metis
qed

lemma stream_wraps_to_nothing:
  "stream_loop (Suc fuel) ok (stream_total ''8796093022208'') 0 = Some 0"
  by (simp add: stream_total_def stream_megabytes_def atoi_def parse_uint_def is_digit_def byte_of_def
      digit_value_def int64_def signed_take_bit_int_eq_self Let_def signed_take_bit_eq_if_negative)

text \<open>With TLS the target never serves without a certificate, and existing files are left as they are.\<close>

lemma target_serves_tls:
  assumes "target_main host port tls cert key cert_exists key_exists ok = ServeTLS addr"
  shows "tls \<and> cert \<noteq> [] \<and> key \<noteq> [] \<and> (cert_exists \<and> key_exists \<or> list_all ok certificate_steps)"
  using assms takeWhile_eq_all_conv [of ok certificate_steps]
  by (auto simp: target_main_def ensure_certificate_def Let_def list_all_iff split: if_splits)

text \<open>The accept loop counts every connection before the accept that fails, modulo \<open>2 ^ 64\<close>.\<close>

lemma forwarder_run_counts:
  "forwarder_run accepts f = (f', result)
    \<Longrightarrow> vf_total f' = vf_total f + of_nat (length (takeWhile (\<lambda>a. a = None) accepts))
      \<and> (result = None \<longleftrightarrow> list_all (\<lambda>a. a = None) accepts)"
  by (induction accepts f arbitrary: f' result rule: forwarder_run.induct)
     (auto simp: forwarder_accept_def algebra_simps)

end
