(* ===== verification/Vsock.thy ===== *)
theory Vsock
  imports Fixtures
begin

text \<open>
  Raw vsock sockets and the ends of the scenario programs: the connections and listeners that
  boundary-proxy and vsock-forwarder (src/scenarios/cmd) build on file descriptors, the launcher's own
  vsock dial (sdk/cmd/tun2connect/main.go), and the forwarder's \<open>main\<close>. The kernel's answers are a
  record; the open descriptors of the process are a set, so that a leak would show.
\<close>

section \<open>Addresses\<close>

record vsock_addr =
  va_cid :: u32
  va_port :: u32

definition vsock_network :: "vsock_addr \<Rightarrow> string" where
  "vsock_network a = ''vsock''"

definition vsock_string :: "vsock_addr \<Rightarrow> string" where
  "vsock_string a = show_nat (unat (va_cid a)) @ CHR '':'' # show_nat (unat (va_port a))"

definition vmaddr_cid_any :: u32 where "vmaddr_cid_any = 0xFFFFFFFF"

section \<open>Sockets\<close>

text \<open>
  \<open>vk_socket\<close> is the descriptor a new socket gets, \<open>vk_accept\<close> the descriptor and peer of an accepted
  connection; the peer is \<open>None\<close> when the address is not one of vsock.
\<close>

record vsock_kernel =
  vk_socket :: "nat option"
  vk_connect :: "vsock_addr \<Rightarrow> bool"
  vk_bind :: "vsock_addr \<Rightarrow> bool"
  vk_listen :: "nat \<Rightarrow> bool"
  vk_accept :: "nat \<Rightarrow> (nat \<times> vsock_addr option) option"

record vsock_conn =
  vc_fd :: nat
  vc_laddr :: vsock_addr
  vc_raddr :: vsock_addr

record vsock_listener =
  vl_fd :: nat
  vl_addr :: vsock_addr

datatype vsock_error = SocketFailed | ConnectFailed | BindFailed | ListenFailed | AcceptFailed

definition dial_vsock ::
  "vsock_kernel \<Rightarrow> u32 \<Rightarrow> u32 \<Rightarrow> nat set \<Rightarrow> (vsock_error + vsock_conn) \<times> nat set" where
  "dial_vsock k cid port fds =
     (case vk_socket k of
        None \<Rightarrow> (Inl SocketFailed, fds)
      | Some fd \<Rightarrow>
          (let sa = \<lparr>va_cid = cid, va_port = port\<rparr> in
           if \<not> vk_connect k sa then (Inl ConnectFailed, insert fd fds - {fd})
           else (Inr \<lparr>vc_fd = fd, vc_laddr = \<lparr>va_cid = vmaddr_cid_any, va_port = 0\<rparr>, vc_raddr = sa\<rparr>,
                 insert fd fds)))"

text \<open>The listening socket of the fixture boundary; every failure ends the process.\<close>

definition listen_vsock :: "vsock_kernel \<Rightarrow> u32 \<Rightarrow> nat set \<Rightarrow> (vsock_error + vsock_listener) \<times> nat set" where
  "listen_vsock k port fds =
     (case vk_socket k of
        None \<Rightarrow> (Inl SocketFailed, fds)
      | Some fd \<Rightarrow>
          (let sa = \<lparr>va_cid = vmaddr_cid_any, va_port = port\<rparr> in
           if \<not> vk_bind k sa then (Inl BindFailed, insert fd fds)
           else if \<not> vk_listen k 128 then (Inl ListenFailed, insert fd fds)
           else (Inr \<lparr>vl_fd = fd, vl_addr = sa\<rparr>, insert fd fds)))"

definition accept_vsock ::
  "vsock_kernel \<Rightarrow> vsock_listener \<Rightarrow> nat set \<Rightarrow> (vsock_error + vsock_conn) \<times> nat set" where
  "accept_vsock k l fds =
     (case vk_accept k (vl_fd l) of
        None \<Rightarrow> (Inl AcceptFailed, fds)
      | Some (fd, peer) \<Rightarrow>
          (Inr \<lparr>vc_fd = fd, vc_laddr = vl_addr l,
                vc_raddr = (case peer of None \<Rightarrow> \<lparr>va_cid = 0, va_port = 0\<rparr> | Some a \<Rightarrow> a)\<rparr>,
           insert fd fds))"

definition close_vsock :: "vsock_listener \<Rightarrow> nat set \<Rightarrow> nat set" where
  "close_vsock l fds = fds - {vl_fd l}"

text \<open>The launcher parses its vsock address once more for every flow and leaves the dial to its library.\<close>

definition dial_vsock_text :: "(u32 \<Rightarrow> u32 \<Rightarrow> 'c option) \<Rightarrow> string \<Rightarrow> string + 'c" where
  "dial_vsock_text dial addr =
     (case parse_vsock addr of
        Inl e \<Rightarrow> Inl e
      | Inr (cid, port) \<Rightarrow> (case dial cid port of None \<Rightarrow> Inl ''dial'' | Some c \<Rightarrow> Inr c))"

section \<open>The main functions of the scenario programs\<close>

text \<open>The listener of the fixture boundary, with the files it removes and opens to everyone.\<close>

datatype fixture_socket = NetSocket string string | VsockSocket vsock_listener

definition fixture_open ::
  "(string \<Rightarrow> string \<Rightarrow> bool) \<Rightarrow> vsock_kernel \<Rightarrow> parsed_url option \<Rightarrow> nat set
    \<Rightarrow> (string + fixture_socket) \<times> nat set" where
  "fixture_open listen_ok k parsed fds =
     (case fixture_listen parsed of
        Inl e \<Rightarrow> (Inl e, fds)
      | Inr (FxUnix path) \<Rightarrow>
          (if listen_ok ''unix'' path then Inr (NetSocket ''unix'' path) else Inl ''failed to listen'', fds)
      | Inr (FxTcp host) \<Rightarrow>
          (if listen_ok ''tcp'' host then Inr (NetSocket ''tcp'' host) else Inl ''failed to listen'', fds)
      | Inr (FxVsock port) \<Rightarrow>
          (case listen_vsock k port fds of
             (Inl _, fds') \<Rightarrow> (Inl ''vsock'', fds')
           | (Inr l, fds') \<Rightarrow> (Inr (VsockSocket l), fds')))"

text \<open>The accept loop of the fixture boundary never ends: it logs a failed accept and goes on.\<close>

fun fixture_accepts :: "'c option list \<Rightarrow> 'c list" where
  "fixture_accepts [] = []"
| "fixture_accepts (None # accepts) = fixture_accepts accepts"
| "fixture_accepts (Some c # accepts) = c # fixture_accepts accepts"

text \<open>
  \<open>main\<close> of the vsock forwarder over the results of its accepts, each failure with whether the shutdown
  signal had come, and whether it had come when \<open>main\<close> looks at the error. Only a failure without the
  signal is fatal; \<open>None\<close> while it serves.
\<close>

datatype forwarder_exit = ForwarderFatal string | ForwarderDone

definition forwarder_main ::
  "string \<Rightarrow> string \<Rightarrow> parsed_url option \<Rightarrow> (fixture_listener \<Rightarrow> bool) \<Rightarrow> string \<Rightarrow> bool option list \<Rightarrow> bool
    \<Rightarrow> forwarder_counters \<times> forwarder_exit option" where
  "forwarder_main vsock_dest target parsed listen_ok listen_addr accepts signalled =
     (case forwarder_dialer vsock_dest target parsed of
        Inl e \<Rightarrow> (new_forwarder, Some (ForwarderFatal e))
      | Inr _ \<Rightarrow>
          if \<not> listen_ok (forwarder_listen listen_addr) then
            (new_forwarder, Some (ForwarderFatal ''failed to listen''))
          else
            (case forwarder_run accepts new_forwarder of
               (f, None) \<Rightarrow> (f, None)
             | (f, Some (Inl e)) \<Rightarrow> (f, Some (if signalled then ForwarderDone else ForwarderFatal e))
             | (f, Some (Inr _)) \<Rightarrow> (f, Some ForwarderDone)))"

section \<open>Lemmas\<close>

lemma unat_u32_fits: "unat (w :: u32) < 2 ^ 32"
  using unsigned_less [of w, where ?'a = nat] by simp

text \<open>An address is read back from its text, with or without the scheme.\<close>

lemma vsock_string_round_trip:
  "parse_vsock_addr (vsock_string a) = Inr (va_cid a, va_port a)"
  "parse_vsock_addr (''vsock://'' @ vsock_string a) = Inr (va_cid a, va_port a)"
proof -
  let ?c = "show_nat (unat (va_cid a))" and ?p = "show_nat (unat (va_port a))"
  have plain: "CHR '':'' \<notin> set (show_nat n)" for n
    using digit_not_special [OF show_nat_digits] by auto
  have split: "split_byte (CHR '':'') (vsock_string a) = [?c, ?p]"
    using plain by (simp add: vsock_string_def split_byte_append split_byte_absent)
  have parse: "parse_uint 32 (show_nat (unat w)) = Some (unat w)" for w :: u32
    using parse_uint_show_nat [OF unat_u32_fits [of w]] by simp
  have "\<not> has_prefix (vsock_string a) ''vsock://''"
  proof
    assume "has_prefix (vsock_string a) ''vsock://''"
    then have "hd (vsock_string a) = CHR ''v''" by (cases "vsock_string a") (auto simp: has_prefix_def)
    moreover have "?c \<noteq> []" by simp
    ultimately have "CHR ''v'' \<in> set ?c" by (metis hd_append2 hd_in_set vsock_string_def)
    with show_nat_digits [of "unat (va_cid a)"] show False by (auto simp: list_all_iff is_digit_def byte_of_def)
  qed
  then show "parse_vsock_addr (vsock_string a) = Inr (va_cid a, va_port a)"
    using split parse by (simp add: parse_vsock_addr_def trim_prefix_def)
  show "parse_vsock_addr (''vsock://'' @ vsock_string a) = Inr (va_cid a, va_port a)"
    using split parse by (simp add: parse_vsock_addr_def trim_prefix_def has_prefix_def)
qed

text \<open>A failed dial leaves no descriptor open, a successful one exactly its own.\<close>

lemma dial_vsock_no_leak:
  assumes "\<And>fd. vk_socket k = Some fd \<Longrightarrow> fd \<notin> fds" and "dial_vsock k cid port fds = (result, fds')"
  shows "case result of Inl _ \<Rightarrow> fds' = fds | Inr c \<Rightarrow> fds' = insert (vc_fd c) fds \<and> vc_fd c \<notin> fds
    \<and> vc_raddr c = \<lparr>va_cid = cid, va_port = port\<rparr> \<and> vk_connect k (vc_raddr c)"
  using assms by (auto simp: dial_vsock_def Let_def split: option.splits if_splits)

text \<open>A forwarder that was told to stop ends without an error, whatever its listener then says.\<close>

lemma forwarder_main_stops:
  assumes "forwarder_main vsock_dest target parsed listen_ok listen_addr accepts signalled = (f, Some outcome)"
    and "forwarder_dialer vsock_dest target parsed = Inr d" and "listen_ok (forwarder_listen listen_addr)"
  shows "outcome = ForwarderDone \<longleftrightarrow> signalled \<or> find (\<lambda>a. a \<noteq> None) accepts = Some (Some True)"
proof -
  have inner: "is_ok r \<longleftrightarrow> find (\<lambda>a. a \<noteq> None) accepts = Some (Some True)"
    if "forwarder_run accepts f0 = (f1, Some r)" for f0 f1 r
    using that by (induction accepts f0 rule: forwarder_run.induct) (auto split: if_splits)
  obtain f1 o1 where run: "forwarder_run accepts new_forwarder = (f1, o1)" by fastforce
  with assms obtain r where r: "o1 = Some r"
    by (cases o1) (simp_all add: forwarder_main_def)
  have "is_ok r \<longleftrightarrow> find (\<lambda>a. a \<noteq> None) accepts = Some (Some True)"
    using inner run r by blast
  with assms run r show ?thesis
    by (cases r) (auto simp: forwarder_main_def split: if_splits)
qed

end
