(* ===== verification/Listener.thy ===== *)
theory Listener
  imports Boundary Admission
begin

text \<open>
  The boundary's accept loop (sdk/cmd/connect-proxy/main.go, serveListener) and the idle watch of its
  tunnels (idleWatch). One accepted connection either takes a slot and is served, or is answered 503
  and closed; the slot comes back when the handler ends.
\<close>

section \<open>The accept loop\<close>

definition is_tls :: "connection \<Rightarrow> bool" where
  "is_tls conn = (case conn of PlainConn \<Rightarrow> False | TLSConn _ \<Rightarrow> True)"

text \<open>
  What one handler goroutine does: on the HTTP/1.1 wire \<open>serve\<close>; on the HTTP/2 wire the session, whose
  requests (with those the HTTP/2 library lets through) are handled one by one.
\<close>

definition run_handler ::
  "boundary \<Rightarrow> http_lib \<Rightarrow> bool \<Rightarrow> connection \<Rightarrow> reader \<Rightarrow> h2_request list \<Rightarrow> u64 \<Rightarrow> event list list \<times> u64" where
  "run_handler b lib use_h2 conn r reqs connections =
     (if \<not> use_h2 then
        (case serve b lib conn r connections of (events, n) \<Rightarrow> ([events], n))
      else
        (case session_peer conn of
           None \<Rightarrow>
             ([[audit b (blank_record\<lparr>ar_wire := ''h2'', ar_decision := ''fail'', ar_reason := ''tls-failed''\<rparr>)]],
              connections)
         | Some peer \<Rightarrow>
             (case new_session peer connections of
                (s, n) \<Rightarrow> (map (serve_h2 b s) reqs, n))))"

definition turned_away :: "boundary \<Rightarrow> bool \<Rightarrow> connection \<Rightarrow> event list" where
  "turned_away b use_h2 conn =
     audit b (blank_record\<lparr>ar_wire := (if use_h2 then ''h2'' else ''h1''), ar_decision := ''fail'',
                ar_reason := ''busy''\<rparr>)
     # (if is_tls conn then [] else [Deny 503 ''busy''])"

text \<open>One turn of the loop: whether a handler starts, the loop's own effects and the slots.\<close>

definition accept_connection ::
  "boundary \<Rightarrow> bool \<Rightarrow> connection \<Rightarrow> slots \<Rightarrow> bool \<times> event list \<times> slots" where
  "accept_connection b use_h2 conn s =
     (case take_slot s of
        (True, s') \<Rightarrow> (True, [], s')
      | (False, s') \<Rightarrow> (False, turned_away b use_h2 conn, s'))"

text \<open>
  C27. The boundary runs at most \<open>max-connections\<close> handlers at any time, whatever the order of arrivals
  and departures, and the slots in use are exactly the running handlers. A connection is turned away
  only when all are in use; then it leaves one \<open>busy\<close> record, a 503 answer unless it speaks TLS, and
  the slots as they were.
\<close>

theorem boundary_concurrency_bounded:
  assumes "server_later take_slot give_slot (new_slots limit, 0) (s, n)"
  shows "slot_used s = n \<and> n \<le> limit
    \<and> (case accept_connection b mux conn s of (started, events, s') \<Rightarrow>
         (started \<longleftrightarrow> n < limit)
         \<and> (if started then events = [] \<and> slot_used s' = n + 1
            else n = limit \<and> s' = s \<and> map ar_reason (audits events) = [''busy'']
              \<and> denials events = (if is_tls conn then [] else [(503, ''busy'')])))"
proof -
  from slots.workers_bounded [OF assms] have "slot_used s = n \<and> n \<le> limit \<and> slot_capacity s = limit"
    by (simp add: new_slots_def)
  then show ?thesis
    by (auto simp: accept_connection_def take_slot_def turned_away_def audit_def)
qed

theorem boundary_concurrency_bounded_witness:
  "map ar_reason (audits (fst (snd (accept_connection sample_boundary False PlainConn
      (snd (take_slot (new_slots 1))))))) = [''busy'']"
proof -
  have "take_slot (new_slots 1) = (True, snd (take_slot (new_slots 1)))"
    by (simp add: take_slot_def new_slots_def)
  from admit [where acquire = take_slot and release = give_slot and n = 0, OF this]
  have "server_later take_slot give_slot (new_slots 1, 0) (snd (take_slot (new_slots 1)), 1)"
    by (simp add: server_later_def)
  from boundary_concurrency_bounded
    [where b = sample_boundary and mux = False and conn = PlainConn, OF this] show ?thesis
    by (auto split: prod.splits if_splits)
qed

section \<open>Every refusal\<close>






section \<open>The idle watch\<close>

text \<open>
  The watch of one tunnel: the clock readings at which data passed (\<open>Touch\<close>) and at which the ticker
  fired (\<open>Tick\<close>), in order, in nanoseconds. The result is the time at which \<open>stop\<close> runs, if it does.
\<close>

datatype watch_event = Touch int | Tick int

definition tick_period :: "int \<Rightarrow> int" where
  "tick_period idle = max (idle div 4) 1000000"

fun watch_loop :: "int \<Rightarrow> int \<Rightarrow> watch_event list \<Rightarrow> int option" where
  "watch_loop idle last_touch [] = None"
| "watch_loop idle last_touch (Touch t # es) = watch_loop idle t es"
| "watch_loop idle last_touch (Tick t # es) =
     (if t - last_touch \<ge> idle then Some t else watch_loop idle last_touch es)"

definition idle_watch :: "int \<Rightarrow> int \<Rightarrow> watch_event list \<Rightarrow> int option" where
  "idle_watch idle start es = (if idle \<le> 0 then None else watch_loop idle start es)"

fun event_time :: "watch_event \<Rightarrow> int" where
  "event_time (Touch t) = t"
| "event_time (Tick t) = t"

text \<open>
  The ticker's promise for the events from time \<open>now\<close> on: they are in order, and no more than \<open>period\<close>
  passes without a tick until the time \<open>horizon\<close>.
\<close>

fun ticking :: "int \<Rightarrow> int \<Rightarrow> int \<Rightarrow> watch_event list \<Rightarrow> bool" where
  "ticking period horizon now [] = (horizon \<le> now)"
| "ticking period horizon now (Touch t # es) = (now \<le> t \<and> ticking period horizon now es)"
| "ticking period horizon now (Tick t # es) = (now \<le> t \<and> t \<le> now + period \<and> ticking period horizon t es)"

lemma watch_loop_sound:
  assumes "watch_loop idle last_touch es = Some t" and "sorted (last_touch # map event_time es)"
  shows "\<exists>before after. es = before @ Tick t # after
    \<and> idle \<le> t - last_touch \<and> (\<forall>u. Touch u \<in> set before \<longrightarrow> idle \<le> t - u)"
  using assms
proof (induction idle last_touch es rule: watch_loop.induct)
  case (2 idle last_touch u es)
  from 2 obtain before after where *: "es = before @ Tick t # after" "idle \<le> t - u"
    "\<forall>v. Touch v \<in> set before \<longrightarrow> idle \<le> t - v" by auto
  with "2.prems"(2) show ?case by (intro exI [of _ "Touch u # before"] exI [of _ after]) auto
next
  case (3 idle last_touch u es)
  show ?case
  proof (cases "u - last_touch \<ge> idle")
    case True
    with "3.prems" show ?thesis by (intro exI [of _ "[]"] exI [of _ es]) auto
  next
    case False
    with "3.prems" have "watch_loop idle last_touch es = Some t" "sorted (last_touch # map event_time es)"
      by auto
    from "3.IH" [OF False this] obtain before after where "es = before @ Tick t # after"
      "idle \<le> t - last_touch" "\<forall>v. Touch v \<in> set before \<longrightarrow> idle \<le> t - v" by blast
    then show ?thesis by (intro exI [of _ "Tick u # before"] exI [of _ after]) auto
  qed
qed simp

lemma watch_loop_live:
  assumes "ticking period horizon now es" and "0 < period"
    and "\<forall>u. Touch u \<in> set es \<longrightarrow> u \<le> quiet" and "last_touch \<le> quiet"
    and "now \<le> quiet + idle" and "quiet + idle + period \<le> horizon"
  shows "\<exists>t. watch_loop idle last_touch es = Some t \<and> t \<le> quiet + idle + period"
  using assms
proof (induction idle last_touch es arbitrary: now rule: watch_loop.induct)
  case (3 idle last_touch t es)
  show ?case
  proof (cases "t - last_touch \<ge> idle")
    case True
    with "3.prems" show ?thesis by auto
  next
    case False
    with "3.prems" have "t \<le> quiet + idle" "ticking period horizon t es" by auto
    with "3.IH" [OF False _ "3.prems"(2) _ "3.prems"(4), of t] "3.prems"(3,6) False show ?thesis by auto
  qed
qed auto

text \<open>
  C40. A tunnel with an idle limit is closed if and only if it is idle: with a ticker that keeps its
  period, a tunnel that carries no data after the time \<open>quiet\<close> is closed no later than one limit and one
  tick period after it, and when it is closed no data has passed for at least the limit. A limit of
  zero or less never closes a tunnel.
\<close>

theorem idle_tunnels_closed:
  assumes "sorted (start # map event_time es)" and "\<forall>u. Touch u \<in> set es \<longrightarrow> u \<le> quiet" and "start \<le> quiet"
    and "ticking (tick_period idle) horizon start es" and "quiet + idle + tick_period idle \<le> horizon"
  shows "if idle \<le> 0 then idle_watch idle start es = None
    else \<exists>t before after. idle_watch idle start es = Some t \<and> t \<le> quiet + idle + tick_period idle
      \<and> es = before @ Tick t # after \<and> idle \<le> t - start
      \<and> (\<forall>u. Touch u \<in> set before \<longrightarrow> idle \<le> t - u)"
proof (cases "idle \<le> 0")
  case False
  have "0 < tick_period idle" by (simp add: tick_period_def)
  from watch_loop_live [OF assms(4) this assms(2,3) _ assms(5)] False assms(3)
  obtain t where t: "watch_loop idle start es = Some t" "t \<le> quiet + idle + tick_period idle" by auto
  from watch_loop_sound [OF t(1) assms(1)] t False show ?thesis by (auto simp: idle_watch_def)
qed (simp add: idle_watch_def)

theorem idle_tunnels_closed_witness:
  "\<exists>t before after. idle_watch 4000000 0 [Tick 1000000, Touch 1500000, Tick 2000000, Tick 3000000,
      Tick 4000000, Tick 5000000, Tick 6000000, Tick 7000000] = Some t \<and> t \<le> 6500000
    \<and> [Tick 1000000, Touch 1500000, Tick 2000000, Tick 3000000, Tick 4000000, Tick 5000000, Tick 6000000,
       Tick 7000000] = before @ Tick t # after"
proof -
  let ?es = "[Tick 1000000, Touch 1500000, Tick 2000000, Tick 3000000, Tick 4000000, Tick 5000000,
    Tick 6000000, Tick 7000000]"
  have h: "sorted (0 # map event_time ?es)" "\<forall>u. Touch u \<in> set ?es \<longrightarrow> u \<le> 1500000" "(0 :: int) \<le> 1500000"
    "ticking (tick_period 4000000) 7000000 0 ?es" "1500000 + 4000000 + tick_period 4000000 \<le> 7000000"
    by (simp_all add: tick_period_def)
  have "1500000 + 4000000 + tick_period 4000000 = 6500000" by (simp add: tick_period_def)
  with idle_tunnels_closed [OF h] show ?thesis by auto
qed

section \<open>Sessions of the handlers\<close>

text \<open>
  A handler opens at most one session; all requests of an HTTP/2 session are decided on their own, under
  the peer and the identifier of that session, and the next handler gets another identifier.
\<close>

lemma run_handler_session:
  assumes "run_handler b lib use_h2 conn r reqs connections = (handled, n)"
  shows "n = (if session_peer conn = None then connections else connections + 1)"
    and "use_h2 \<Longrightarrow> session_peer conn = Some peer
      \<Longrightarrow> handled = map (serve_h2 b \<lparr>s_peer = peer, s_id = show_nat (unat n)\<rparr>) reqs"
  using assms
  by (auto simp: run_handler_def serve_def new_session_def Let_def
      split: if_splits option.splits prod.splits sum.splits read_failure.splits)

end
