(* ===== verification/Boundary_Wire.thy ===== *)
theory Boundary_Wire
  imports Boundary Ingress
begin

text \<open>
  The bytes of the boundary's refusals (sdk/cmd/connect-proxy/main.go): the response the HTTP/1.1
  responder writes and the fields the HTTP/2 responder sets; and the small adapters around a tunnel, the
  reader that reports activity and the writer that flushes.
\<close>

definition h1_deny :: "nat \<Rightarrow> string \<Rightarrow> string" where
  "h1_deny status reason =
     ''HTTP/1.1 '' @ show_nat status @ '' '' @ status_text status @ crlf
       @ ''Proxy-Status: '' @ boundary_status reason @ crlf
       @ ''Content-Length: 0'' @ crlf @ crlf"

definition h2_deny :: "nat \<Rightarrow> string \<Rightarrow> nat \<times> mime_header" where
  "h2_deny status reason = (status, [(''Proxy-Status'', [boundary_status reason])])"

text \<open>A read of the tunnel: its bytes or error, and whether the idle watch hears of it.\<close>

definition activity_read :: "(bytes \<times> stream_error option) \<Rightarrow> (bytes \<times> stream_error option) \<times> bool" where
  "activity_read answer = (answer, fst answer \<noteq> [])"

text \<open>A write of the tunnel over HTTP/2: the bytes taken and whether they were flushed.\<close>

definition flush_write :: "(nat \<times> bool) \<Rightarrow> (nat \<times> bool) \<times> bool" where
  "flush_write answer = (answer, snd answer)"

section \<open>A refusal is one well-formed response\<close>

abbreviation line_feed :: char where "line_feed \<equiv> CHR 0x0A"

lemma token_no_line_feed: "reason_token s \<Longrightarrow> line_feed \<notin> set s"
  by (auto simp: reason_token_def token_char_def list_all_iff byte_of_def)

lemma show_nat_no_line_feed: "line_feed \<notin> set (show_nat n)"
  using show_nat_digits [of n] by (auto simp: list_all_iff is_digit_def byte_of_def)

lemma status_line_feed:
  "line_feed \<notin> set (status_text status)" "line_feed \<notin> set (proxy_error_type reason)"
  by (auto simp: status_text_def proxy_error_type_def)

lemma split_four_lines:
  assumes "c \<notin> set as" and "c \<notin> set bs" and "c \<notin> set cs" and "c \<notin> set ds"
  shows "split_byte c (as @ c # (bs @ c # (cs @ c # (ds @ c # [])))) = [as, bs, cs, ds, []]"
  using assms by (simp add: split_byte_append)

text \<open>
  Whatever a guest asks for, the refusal it gets is one response head of three lines and nothing after
  it: its status line, the Proxy-Status field with the registered reason, and an empty body.
\<close>

lemma denial_is_one_response:
  assumes "Deny status reason \<in> set (dispatch b lib head s) \<union> set (serve_h2 b s req)"
  shows "split_byte line_feed (h1_deny status reason)
      = [''HTTP/1.1 '' @ show_nat status @ '' '' @ status_text status @ [CHR 0x0D],
         ''Proxy-Status: '' @ boundary_status reason @ [CHR 0x0D], ''Content-Length: 0'' @ [CHR 0x0D],
         [CHR 0x0D], []]
    \<and> status_text status \<noteq> []
    \<and> proxy_status_reason (header_get (snd (h2_deny status reason)) ''Proxy-Status'') = reason"
proof -
  from assms have m: "(status, reason) \<in> set boundary_reasons"
    using dispatch_denials serve_h2_denials by blast
  note token = boundary_reasons_tokens [OF m]
  have named: "status_text status \<noteq> []"
    using m by (auto simp: boundary_reasons_def status_text_def)
  have lines: "line_feed \<notin> set (''HTTP/1.1 '' @ show_nat status @ '' '' @ status_text status @ [CHR 0x0D])"
    "line_feed \<notin> set (''Proxy-Status: '' @ boundary_status reason @ [CHR 0x0D])"
    "line_feed \<notin> set (''Content-Length: 0'' @ [CHR 0x0D])" "line_feed \<notin> set [CHR 0x0D]"
    using token show_nat_no_line_feed status_line_feed
    by (auto simp: boundary_status_def proxy_status_def dest: token_no_line_feed)
  have "h1_deny status reason
    = (''HTTP/1.1 '' @ show_nat status @ '' '' @ status_text status @ [CHR 0x0D]) @ line_feed #
      ((''Proxy-Status: '' @ boundary_status reason @ [CHR 0x0D]) @ line_feed #
       ((''Content-Length: 0'' @ [CHR 0x0D]) @ line_feed # ([CHR 0x0D] @ line_feed # [])))"
    by (simp add: h1_deny_def crlf_def)
  then have "split_byte line_feed (h1_deny status reason)
      = [''HTTP/1.1 '' @ show_nat status @ '' '' @ status_text status @ [CHR 0x0D],
         ''Proxy-Status: '' @ boundary_status reason @ [CHR 0x0D], ''Content-Length: 0'' @ [CHR 0x0D],
         [CHR 0x0D], []]"
    using split_four_lines [OF lines] by (simp only:)
  with named token show ?thesis
    by (simp add: h2_deny_def header_get_def header_values_def boundary_status_def proxy_status_reason_status)
qed

end
