(* ===== verification/Client_Conn.thy ===== *)
theory Client_Conn
  imports Client
begin

text \<open>
  The connections behind the boundary clients (sdk/pkg/tun2connect/connect.go and connect_h2.go): what a
  dial does with the connection or the shared session it uses, on every path, and where the tunnel's
  reader stands afterwards. The HTTP library's reader of one response is a parameter.
\<close>

section \<open>HTTP/1.1: one connection per flow\<close>

text \<open>\<open>cn_can_half\<close>: the transport has a \<open>CloseWrite\<close> of its own.\<close>

record client_conn =
  cn_sent :: "http_request list"
  cn_in :: reader
  cn_deadline :: "int option"
  cn_open :: bool
  cn_can_half :: bool
  cn_writable :: bool

record client_env =
  ce_authority :: string
  ce_can_half :: bool
  ce_dial :: "reader option"
  ce_deadline :: "int option"
  ce_write_ok :: bool
  ce_read_response :: "reader \<Rightarrow> (http_response \<times> reader) option"

definition add_fields :: "mime_header \<Rightarrow> http_request \<Rightarrow> http_request" where
  "add_fields extra req = req\<lparr>rq_header := rq_header req @ extra\<rparr>"

text \<open>\<open>readFinalResponse\<close> on the stream; it reads at most nine responses.\<close>

function read_final ::
  "(reader \<Rightarrow> (http_response \<times> reader) option) \<Rightarrow> nat \<Rightarrow> reader \<Rightarrow> client_error + (http_response \<times> reader)" where
  "read_final read_response interim r =
     (case read_response r of
        None \<Rightarrow> Inl TransportError
      | Some (resp, rest) \<Rightarrow>
          if rs_status resp < 100 \<or> rs_status resp \<ge> 200 \<or> rs_status resp = 101 then Inr (resp, rest)
          else if interim \<ge> max_interim_responses then Inl TooManyInterim
          else read_final read_response (Suc interim) rest)"
  by auto
termination
  by (relation "measure (\<lambda>(_, interim, _). Suc max_interim_responses - interim)") auto

declare read_final.simps [simp del]

definition close_conn :: "client_conn \<Rightarrow> client_conn" where
  "close_conn c = c\<lparr>cn_open := False, cn_writable := False\<rparr>"

text \<open>\<open>CloseWrite\<close> of \<open>bufConn\<close>: without a half-close the transport is closed altogether.\<close>

definition buf_close_write :: "client_conn \<Rightarrow> client_conn" where
  "buf_close_write c = (if cn_can_half c then c\<lparr>cn_writable := False\<rparr> else close_conn c)"

definition capsule_conn_close :: "client_conn \<Rightarrow> client_conn" where
  "capsule_conn_close c = close_conn c"

definition round_trip ::
  "client_env \<Rightarrow> mime_header \<Rightarrow> http_request \<Rightarrow> client_conn option \<times> (client_error + http_response)" where
  "round_trip e extra req =
     (case ce_dial e of
        None \<Rightarrow> (None, Inl TransportError)
      | Some incoming \<Rightarrow>
          (let c = \<lparr>cn_sent = [], cn_in = incoming, cn_deadline = ce_deadline e, cn_open = True,
                   cn_can_half = ce_can_half e, cn_writable = True\<rparr> in
           if \<not> ce_write_ok e then (Some (close_conn c), Inl TransportError)
           else
             (let c1 = c\<lparr>cn_sent := [add_fields extra req]\<rparr> in
              (case read_final (ce_read_response e) 0 incoming of
                 Inl err \<Rightarrow> (Some (close_conn c1), Inl err)
               | Inr (resp, rest) \<Rightarrow> (Some (c1\<lparr>cn_in := rest, cn_deadline := None\<rparr>), Inr resp)))))"

text \<open>
  \<open>DialTCP\<close> and \<open>DialUDP\<close>: the connection with what becomes of it. The tunnel reads through the
  response reader (\<open>bufConn\<close>), so its first byte is the one after the final response's head.
\<close>

definition conn_dial_tcp ::
  "client_env \<Rightarrow> mime_header \<Rightarrow> string \<Rightarrow> u16 \<Rightarrow> client_conn option \<times> (client_error + unit)" where
  "conn_dial_tcp e extra name port =
     (case round_trip e extra (tcp_request [] name port) of
        (c, Inl err) \<Rightarrow> (c, Inl err)
      | (c, Inr resp) \<Rightarrow>
          if rs_status resp < 200 \<or> rs_status resp > 299
          then (map_option close_conn c, Inl (refusal resp)) else (c, Inr ()))"

definition conn_dial_udp ::
  "client_env \<Rightarrow> mime_header \<Rightarrow> string \<Rightarrow> u16 \<Rightarrow> client_conn option \<times> (client_error + unit)" where
  "conn_dial_udp e extra name port =
     (case round_trip e extra (udp_request (ce_authority e) [] name port) of
        (c, Inl err) \<Rightarrow> (c, Inl err)
      | (c, Inr resp) \<Rightarrow>
          if rs_status resp \<noteq> 101 \<or> header_get (rs_header resp) ''Upgrade'' \<noteq> ''connect-udp''
          then (map_option close_conn c, Inl (refusal resp)) else (c, Inr ()))"

section \<open>HTTP/2: streams of a shared session\<close>

text \<open>
  The session: the one at hand is used while it takes requests; otherwise a connection is dialed, and it
  becomes the session only when the handshake, if there is one, negotiated h2 and the library accepted
  it; in every other case it is closed. Connections and sessions are numbers.
\<close>

record tls_client =
  tc_next_protos :: "string list"
  tc_server_name :: string
  tc_insecure :: bool

record session_env =
  se_authority :: string
  se_tls :: "tls_client option"
  can_take_new_request :: "nat \<Rightarrow> bool"
  dial_boundary :: "nat option"
  tls_handshake :: "tls_client \<Rightarrow> nat \<Rightarrow> string option"
  new_client_conn :: "nat \<Rightarrow> nat option"

record session_result =
  sr_session :: "nat option"
  sr_kept :: "nat option"
  sr_dialed :: "nat option"
  sr_closed :: bool

text \<open>The configuration of a session's handshake: ALPN h2 and the authority's name unless others are set.\<close>

definition session_tls :: "string \<Rightarrow> tls_client \<Rightarrow> tls_client" where
  "session_tls authority cfg =
     (let cfg1 = (if length (tc_next_protos cfg) = 0 then cfg\<lparr>tc_next_protos := [''h2'']\<rparr> else cfg) in
      if tc_server_name cfg1 = [] \<and> \<not> tc_insecure cfg1
      then cfg1\<lparr>tc_server_name := client_authority authority\<rparr> else cfg1)"

definition session_failed :: "nat option \<Rightarrow> nat option \<Rightarrow> session_result" where
  "session_failed cc nc = \<lparr>sr_session = None, sr_kept = cc, sr_dialed = nc, sr_closed = True\<rparr>"

definition new_h2_session :: "session_env \<Rightarrow> nat option \<Rightarrow> session_result" where
  "new_h2_session env cc =
     (case dial_boundary env of
        None \<Rightarrow> session_failed cc None
      | Some nc \<Rightarrow>
          if (case se_tls env of None \<Rightarrow> False
              | Some cfg \<Rightarrow> tls_handshake env (session_tls (se_authority env) cfg) nc \<noteq> Some ''h2'')
          then session_failed cc (Some nc)
          else
            (case new_client_conn env nc of
               None \<Rightarrow> session_failed cc (Some nc)
             | Some fresh \<Rightarrow>
                 \<lparr>sr_session = Some fresh, sr_kept = Some fresh, sr_dialed = Some nc, sr_closed = False\<rparr>))"

definition h2_session :: "session_env \<Rightarrow> nat option \<Rightarrow> session_result" where
  "h2_session env cc =
     (case cc of
        None \<Rightarrow> new_h2_session env cc
      | Some current \<Rightarrow>
          if can_take_new_request env current
          then \<lparr>sr_session = Some current, sr_kept = cc, sr_dialed = None, sr_closed = False\<rparr>
          else new_h2_session env cc)"

text \<open>
  A stream (\<open>h2Stream\<close>): the response body it reads from, the pipe it writes to, and its own context.
\<close>

record h2_stream =
  st_body :: bool
  st_pipe :: bool
  st_live :: bool

definition open_stream :: h2_stream where
  "open_stream = \<lparr>st_body = True, st_pipe = True, st_live = True\<rparr>"

definition h2_close_write :: "h2_stream \<Rightarrow> h2_stream" where
  "h2_close_write s = s\<lparr>st_pipe := False\<rparr>"

definition h2_close :: "h2_stream \<Rightarrow> h2_stream" where
  "h2_close s = (h2_close_write s)\<lparr>st_body := False, st_live := False\<rparr>"

text \<open>Deadlines are accepted and ignored: only \<open>Close\<close> interrupts a stream.\<close>

definition h2_set_deadline :: "int \<Rightarrow> h2_stream \<Rightarrow> h2_stream" where
  "h2_set_deadline deadline s = s"

definition released :: "h2_stream \<Rightarrow> bool" where
  "released s = (\<not> st_body s \<and> \<not> st_pipe s \<and> \<not> st_live s)"

text \<open>
  \<open>roundTrip\<close>: \<open>answer\<close> is the library's response on a session. The stream's context is detached from
  the dial's; on failure it is cancelled and the pipe and the body, if there is one, are closed.
\<close>

definition round_trip_h2 ::
  "session_env \<Rightarrow> (nat \<Rightarrow> http_request \<Rightarrow> http_response option) \<Rightarrow> mime_header \<Rightarrow> nat option \<Rightarrow> http_request
    \<Rightarrow> session_result \<times> h2_stream option \<times> (client_error + unit)" where
  "round_trip_h2 env answer extra cc req =
     (let sr = h2_session env cc in
      (case sr_session sr of
         None \<Rightarrow> (sr, None, Inl TransportError)
       | Some session \<Rightarrow>
           (case answer session (add_fields extra req) of
              None \<Rightarrow> (sr, Some (h2_close_write (open_stream\<lparr>st_body := False, st_live := False\<rparr>)), Inl TransportError)
            | Some resp \<Rightarrow>
                if rs_status resp < 200 \<or> rs_status resp > 299
                then (sr, Some (h2_close open_stream), Inl (refusal resp))
                else (sr, Some open_stream, Inr ()))))"

definition h2_dial_tcp ::
  "session_env \<Rightarrow> (nat \<Rightarrow> http_request \<Rightarrow> http_response option) \<Rightarrow> mime_header \<Rightarrow> nat option \<Rightarrow> string \<Rightarrow> u16
    \<Rightarrow> session_result \<times> h2_stream option \<times> (client_error + unit)" where
  "h2_dial_tcp env answer extra cc name port =
     round_trip_h2 env answer extra cc (tcp_request [] name port)"

definition h2_dial_udp ::
  "session_env \<Rightarrow> (nat \<Rightarrow> http_request \<Rightarrow> http_response option) \<Rightarrow> mime_header \<Rightarrow> nat option \<Rightarrow> string \<Rightarrow> u16
    \<Rightarrow> session_result \<times> h2_stream option \<times> (client_error + unit)" where
  "h2_dial_udp env answer extra cc name port =
     round_trip_h2 env answer extra cc (udp_request_h2 (se_authority env) [] name port)"

section \<open>Agreement with the decision on the responses\<close>

text \<open>The responses on a stream, as many as the client would read.\<close>

fun responses :: "(reader \<Rightarrow> (http_response \<times> reader) option) \<Rightarrow> nat \<Rightarrow> reader \<Rightarrow> http_response option list" where
  "responses read_response 0 r = []"
| "responses read_response (Suc n) r =
     (case read_response r of
        None \<Rightarrow> [None]
      | Some (resp, rest) \<Rightarrow> Some resp # responses read_response n rest)"

lemma read_final_responses:
  assumes "interim + n = Suc max_interim_responses" and "0 < n"
  shows "read_final_response interim (responses read_response n r)
    = (case read_final read_response interim r of Inl e \<Rightarrow> Inl e | Inr (resp, rest) \<Rightarrow> Inr resp)"
  using assms
proof (induction n arbitrary: interim r)
  case (Suc n)
  then show ?case
    unfolding read_final.simps [of read_response interim r]
    by (cases n) (auto split: option.splits prod.splits)
qed simp

lemma add_fields_requests [simp]:
  "add_fields extra (tcp_request [] name port) = tcp_request extra name port"
  "add_fields extra (udp_request authority [] name port) = udp_request authority extra name port"
  "add_fields extra (udp_request_h2 authority [] name port) = udp_request_h2 authority extra name port"
  by (simp_all add: add_fields_def tcp_request_def udp_request_def udp_request_h2_def)

lemmas conn_dial_defs = conn_dial_tcp_def conn_dial_udp_def round_trip_def close_conn_def

lemma conn_dial_agrees:
  assumes "ce_dial e = Some incoming" and "ce_write_ok e"
  shows "snd (conn_dial_tcp e extra name port) = dial_tcp (responses (ce_read_response e) 9 incoming)"
    and "snd (conn_dial_udp e extra name port) = dial_udp (responses (ce_read_response e) 9 incoming)"
  using assms read_final_responses [of 0 9 "ce_read_response e" incoming]
  by (auto simp: conn_dial_defs dial_tcp_def dial_udp_def max_interim_responses_def Let_def
      split: sum.splits prod.splits)

lemma h2_dial_agrees:
  assumes "sr_session (h2_session env cc) = Some session"
  shows "snd (snd (h2_dial_tcp env answer extra cc name port)) = dial_h2 (answer session (tcp_request extra name port))"
    and "snd (snd (h2_dial_udp env answer extra cc name port))
      = dial_h2 (answer session (udp_request_h2 (se_authority env) extra name port))"
  using assms by (auto simp: h2_dial_tcp_def h2_dial_udp_def round_trip_h2_def dial_h2_def Let_def split: option.splits)

section \<open>Nothing is left open\<close>

lemma conn_dial_failed:
  assumes "(c, Inl err) \<in> {conn_dial_tcp e extra name port, conn_dial_udp e extra name port}"
    and "c = Some conn"
  shows "\<not> cn_open conn"
  using assms
  by (auto simp: conn_dial_defs Let_def split: option.splits sum.splits prod.splits if_splits)

lemma round_trip_succeeded:
  assumes "round_trip e extra req = (c, Inr resp)"
  shows "\<exists>conn incoming. c = Some conn \<and> ce_dial e = Some incoming \<and> cn_open conn \<and> cn_deadline conn = None
    \<and> cn_sent conn = [add_fields extra req]
    \<and> read_final (ce_read_response e) 0 incoming = Inr (resp, cn_in conn)"
proof (cases "ce_dial e")
  case dialed: (Some incoming)
  show ?thesis
  proof (cases "read_final (ce_read_response e) 0 incoming")
    case (Inl err)
    with assms dialed show ?thesis by (simp add: round_trip_def Let_def split: if_splits)
  next
    case (Inr got)
    obtain r rest where got: "got = (r, rest)" by (cases got)
    from assms dialed Inr got have "ce_write_ok e" by (simp add: round_trip_def Let_def split: if_splits)
    with assms dialed Inr got have "resp = r"
      and "c = Some \<lparr>cn_sent = [add_fields extra req], cn_in = rest, cn_deadline = None, cn_open = True,
                     cn_can_half = ce_can_half e, cn_writable = True\<rparr>"
      by (simp_all add: round_trip_def Let_def)
    with dialed Inr got show ?thesis by simp
  qed
qed (use assms in \<open>simp add: round_trip_def\<close>)

lemma conn_dial_succeeded:
  assumes "(c, Inr ()) \<in> {conn_dial_tcp e extra name port, conn_dial_udp e extra name port}"
  shows "\<exists>conn incoming resp. c = Some conn \<and> ce_dial e = Some incoming \<and> cn_open conn
    \<and> cn_deadline conn = None \<and> read_final (ce_read_response e) 0 incoming = Inr (resp, cn_in conn)
    \<and> cn_sent conn \<in> {[tcp_request extra name port],
          [udp_request (ce_authority e) extra name port]}"
proof -
  from assms consider
    resp where "round_trip e extra (tcp_request [] name port) = (c, Inr resp)"
  | resp where "round_trip e extra (udp_request (ce_authority e) [] name port) = (c, Inr resp)"
    by (auto simp: conn_dial_tcp_def conn_dial_udp_def split: prod.splits sum.splits if_splits)
  then show ?thesis by cases (drule round_trip_succeeded, simp, blast)+
qed

lemma read_final_first:
  assumes "read_response r = Some (resp, rest)" and "rs_status resp = 101 \<or> 200 \<le> rs_status resp"
  shows "read_final read_response interim r = Inr (resp, rest)"
  using assms by (auto simp: read_final.simps)

lemma h2_session_kept:
  "(sr_session (h2_session env cc) = None
      \<longrightarrow> sr_kept (h2_session env cc) = cc \<and> sr_closed (h2_session env cc))
   \<and> (sr_session (h2_session env cc) \<noteq> None
      \<longrightarrow> sr_kept (h2_session env cc) = sr_session (h2_session env cc) \<and> \<not> sr_closed (h2_session env cc))"
  by (simp add: h2_session_def new_h2_session_def session_failed_def split: option.split)

text \<open>
  A session over TLS was negotiated for h2, with a name to check the certificate against unless the
  configuration turns the check off.
\<close>

lemma session_verified:
  assumes "sr_session (h2_session env cc) \<noteq> None" and "sr_dialed (h2_session env cc) = Some nc"
    and "se_tls env = Some cfg"
  shows "\<exists>used. tls_handshake env used nc = Some ''h2'' \<and> tc_insecure used = tc_insecure cfg
    \<and> (tc_server_name used \<noteq> [] \<or> tc_insecure used) \<and> tc_next_protos used \<noteq> []"
proof -
  have "tls_handshake env (session_tls (se_authority env) cfg) nc = Some ''h2''"
    using assms by (auto simp: h2_session_def new_h2_session_def session_failed_def split: option.splits if_splits)
  moreover have "tc_server_name (session_tls a cfg) \<noteq> [] \<or> tc_insecure (session_tls a cfg)"
    "tc_next_protos (session_tls a cfg) \<noteq> []" "tc_insecure (session_tls a cfg) = tc_insecure cfg" for a
    by (auto simp: session_tls_def client_authority_def Let_def)
  ultimately show ?thesis by blast
qed

text \<open>
  After a half-close a tunnel over a transport that supports it is still read; any other transport is
  closed as a whole, as it is by \<open>Close\<close>.
\<close>

lemma close_write_keeps_reading:
  "cn_open (buf_close_write c) = (cn_open c \<and> cn_can_half c)" "\<not> cn_writable (buf_close_write c)"
  "cn_in (buf_close_write c) = cn_in c" "st_body (h2_close_write s) = st_body s"
  by (auto simp: buf_close_write_def close_conn_def h2_close_write_def)

lemma round_trip_h2_session: "fst (round_trip_h2 env answer extra cc req) = h2_session env cc"
  by (simp add: round_trip_h2_def Let_def split: option.split)

lemma round_trip_h2_releases:
  assumes "round_trip_h2 env answer extra cc req = (sr, Some s, Inl err)"
  shows "released s"
  using assms
  by (auto simp: round_trip_h2_def Let_def released_def h2_close_def h2_close_write_def open_stream_def
      split: option.splits if_splits)

lemma h2_dial_releases:
  assumes "(sr, stream, result) \<in> {h2_dial_tcp env answer extra cc name port,
      h2_dial_udp env answer extra cc name port}"
  shows "(\<forall>err s. result = Inl err \<and> stream = Some s \<longrightarrow> released s)
    \<and> (sr_session sr = None \<longrightarrow> sr_kept sr = cc \<and> sr_closed sr) \<and> sr = h2_session env cc"
proof -
  from assms obtain req where r: "round_trip_h2 env answer extra cc req = (sr, stream, result)"
    by (auto simp: h2_dial_tcp_def h2_dial_udp_def)
  then have sr: "sr = h2_session env cc" using round_trip_h2_session by (metis fst_conv)
  have "released s" if "result = Inl err" "stream = Some s" for err s
    using r that round_trip_h2_releases by blast
  then show ?thesis using h2_session_kept [of env cc] unfolding sr by simp
qed

text \<open>
  C23. A dial leaves nothing behind and loses nothing. When a dial over HTTP/1.1 fails, the connection it
  used is closed; when it succeeds, the connection is open without a deadline, carries exactly one
  request, and the tunnel reads on from the first byte after the head of the final response, so what
  the boundary sends right behind a 200 or a 101 is the beginning of the tunnel. Over HTTP/2 a failed
  dial releases its stream's body, pipe and context; a connection that did not become the session is
  closed, and the session at hand stays; and a session dialed with TLS configured has negotiated h2, with
  a name to check the certificate against unless the configuration turns that check off.
\<close>

theorem dials_release_or_hand_over:
  assumes "(c, result) \<in> {conn_dial_tcp e extra name port, conn_dial_udp e extra name port}"
    and "(sr, stream, result2) \<in> {h2_dial_tcp env answer extra cc name port,
      h2_dial_udp env answer extra cc name port}"
  shows "(\<forall>err conn. result = Inl err \<and> c = Some conn \<longrightarrow> \<not> cn_open conn)
    \<and> (result = Inr () \<longrightarrow> (\<exists>conn. c = Some conn \<and> cn_open conn \<and> cn_deadline conn = None
         \<and> cn_sent conn \<in> {[tcp_request extra name port], [udp_request (ce_authority e) extra name port]}
         \<and> (\<forall>head r resp. ce_dial e = Some (feed head r) \<and> ce_read_response e (feed head r) = Some (resp, r)
              \<and> rs_status resp \<in> {101, 200} \<longrightarrow> cn_in conn = r)))
    \<and> (\<forall>err s. result2 = Inl err \<and> stream = Some s \<longrightarrow> released s)
    \<and> (sr_session sr = None \<longrightarrow> sr_kept sr = cc \<and> sr_closed sr)
    \<and> (\<forall>nc cfg. sr_session sr \<noteq> None \<and> sr_dialed sr = Some nc \<and> se_tls env = Some cfg \<longrightarrow>
         (\<exists>used. tls_handshake env used nc = Some ''h2'' \<and> tc_insecure used = tc_insecure cfg
            \<and> (tc_server_name used \<noteq> [] \<or> tc_insecure used)))"
proof (intro conjI)
  show "\<forall>err conn. result = Inl err \<and> c = Some conn \<longrightarrow> \<not> cn_open conn"
    using assms(1) conn_dial_failed by blast
  show "result = Inr () \<longrightarrow> (\<exists>conn. c = Some conn \<and> cn_open conn \<and> cn_deadline conn = None
         \<and> cn_sent conn \<in> {[tcp_request extra name port], [udp_request (ce_authority e) extra name port]}
         \<and> (\<forall>head r resp. ce_dial e = Some (feed head r) \<and> ce_read_response e (feed head r) = Some (resp, r)
              \<and> rs_status resp \<in> {101, 200} \<longrightarrow> cn_in conn = r))"
  proof
    assume "result = Inr ()"
    with assms(1) conn_dial_succeeded [of c e extra name port] obtain conn incoming resp
      where conn: "c = Some conn" "cn_open conn" "cn_deadline conn = None"
        "cn_sent conn \<in> {[tcp_request extra name port], [udp_request (ce_authority e) extra name port]}"
        and incoming: "ce_dial e = Some incoming"
        "read_final (ce_read_response e) 0 incoming = Inr (resp, cn_in conn)" by auto
    have "cn_in conn = r" if "ce_dial e = Some (feed head r)" "ce_read_response e (feed head r) = Some (resp', r)"
      "rs_status resp' \<in> {101, 200}" for head r resp'
      using that incoming read_final_first [of "ce_read_response e" "feed head r" resp' r 0] by auto
    with conn show "\<exists>conn. c = Some conn \<and> cn_open conn \<and> cn_deadline conn = None
         \<and> cn_sent conn \<in> {[tcp_request extra name port], [udp_request (ce_authority e) extra name port]}
         \<and> (\<forall>head r resp. ce_dial e = Some (feed head r) \<and> ce_read_response e (feed head r) = Some (resp, r)
              \<and> rs_status resp \<in> {101, 200} \<longrightarrow> cn_in conn = r)" by blast
  qed
  show "\<forall>nc cfg. sr_session sr \<noteq> None \<and> sr_dialed sr = Some nc \<and> se_tls env = Some cfg \<longrightarrow>
      (\<exists>used. tls_handshake env used nc = Some ''h2'' \<and> tc_insecure used = tc_insecure cfg
         \<and> (tc_server_name used \<noteq> [] \<or> tc_insecure used))"
  proof (intro allI impI, elim conjE)
    fix nc cfg
    have "sr = h2_session env cc" using h2_dial_releases [OF assms(2)] by blast
    moreover assume "sr_session sr \<noteq> None" "sr_dialed sr = Some nc" "se_tls env = Some cfg"
    ultimately show "\<exists>used. tls_handshake env used nc = Some ''h2'' \<and> tc_insecure used = tc_insecure cfg
        \<and> (tc_server_name used \<noteq> [] \<or> tc_insecure used)"
      using session_verified [of env cc nc cfg] by blast
  qed
qed (use h2_dial_releases [OF assms(2)] in blast)+

definition sample_client_env :: client_env where
  "sample_client_env =
     \<lparr>ce_authority = [], ce_can_half = True, ce_dial = Some \<lparr>unread = [200, 1, 2], ended = StreamEOF\<rparr>, ce_deadline = Some 5, ce_write_ok = True,
      ce_read_response =
        (\<lambda>r. case unread r of
           [] \<Rightarrow> None
         | b # bs \<Rightarrow> Some (\<lparr>rs_status = unat b, rs_text = [], rs_header = []\<rparr>, r\<lparr>unread := bs\<rparr>))\<rparr>"

definition sample_session_env :: session_env where
  "sample_session_env =
     \<lparr>se_authority = [], se_tls = Some \<lparr>tc_next_protos = [], tc_server_name = [], tc_insecure = False\<rparr>,
      can_take_new_request = (\<lambda>_. False), dial_boundary = Some 7,
      tls_handshake = (\<lambda>_ _. Some ''http/1.1''), new_client_conn = Some\<rparr>"

theorem dials_release_or_hand_over_witness:
  "\<exists>conn. conn_dial_tcp sample_client_env [] ''a.example'' 443 = (Some conn, Inr ())
     \<and> cn_open conn \<and> cn_deadline conn = None \<and> cn_in conn = \<lparr>unread = [1, 2], ended = StreamEOF\<rparr>
     \<and> sr_kept (fst (h2_dial_tcp sample_session_env (\<lambda>_ _. None) [] (Some 3) ''a.example'' 443)) = Some 3
     \<and> sr_closed (fst (h2_dial_tcp sample_session_env (\<lambda>_ _. None) [] (Some 3) ''a.example'' 443))"
proof -
  let ?d = "conn_dial_tcp sample_client_env [] ''a.example'' 443"
  let ?h = "h2_dial_tcp sample_session_env (\<lambda>_ _. None) [] (Some 3) ''a.example'' 443"
  let ?r = "\<lparr>unread = [1, 2], ended = StreamEOF\<rparr> :: reader"
  have ok: "snd ?d = Inr ()"
    by (simp add: conn_dial_defs sample_client_env_def read_final.simps Let_def)
  have none: "sr_session (fst ?h) = None"
    by (simp add: h2_dial_tcp_def round_trip_h2_def h2_session_def new_h2_session_def session_failed_def
        sample_session_env_def Let_def)
  have env: "ce_dial sample_client_env = Some (feed [200] ?r)"
    "ce_read_response sample_client_env (feed [200] ?r) = Some (\<lparr>rs_status = 200, rs_text = [], rs_header = []\<rparr>, ?r)"
    by (simp_all add: sample_client_env_def feed_def)
  have "(fst ?d, snd ?d) \<in> {?d, conn_dial_udp sample_client_env [] ''a.example'' 443}" by simp
  moreover have "(fst ?h, fst (snd ?h), snd (snd ?h))
      \<in> {?h, h2_dial_udp sample_session_env (\<lambda>_ _. None) [] (Some 3) ''a.example'' 443}" by simp
  ultimately have p: "\<exists>conn. fst ?d = Some conn \<and> cn_open conn \<and> cn_deadline conn = None \<and> cn_in conn = ?r"
    "sr_kept (fst ?h) = Some 3 \<and> sr_closed (fst ?h)"
    using dials_release_or_hand_over [of "fst ?d" "snd ?d" sample_client_env "[]" "''a.example''" 443
        "fst ?h" "fst (snd ?h)" "snd (snd ?h)" sample_session_env "\<lambda>_ _. None" "Some 3"] ok none env
    by fastforce+
  with ok show ?thesis by (metis prod.collapse)
qed

end
