(* ===== verification/Commands.thy ===== *)
theory Commands
  imports Descriptor_Semantics Boundary Launcher Qemu Netns_Setup
begin

text \<open>
  The start-up of the commands: \<open>main\<close> and \<open>boundaryTLSConfig\<close> of the boundary
  (sdk/cmd/connect-proxy/main.go), \<open>loadPolicyFile\<close>, and the argument checks of sdk/cmd/qemuproxy and
  sdk/cmd/netnsproxy. Flags are records; files, certificates, sockets and parsed URLs are answers of the
  host. What a command goes on to run is its outcome.
\<close>

section \<open>The boundary\<close>

record boundary_flags =
  bf_listen :: string
  bf_policy :: string
  bf_generation :: string
  bf_resolver :: string
  bf_max_connections :: int
  bf_max_streams :: int
  bf_idle :: int
  bf_h2 :: bool
  bf_cert :: string
  bf_key :: string
  bf_client_ca :: string

record boundary_host =
  bh_env :: text_env
  bh_read_file :: "string \<Rightarrow> string option"
  bh_decode :: "string \<Rightarrow> (descriptor \<times> bool) option"
  bh_key_pair :: "string \<Rightarrow> string \<Rightarrow> bool"
  bh_ca_pem :: "string \<Rightarrow> bool option"
  bh_godebug :: string
  bh_exec :: bool
  bh_parse_url :: "string \<Rightarrow> parsed_url option"
  bh_listen_ok :: "string \<Rightarrow> string \<Rightarrow> bool"

definition load_policy_file :: "boundary_host \<Rightarrow> string \<Rightarrow> string \<Rightarrow> load_error option + policy" where
  "load_policy_file h path generation =
     (case bh_read_file h path of
        None \<Rightarrow> Inl None
      | Some data \<Rightarrow>
          (case load_descriptor (bh_env h) (bh_decode h) data generation of
             Inl e \<Rightarrow> Inl (Some e)
           | Inr p \<Rightarrow> Inr p))"

text \<open>
  A pinned resolver's dial: whatever server the resolver of the library would ask, the query goes to the
  given one, over the network it asked for. The result is what the dialer of the library is called with.
\<close>

definition pinned_dial :: "string \<Rightarrow> string \<Rightarrow> string \<Rightarrow> string \<times> string" where
  "pinned_dial server network resolver_address = (network, server)"

text \<open>The TLS configuration: none, or one that does or does not require verified client certificates.\<close>

definition boundary_tls_config ::
  "boundary_host \<Rightarrow> string \<Rightarrow> string \<Rightarrow> string \<Rightarrow> string + bool option" where
  "boundary_tls_config h cert key client_ca =
     (if cert = [] \<and> key = [] \<and> client_ca = [] then Inr None
      else if cert = [] \<or> key = [] then Inl ''TLS requires both -tls-cert and -tls-key''
      else if \<not> bh_key_pair h cert key then Inl ''load boundary certificate''
      else if client_ca \<noteq> [] then
        (case bh_ca_pem h client_ca of
           None \<Rightarrow> Inl ''load client CA''
         | Some False \<Rightarrow> Inl ''no CA certificates''
         | Some True \<Rightarrow> Inr (Some True))
      else Inr (Some False))"

record running_boundary =
  rb_policy :: policy
  rb_resolver :: "string option"
  rb_network :: string
  rb_address :: string
  rb_client_auth :: "bool option"
  rb_h2 :: bool
  rb_max_connections :: int
  rb_max_streams :: int
  rb_idle :: int

datatype boundary_outcome = BoundaryFatal string | Reexec string | BoundaryServing running_boundary

text \<open>The socket: network and address, with the files removed to make room for it.\<close>

definition boundary_listen :: "boundary_host \<Rightarrow> parsed_url \<Rightarrow> string list \<times> (string + string \<times> string)" where
  "boundary_listen h u =
     (if url_scheme u = ''unix'' then
        ([url_path u],
         if bh_listen_ok h ''unix'' (url_path u) then Inr (''unix'', url_path u) else Inl ''listen'')
      else if url_scheme u = ''tcp'' then
        ([], if bh_listen_ok h ''tcp'' (url_host u) then Inr (''tcp'', url_host u) else Inl ''listen'')
      else ([], Inl ''unsupported listen scheme''))"

text \<open>The new \<open>GODEBUG\<close> of the process started again for HTTP/2.\<close>

definition reexec_godebug :: "string \<Rightarrow> string" where
  "reexec_godebug godebug = (if godebug = [] then [] else godebug @ '','') @ ''http2xconnect=1''"

definition boundary_policy :: "boundary_host \<Rightarrow> boundary_flags \<Rightarrow> string + (policy \<times> bool option)" where
  "boundary_policy h f =
     (if bf_max_connections f \<le> 0 \<or> bf_max_streams f \<le> 0
      then Inl ''-max-connections and -max-streams must be positive''
      else if bf_policy f = [] then Inl ''-policy is required''
      else
        (case load_policy_file h (bf_policy f) (bf_generation f) of
           Inl _ \<Rightarrow> Inl ''policy descriptor''
         | Inr p \<Rightarrow>
             (case boundary_tls_config h (bf_cert f) (bf_key f) (bf_client_ca f) of
                Inl e \<Rightarrow> Inl e
              | Inr tls \<Rightarrow> Inr (p, tls))))"

definition boundary_main :: "boundary_host \<Rightarrow> boundary_flags \<Rightarrow> string list \<times> boundary_outcome" where
  "boundary_main h f =
     (case boundary_policy h f of
        Inl e \<Rightarrow> ([], BoundaryFatal e)
      | Inr (p, tls) \<Rightarrow>
          if bf_h2 f \<and> \<not> contains_sub (bh_godebug h) ''http2xconnect=1'' \<and> bh_exec h
          then ([], Reexec (reexec_godebug (bh_godebug h)))
          else
            (case bh_parse_url h (bf_listen f) of
               None \<Rightarrow> ([], BoundaryFatal ''invalid URL'')
             | Some u \<Rightarrow>
                 (case boundary_listen h u of
                    (removed, Inl e) \<Rightarrow> (removed, BoundaryFatal e)
                  | (removed, Inr (network, address)) \<Rightarrow>
                      (removed,
                       BoundaryServing
                         \<lparr>rb_policy = p,
                          rb_resolver = (if bf_resolver f = [] then None else Some (bf_resolver f)),
                          rb_network = network, rb_address = address, rb_client_auth = tls, rb_h2 = bf_h2 f,
                          rb_max_connections = bf_max_connections f,
                          rb_max_streams = bf_max_streams f, rb_idle = bf_idle f\<rparr>))))"

section \<open>The wrappers\<close>

text \<open>\<open>filepath.IsAbs\<close> on Unix.\<close>

definition is_abs :: "string \<Rightarrow> bool" where
  "is_abs path = has_prefix path ''/''"

record full_url = parsed_url +
  url_user :: bool
  url_query :: string
  url_fragment :: string

record qemu_flags =
  qf_listen :: string
  qf_proxy :: string
  qf_addresses :: string
  qf_mac :: string
  qf_limit :: int
  qf_udp :: bool

fun parse_gateways :: "string list \<Rightarrow> string + ip_prefix list" where
  "parse_gateways [] = Inr []"
| "parse_gateways (text # texts) =
     (case parse_prefix_text text of
        None \<Rightarrow> Inl text
      | Some pre \<Rightarrow>
          if is4in6 (prefix_ip pre) \<or> \<not> is_global_unicast (prefix_ip pre) then Inl text
          else (case parse_gateways texts of Inl e \<Rightarrow> Inl e | Inr ps \<Rightarrow> Inr (pre # ps)))"

text \<open>The checks of \<open>run\<close>: the boundary's path and the configuration handed to the proxy.\<close>

definition qemuproxy_config ::
  "(string \<Rightarrow> full_url option) \<Rightarrow> (string \<Rightarrow> bytes option) \<Rightarrow> qemu_flags \<Rightarrow> string + (string \<times> qemu_config)" where
  "qemuproxy_config parse_url parse_mac f =
     (case parse_url (qf_proxy f) of
        None \<Rightarrow> Inl ''-proxy''
      | Some u \<Rightarrow>
          if url_scheme u \<noteq> ''unix'' \<or> url_host u \<noteq> [] \<or> \<not> is_abs (url_path u) \<or> url_query u \<noteq> []
             \<or> url_fragment u \<noteq> [] \<or> url_user u then Inl ''-proxy''
          else if \<not> is_abs (qf_listen f) \<or> qf_listen f = url_path u \<or> qf_limit f \<le> 0 then Inl ''-listen''
          else
            (case parse_mac (qf_mac f) of
               None \<Rightarrow> Inl ''-mac''
             | Some mac \<Rightarrow>
                 if length mac \<noteq> 6 \<or> mac ! 0 AND 1 \<noteq> 0 then Inl ''-mac''
                 else
                   (case parse_gateways (split_byte (CHR '','') (qf_addresses f)) of
                      Inl text \<Rightarrow> Inl text
                    | Inr ps \<Rightarrow>
                        Inr (url_path u, \<lparr>qc_mac = mac, qc_addresses = ps, qc_dialer = True, qc_udp = qf_udp f,
                                          qc_max_connections = qf_limit f\<rparr>))))"

datatype qemu_run_error = BadFlag string | NoListener | NoGuest | NotStarted qemu_error

text \<open>
  \<open>run\<close>: after the checks one guest is accepted, and the proxy runs on its connection with the boundary
  at the given path.
\<close>

definition qemuproxy_run ::
  "(string \<Rightarrow> full_url option) \<Rightarrow> (string \<Rightarrow> bytes option) \<Rightarrow> (string \<Rightarrow> bool) \<Rightarrow> bool
   \<Rightarrow> (stack_op \<Rightarrow> bool) \<Rightarrow> qemu_flags \<Rightarrow> qemu_run_error + (string \<times> started_engine)" where
  "qemuproxy_run parse_url parse_mac listen_ok accepted ok f =
     (case qemuproxy_config parse_url parse_mac f of
        Inl e \<Rightarrow> Inl (BadFlag e)
      | Inr (path, cfg) \<Rightarrow>
          if \<not> listen_ok (qf_listen f) then Inl NoListener
          else if \<not> accepted then Inl NoGuest
          else (case qemu_start ok cfg of Inl e \<Rightarrow> Inl (NotStarted e) | Inr e \<Rightarrow> Inr (path, e)))"

record netns_flags =
  nf_interface :: string
  nf_proxy :: string
  nf_table :: string
  nf_udp :: bool
  nf_ipv6 :: bool
  nf_h2 :: bool
  nf_limit :: int
  nf_dial_timeout :: int
  nf_udp_idle_timeout :: int

record netns_command =
  cmd_path :: string
  cmd_h2 :: bool
  cmd_dial_timeout :: int
  cmd_udp_idle_timeout :: int
  cmd_config :: netns_config

definition netnsproxy_main ::
  "(string \<Rightarrow> parsed_url option) \<Rightarrow> netns_flags \<Rightarrow> string + netns_command" where
  "netnsproxy_main parse_url f =
     (case parse_url (nf_proxy f) of
        None \<Rightarrow> Inl ''-proxy''
      | Some u \<Rightarrow>
          if url_scheme u \<noteq> ''unix'' \<or> url_path u = [] \<or> url_host u \<noteq> [] then Inl ''-proxy''
          else
            Inr \<lparr>cmd_path = url_path u, cmd_h2 = nf_h2 f, cmd_dial_timeout = nf_dial_timeout f,
                 cmd_udp_idle_timeout = nf_udp_idle_timeout f,
                 cmd_config =
                   \<lparr>nc_has_forwarder = True, nc_interface = nf_interface f, nc_table = nf_table f,
                    nc_udp = nf_udp f, nc_ipv6 = nf_ipv6 f, nc_max_connections = nf_limit f\<rparr>\<rparr>)"

section \<open>A boundary that serves has a policy\<close>

lemma open_tunnel_has_policy:
  assumes "bnd_current b = Some p"
  shows "Deny 503 reason \<notin> set (open_tunnel b wire network host port s status)"
proof
  let ?v = "authorize (bnd_env b) (bnd_lookup b) p host port network"
  obtain dials result where d:
    "dial_authorized (bnd_dial b) 0 network (v_addresses ?v) port NoConn = (dials, result)" by fastforce
  have none: "Deny 503 reason \<notin> set dials" using dial_authorized_effects [OF d] by auto
  have "v_reason ?v \<noteq> [] \<Longrightarrow> v_status ?v \<noteq> 503"
    using authorize_shape [of "bnd_env b" "bnd_lookup b" p host port network] by (auto simp: verdict_shape_def)
  moreover assume "Deny 503 reason \<in> set (open_tunnel b wire network host port s status)"
  ultimately show False using assms d none
    by (auto simp: open_tunnel_def connect_upstream_def Let_def audit_def split: if_splits dial_result.splits)
qed

lemma requests_have_policy:
  assumes "bnd_current b = Some p"
  shows "Deny 503 reason \<notin> set (dispatch b lib head s) \<union> set (serve_h2 b s req)"
  using open_tunnel_has_policy [OF assms]
  by (auto simp: dispatch_def handle_connect_def handle_connect_udp_def malformed_def refuse_def audit_def
      serve_h2_def split: if_splits sum.splits option.splits)

lemma boundary_policyE:
  assumes "boundary_policy h f = Inr (p, tls)"
  shows "load_policy_file h (bf_policy f) (bf_generation f) = Inr p
    \<and> boundary_tls_config h (bf_cert f) (bf_key f) (bf_client_ca f) = Inr tls
    \<and> 0 < bf_max_connections f \<and> 0 < bf_max_streams f"
  using assms unfolding boundary_policy_def by (simp split: if_splits sum.splits)

lemma boundary_tls_configE:
  assumes "boundary_tls_config h cert key client_ca = Inr tls"
  shows "(client_ca \<noteq> [] \<longrightarrow> tls = Some True) \<and> (tls = None \<longleftrightarrow> cert = [] \<and> key = [] \<and> client_ca = [])"
  using assms unfolding boundary_tls_config_def
  by (cases tls) (auto split: if_splits option.splits bool.splits)

lemma boundary_listenE:
  assumes "boundary_listen h u = (removed, Inr (network, address))"
  shows "network \<in> {''unix'', ''tcp''} \<and> bh_listen_ok h network address"
  using assms unfolding boundary_listen_def by (simp split: if_splits)

lemma boundary_mainE:
  assumes "boundary_main h f = (removed, BoundaryServing r)"
  shows "boundary_policy h f = Inr (rb_policy r, rb_client_auth r)
    \<and> rb_max_connections r = bf_max_connections f \<and> rb_max_streams r = bf_max_streams f
    \<and> rb_network r \<in> {''unix'', ''tcp''} \<and> bh_listen_ok h (rb_network r) (rb_address r)"
  using assms unfolding boundary_main_def
  by (auto dest!: boundary_listenE split: if_splits sum.splits option.splits prod.splits)

text \<open>
  C19. A boundary that serves is configured to fail closed: its policy was loaded from the given
  descriptor and is well-formed, so no request is ever refused for want of a policy; its limits are
  positive; it listens on a Unix or TCP socket; naming a client CA makes verified client certificates
  mandatory, and naming a certificate, key or CA never yields a listener without TLS.
\<close>

theorem serving_boundary_configured:
  assumes "boundary_main h f = (removed, BoundaryServing r)"
  shows "policy_wf (rb_policy r)
    \<and> (\<exists>data. bh_read_file h (bf_policy f) = Some data
         \<and> load_descriptor (bh_env h) (bh_decode h) data (bf_generation f) = Inr (rb_policy r))
    \<and> 0 < rb_max_connections r \<and> 0 < rb_max_streams r
    \<and> rb_network r \<in> {''unix'', ''tcp''} \<and> bh_listen_ok h (rb_network r) (rb_address r)
    \<and> (bf_client_ca f \<noteq> [] \<longrightarrow> rb_client_auth r = Some True)
    \<and> (rb_client_auth r = None \<longleftrightarrow> bf_cert f = [] \<and> bf_key f = [] \<and> bf_client_ca f = [])
    \<and> (bnd_current b = Some (rb_policy r)
         \<longrightarrow> Deny 503 reason \<notin> set (dispatch b lib head s) \<union> set (serve_h2 b s req))"
proof -
  note main = boundary_mainE [OF assms]
  note ready = boundary_policyE [OF conjunct1 [OF main]]
  then obtain data where data: "bh_read_file h (bf_policy f) = Some data"
    "load_descriptor (bh_env h) (bh_decode h) data (bf_generation f) = Inr (rb_policy r)"
    by (auto simp: load_policy_file_def split: option.splits sum.splits)
  then have "policy_wf (rb_policy r)" by (auto elim!: load_descriptorE intro: load_decoded_wf)
  moreover note boundary_tls_configE [OF conjunct1 [OF conjunct2 [OF ready]]]
  ultimately show ?thesis using main ready data requests_have_policy by (metis (no_types, lifting))
qed

definition sample_boundary_host :: boundary_host where
  "sample_boundary_host =
     \<lparr>bh_env = ascii_env, bh_read_file = (\<lambda>_. Some ''{}''), bh_decode = sample_decode,
      bh_key_pair = (\<lambda>_ _. True), bh_ca_pem = (\<lambda>_. Some True), bh_godebug = [], bh_exec = True,
      bh_parse_url = (\<lambda>_. Some \<lparr>url_scheme = ''tcp'', url_host = ''10.0.0.1:8443'', url_path = []\<rparr>),
      bh_listen_ok = (\<lambda>_ _. True)\<rparr>"

definition sample_boundary_flags :: boundary_flags where
  "sample_boundary_flags =
     \<lparr>bf_listen = ''tcp://10.0.0.1:8443'', bf_policy = ''p.json'', bf_generation = ''g1'', bf_resolver = [],
      bf_max_connections = 4, bf_max_streams = 8, bf_idle = 0, bf_h2 = False, bf_cert = ''c.pem'',
      bf_key = ''k.pem'', bf_client_ca = ''ca.pem''\<rparr>"

lemma sample_boundary_serves:
  "\<exists>r. boundary_main sample_boundary_host sample_boundary_flags = ([], BoundaryServing r)"
proof -
  obtain p where "load_descriptor ascii_env sample_decode ''{}'' ''g1'' = Inr p" using sample_load by blast
  then show ?thesis
    by (simp add: boundary_main_def boundary_policy_def load_policy_file_def boundary_tls_config_def
        boundary_listen_def sample_boundary_host_def sample_boundary_flags_def)
qed

theorem serving_boundary_configured_witness:
  "\<exists>r. boundary_main sample_boundary_host sample_boundary_flags = ([], BoundaryServing r)
     \<and> policy_wf (rb_policy r) \<and> rb_client_auth r = Some True"
proof -
  obtain r where r: "boundary_main sample_boundary_host sample_boundary_flags = ([], BoundaryServing r)"
    using sample_boundary_serves by blast
  from serving_boundary_configured [OF this] show ?thesis using r by (auto simp: sample_boundary_flags_def)
qed

section \<open>The QEMU wrapper\<close>

lemma parse_gateways_ok:
  "parse_gateways texts = Inr ps
    \<Longrightarrow> length ps = length texts \<and> interface_addresses_ok ps \<and> list_all (is_global_unicast \<circ> prefix_ip) ps"
  by (induction texts arbitrary: ps)
     (auto simp: interface_addresses_ok_def dest: parse_prefix_text_SomeD
       split: option.splits sum.splits if_splits)

lemma qemuproxy_configE:
  assumes "qemuproxy_config parse_url parse_mac f = Inr (path, cfg)"
  shows "is_abs path \<and> is_abs (qf_listen f) \<and> path \<noteq> qf_listen f \<and> 0 < qc_max_connections cfg
    \<and> qc_max_connections cfg = qf_limit f
    \<and> length (qc_mac cfg) = 6 \<and> qc_mac cfg ! 0 AND 1 = 0 \<and> qc_addresses cfg \<noteq> [] \<and> qc_dialer cfg
    \<and> interface_addresses_ok (qc_addresses cfg)"
  using assms unfolding qemuproxy_config_def
  by (auto dest!: parse_gateways_ok split: option.splits sum.splits if_splits)

lemma qemu_start_checked:
  assumes "qemuproxy_config parse_url parse_mac f = Inr (path, cfg)"
  shows "(\<exists>e. qemu_start ok cfg = Inr e) \<longleftrightarrow> list_all ok (stack_ops (qc_addresses cfg))"
  using qemuproxy_configE [OF assms] by (simp add: qemu_start_ok)

text \<open>
  Flags that pass the checks of the command never make the proxy itself refuse to start: once a guest is
  connected and the stack grants its operations the engine runs.
\<close>

lemma qemuproxy_checked_flags_start:
  assumes "qemuproxy_run parse_url parse_mac listen_ok accepted ok f = Inl e"
  shows "(\<exists>flag. e = BadFlag flag) \<or> \<not> listen_ok (qf_listen f) \<or> \<not> accepted
    \<or> (\<exists>path cfg. qemuproxy_config parse_url parse_mac f = Inr (path, cfg)
         \<and> \<not> list_all ok (stack_ops (qc_addresses cfg)))"
proof (cases "qemuproxy_config parse_url parse_mac f")
  case (Inr checked)
  then obtain path cfg where c: "qemuproxy_config parse_url parse_mac f = Inr (path, cfg)"
    by (cases checked) simp
  with assms show ?thesis using qemu_start_checked [OF c, of ok]
    by (auto simp: qemuproxy_run_def split: if_splits sum.splits)
qed (use assms in \<open>auto simp: qemuproxy_run_def\<close>)

section \<open>The namespace wrapper\<close>

text \<open>The command hands the proxy a complete forwarder and a boundary socket with a path.\<close>

lemma netnsproxy_main_complete:
  assumes "netnsproxy_main parse_url f = Inr cmd"
  shows "cmd_path cmd \<noteq> [] \<and> fst (new_netns h (cmd_config cmd) ns) \<noteq> Inl MissingParts"
proof -
  have "cmd_path cmd \<noteq> [] \<and> nc_has_forwarder (cmd_config cmd)"
    using assms by (auto simp: netnsproxy_main_def split: option.splits if_splits)
  then show ?thesis using new_netns_parts by blast
qed

end
