(* ===== verification/Packet_Filter.thy ===== *)
theory Packet_Filter
  imports Netns_Setup
begin

text \<open>
  What the nftables rules of sdk/pkg/netnsproxy/rules_linux.go do to a packet. The kernel that runs them is
  a parameter: a function that evaluates one expression on a packet and the registers. What the rules
  rely on is its documented behaviour, one law for each expression the program sends, in
  \<open>follows_nft\<close>. A rule is evaluated expression by expression until one does not match or decides, a chain
  rule by rule until one decides; the chains set no policy, so an undecided packet passes.
\<close>

section \<open>Packets and the evaluation of a chain\<close>

text \<open>
  A packet at a hook: the index of its input interface, its protocol and family, its mark, its transport
  header, the status word of its connection and the local socket \<open>tproxy\<close> assigned to it, if any.
\<close>

record packet =
  pk_iif :: u32
  pk_proto :: u8
  pk_family :: u8
  pk_mark :: u32
  pk_transport :: bytes
  pk_ct_status :: u32
  pk_socket :: "(u8 \<times> bytes) option"

type_synonym registers = "nat \<Rightarrow> bytes"

datatype filter_decision = Accepted | Dropped | Rejected | Redirected bytes

datatype expr_result = Continue packet registers | NoMatch | Decide filter_decision

type_synonym nft_kernel = "packet \<Rightarrow> registers \<Rightarrow> nft_expr \<Rightarrow> expr_result"

fun run_rule :: "nft_kernel \<Rightarrow> packet \<Rightarrow> registers \<Rightarrow> nft_expr list \<Rightarrow> filter_decision option \<times> packet" where
  "run_rule nft pk regs [] = (None, pk)"
| "run_rule nft pk regs (e # es) =
     (case nft pk regs e of
        Continue pk' regs' \<Rightarrow> run_rule nft pk' regs' es
      | NoMatch \<Rightarrow> (None, pk)
      | Decide d \<Rightarrow> (Some d, pk))"

fun run_chain :: "nft_kernel \<Rightarrow> packet \<Rightarrow> nft_expr list list \<Rightarrow> filter_decision option \<times> packet" where
  "run_chain nft pk [] = (None, pk)"
| "run_chain nft pk (rule # rules) =
     (case run_rule nft pk (\<lambda>_. []) rule of
        (None, pk') \<Rightarrow> run_chain nft pk' rules
      | (Some d, pk') \<Rightarrow> (Some d, pk'))"

definition register_masked :: "bytes \<Rightarrow> bytes \<Rightarrow> bytes \<Rightarrow> bytes" where
  "register_masked bs keep flips = map2 (XOR) (map2 (AND) bs keep) flips"

definition meta_value :: "bool \<Rightarrow> packet \<Rightarrow> meta_key \<Rightarrow> bytes" where
  "meta_value little pk key =
     (case key of
        MetaIIF \<Rightarrow> native32 little (pk_iif pk)
      | MetaL4Proto \<Rightarrow> [pk_proto pk]
      | MetaNFProto \<Rightarrow> [pk_family pk]
      | MetaMark \<Rightarrow> native32 little (pk_mark pk))"

text \<open>
  The documented behaviour of the expressions, for a host byte order and for the sockets that listen for
  transparent traffic: loads fill a register, a comparison of equal lengths that fails and a load past the
  end of the header end the rule without a match, \<open>tproxy\<close> needs a listening socket, and a verdict, a
  rejection or a redirection decides.
\<close>

definition follows_nft :: "bool \<Rightarrow> (u8 \<Rightarrow> bytes \<Rightarrow> bool) \<Rightarrow> nft_kernel \<Rightarrow> bool" where
  "follows_nft little listening nft =
     ((\<forall>pk regs key r. nft pk regs (MetaLoad key r) = Continue pk (regs(r := meta_value little pk key)))
      \<and> (\<forall>pk regs r w. regs r = native32 little w \<longrightarrow>
           nft pk regs (MetaStore MetaMark r) = Continue (pk\<lparr>pk_mark := w\<rparr>) regs)
      \<and> (\<forall>pk regs op r data. length (regs r) = length data \<longrightarrow>
           nft pk regs (Cmp op r data) = (if (regs r = data) = (op = CmpEq) then Continue pk regs else NoMatch))
      \<and> (\<forall>pk regs r off n. nft pk regs (PayloadTransport r off n) =
           (if off + n \<le> length (pk_transport pk)
            then Continue pk (regs(r := take n (drop off (pk_transport pk)))) else NoMatch))
      \<and> (\<forall>pk regs r data. nft pk regs (Immediate r data) = Continue pk (regs(r := data)))
      \<and> (\<forall>pk regs family r. nft pk regs (TProxy family r) =
           (if listening family (regs r) then Continue (pk\<lparr>pk_socket := Some (family, regs r)\<rparr>) regs else NoMatch))
      \<and> (\<forall>pk regs r. nft pk regs (Redir r) = Decide (Redirected (regs r)))
      \<and> (\<forall>pk regs r. nft pk regs (CtStatus r) = Continue pk (regs(r := native32 little (pk_ct_status pk))))
      \<and> (\<forall>pk regs s d keep flips. nft pk regs (Bitwise s d keep flips) =
           Continue pk (regs(d := register_masked (regs s) keep flips)))
      \<and> (\<forall>pk regs. nft pk regs (VerdictExpr VerdictAccept) = Decide Accepted)
      \<and> (\<forall>pk regs. nft pk regs (VerdictExpr VerdictDrop) = Decide Dropped)
      \<and> (\<forall>pk regs kind code. nft pk regs (Reject kind code) = Decide Rejected))"

lemma follows_nftD:
  assumes "follows_nft little listening nft"
  shows "nft pk regs (MetaLoad key r) = Continue pk (regs(r := meta_value little pk key))"
    and "regs r = native32 little w
      \<Longrightarrow> nft pk regs (MetaStore MetaMark r) = Continue (pk\<lparr>pk_mark := w\<rparr>) regs"
    and "length (regs r) = length data
      \<Longrightarrow> nft pk regs (Cmp op r data) = (if (regs r = data) = (op = CmpEq) then Continue pk regs else NoMatch)"
    and "nft pk regs (PayloadTransport r off n) =
      (if off + n \<le> length (pk_transport pk)
       then Continue pk (regs(r := take n (drop off (pk_transport pk)))) else NoMatch)"
    and "nft pk regs (Immediate r data) = Continue pk (regs(r := data))"
    and "nft pk regs (TProxy family r) =
      (if listening family (regs r) then Continue (pk\<lparr>pk_socket := Some (family, regs r)\<rparr>) regs else NoMatch)"
    and "nft pk regs (Redir r) = Decide (Redirected (regs r))"
    and "nft pk regs (CtStatus r) = Continue pk (regs(r := native32 little (pk_ct_status pk)))"
    and "nft pk regs (Bitwise s d keep flips) = Continue pk (regs(d := register_masked (regs s) keep flips))"
    and "nft pk regs (VerdictExpr VerdictAccept) = Decide Accepted"
    and "nft pk regs (VerdictExpr VerdictDrop) = Decide Dropped"
    and "nft pk regs (Reject kind code) = Decide Rejected"
  by (simp_all add: assms [unfolded follows_nft_def])

section \<open>Words in registers\<close>

definition read32 :: "bool \<Rightarrow> bytes \<Rightarrow> u32" where
  "read32 little bs =
     (case (if little then rev bs else bs) of
        [a, b, c, d] \<Rightarrow>
          push_bit 24 (ucast a) OR push_bit 16 (ucast b) OR push_bit 8 (ucast c) OR ucast d
      | _ \<Rightarrow> 0)"

lemma be_bytes_4: "be_bytes 4 w = [ucast (drop_bit 24 w), ucast (drop_bit 16 w), ucast (drop_bit 8 w), ucast w]"
  by (simp add: numeral_eq_Suc)

lemma read32_native32 [simp]: "read32 little (native32 little w) = w"
proof -
  have "bit (push_bit 24 (ucast (ucast (drop_bit 24 w) :: u8)) OR push_bit 16 (ucast (ucast (drop_bit 16 w) :: u8))
      OR push_bit 8 (ucast (ucast (drop_bit 8 w) :: u8)) OR ucast (ucast w :: u8) :: u32) n = bit w n"
    if "n < 32" for n
    using that by (cases "8 \<le> n"; cases "16 \<le> n"; cases "24 \<le> n") (auto simp: bit_simps)
  then show ?thesis by (auto simp: read32_def native32_def be_bytes_4 intro!: bit_word_eqI)
qed

lemma native32_eq_iff [simp]: "native32 little v = native32 little w \<longleftrightarrow> v = w"
  using read32_native32 [of little v] read32_native32 [of little w] by metis

lemma length_native32 [simp]: "length (native32 little w) = 4"
  by (simp add: native32_def)

lemma zeros_4: "replicate 4 0 = [0, 0, 0, 0]"
  by (simp add: numeral_eq_Suc)

lemma zeros_native32: "replicate 4 0 = native32 little 0"
  by (simp add: native32_def be_bytes_4 zeros_4)

lemma register_masked_native32:
  "register_masked (native32 little v) (native32 little w) (native32 little 0) = native32 little (v AND w)"
  by (simp add: register_masked_def native32_def be_bytes_4 unsigned_and_eq)

lemma destination_nat_bit: "v AND status_destination_nat = 0 \<longleftrightarrow> \<not> bit v 5"
proof -
  have "bit status_destination_nat n \<longleftrightarrow> n = 5" for n
    by (auto simp only: status_destination_nat_def bit_push_bit_iff bit_1_iff) simp_all
  then have b: "bit (v AND status_destination_nat) n \<longleftrightarrow> n = 5 \<and> bit v 5" for n
    by (auto simp: bit_and_iff)
  show ?thesis
  proof
    show "\<not> bit v 5" if "v AND status_destination_nat = 0"
      using b [of 5] that by simp
    show "v AND status_destination_nat = 0" if "\<not> bit v 5"
      using b that by (intro bit_word_eqI) simp
  qed
qed

section \<open>Single rules\<close>

text \<open>The tests the rules are made of: interface, protocol, family, destination port, mark and redirection.\<close>

definition sent_to :: "u16 \<Rightarrow> packet \<Rightarrow> bool" where
  "sent_to port pk = (take 2 (drop 2 (pk_transport pk)) = be_bytes 2 port)"

lemma sent_to_length: "sent_to port pk \<Longrightarrow> 2 + 2 \<le> length (pk_transport pk)"
proof -
  assume "sent_to port pk"
  then have "length (take 2 (drop 2 (pk_transport pk))) = 2" by (simp add: sent_to_def)
  then show ?thesis by auto
qed

lemmas nft_matches = interface_match_def protocol_match_def family_match_def port_match_def

lemmas nft_eval = meta_value_def register_masked_native32 nft_matches

lemma run_interface:
  assumes "follows_nft little listening nft"
  shows "run_rule nft pk regs (interface_match little index @ rest)
     = (if pk_iif pk = index then run_rule nft pk (regs(1 := native32 little index)) rest else (None, pk))"
  by (simp add: follows_nftD [OF assms] nft_eval)

lemma run_unmark:
  assumes "follows_nft little listening nft"
  shows "run_rule nft pk regs (interface_match little index @ [Immediate 1 (replicate 4 0), MetaStore MetaMark 1])
    = (None, if pk_iif pk = index then pk\<lparr>pk_mark := 0\<rparr> else pk)"
  by (simp add: run_interface [OF assms] follows_nftD [OF assms] zeros_native32 [of little])

lemma run_redirect:
  assumes "follows_nft little listening nft"
  shows "run_rule nft pk regs (interface_match little index @ family_match family @ protocol_match proto
      @ [Immediate 1 port, Redir 1])
    = (if pk_iif pk = index \<and> pk_family pk = family \<and> pk_proto pk = proto then Some (Redirected port) else None, pk)"
  by (simp add: follows_nftD [OF assms] nft_eval)

lemma run_port:
  assumes "follows_nft little listening nft"
  shows "run_rule nft pk regs (port_match port @ rest)
    = (if sent_to port pk then run_rule nft pk (regs(1 := be_bytes 2 port)) rest else (None, pk))"
  using sent_to_length [of port pk] by (simp add: follows_nftD [OF assms] nft_eval sent_to_def)

lemma run_tproxy:
  assumes "follows_nft little listening nft"
  shows "run_rule nft pk regs (interface_match little index @ family_match family @ protocol_match proto
      @ (if udp then [] else port_match 53)
      @ [Immediate 1 port, TProxy family 1, Immediate 1 (native32 little m), MetaStore MetaMark 1,
         VerdictExpr VerdictAccept])
    = (if pk_iif pk = index \<and> pk_family pk = family \<and> pk_proto pk = proto \<and> (udp \<or> sent_to 53 pk)
          \<and> listening family port
       then (Some Accepted, pk\<lparr>pk_socket := Some (family, port), pk_mark := m\<rparr>) else (None, pk))"
proof -
  let ?last = "[Immediate 1 port, TProxy family 1, Immediate 1 (native32 little m), MetaStore MetaMark 1,
    VerdictExpr VerdictAccept]"
  have last: "run_rule nft pk regs ?last
      = (if listening family port then (Some Accepted, pk\<lparr>pk_socket := Some (family, port), pk_mark := m\<rparr>)
         else (None, pk))" for regs
    by (simp add: follows_nftD [OF assms])
  have first: "run_rule nft pk regs (interface_match little index @ family_match family @ protocol_match proto @ rest)
      = (if pk_iif pk = index \<and> pk_family pk = family \<and> pk_proto pk = proto
         then run_rule nft pk (regs(1 := [proto])) rest else (None, pk))" for rest
    by (simp add: follows_nftD [OF assms] nft_eval)
  show ?thesis
    by (cases udp) (simp_all add: first last run_port [OF assms] del: run_rule.simps One_nat_def)
qed

lemma run_marked:
  assumes "follows_nft little listening nft"
  shows "run_rule nft pk regs (interface_match little index @ protocol_match proto
      @ [MetaLoad MetaMark 1, Cmp CmpEq 1 (native32 little m), VerdictExpr VerdictAccept])
    = (if pk_iif pk = index \<and> pk_proto pk = proto \<and> pk_mark pk = m then Some Accepted else None, pk)"
  by (simp add: follows_nftD [OF assms] nft_eval)

lemma run_protocol:
  assumes "follows_nft little listening nft"
  shows "run_rule nft pk regs (interface_match little index @ protocol_match proto @ [VerdictExpr VerdictAccept])
    = (if pk_iif pk = index \<and> pk_proto pk = proto then Some Accepted else None, pk)"
  by (simp add: follows_nftD [OF assms] nft_eval)

lemma run_redirected:
  assumes "follows_nft little listening nft"
  shows "run_rule nft pk regs (interface_match little index @ protocol_match proto @ family_match family
      @ port_match port
      @ [CtStatus 1, Bitwise 1 1 (native32 little status_destination_nat) (replicate 4 0),
         Cmp CmpNeq 1 (replicate 4 0), VerdictExpr VerdictAccept])
    = (if pk_iif pk = index \<and> pk_proto pk = proto \<and> pk_family pk = family \<and> sent_to port pk
          \<and> bit (pk_ct_status pk) 5 then Some Accepted else None, pk)"
proof -
  let ?last = "[CtStatus 1, Bitwise 1 1 (native32 little status_destination_nat) (replicate 4 0),
    Cmp CmpNeq 1 (replicate 4 0), VerdictExpr VerdictAccept]"
  have last: "run_rule nft pk regs ?last = (if bit (pk_ct_status pk) 5 then Some Accepted else None, pk)" for regs
    using destination_nat_bit [of "pk_ct_status pk"]
    by (simp add: follows_nftD [OF assms] register_masked_native32 zeros_native32 [of little])
  have first: "run_rule nft pk regs (interface_match little index @ protocol_match proto @ family_match family @ rest)
      = (if pk_iif pk = index \<and> pk_proto pk = proto \<and> pk_family pk = family
         then run_rule nft pk (regs(1 := [family])) rest else (None, pk))" for rest
    by (simp add: follows_nftD [OF assms] nft_eval)
  show ?thesis
    by (simp add: first last run_port [OF assms] del: run_rule.simps One_nat_def)
qed

lemma run_last:
  assumes "follows_nft little listening nft"
  shows "run_rule nft pk regs (interface_match little index @ [Reject kind code])
      = (if pk_iif pk = index then Some Rejected else None, pk)"
    and "run_rule nft pk regs (interface_match little index @ [VerdictExpr VerdictDrop])
      = (if pk_iif pk = index then Some Dropped else None, pk)"
  by (simp_all add: follows_nftD [OF assms] nft_eval)

section \<open>Whole chains\<close>

text \<open>The rules of one chain, in order, and what the chain does to a packet.\<close>

definition chain_rules :: "chain_name \<Rightarrow> nft_op list \<Rightarrow> nft_expr list list" where
  "chain_rules c ops = concat (map (\<lambda>op. case op of AddRule d exprs \<Rightarrow> if d = c then [exprs] else []
     | AddChain _ _ _ _ \<Rightarrow> []) ops)"

definition filtered :: "nft_kernel \<Rightarrow> nft_op list \<Rightarrow> chain_name \<Rightarrow> packet \<Rightarrow> filter_decision option \<times> packet" where
  "filtered nft ops c pk = run_chain nft pk (chain_rules c ops)"

lemma chain_rules_simps [simp]:
  "chain_rules c (a @ b) = chain_rules c a @ chain_rules c b"
  "chain_rules c [] = []"
  "chain_rules c (AddChain d t hook priority # ops) = chain_rules c ops"
  "chain_rules c (AddRule d exprs # ops) = (if d = c then exprs # chain_rules c ops else chain_rules c ops)"
  by (simp_all add: chain_rules_def)

lemma run_chain_append:
  "run_chain nft pk (xs @ ys) =
     (case run_chain nft pk xs of (None, pk') \<Rightarrow> run_chain nft pk' ys | (Some d, pk') \<Rightarrow> (Some d, pk'))"
  by (induction xs arbitrary: pk) (auto split: prod.split option.split)

definition tcp_redirect :: "bool \<Rightarrow> u32 \<Rightarrow> listener_ports \<Rightarrow> nft_expr list" where
  "tcp_redirect little index l =
     interface_match little index @ family_match (lp_family l) @ protocol_match ipproto_tcp
       @ [Immediate 1 (be_bytes 2 (lp_tcp l)), Redir 1]"

definition udp_redirect :: "bool \<Rightarrow> u32 \<Rightarrow> bool \<Rightarrow> listener_ports \<Rightarrow> nft_expr list" where
  "udp_redirect little index udp l =
     interface_match little index @ family_match (lp_family l) @ protocol_match ipproto_udp
       @ (if udp then [] else port_match 53)
       @ [Immediate 1 (be_bytes 2 (lp_udp l)), TProxy (lp_family l) 1,
          Immediate 1 (native32 little routing_mark), MetaStore MetaMark 1, VerdictExpr VerdictAccept]"

lemma listener_chain_rules:
  "chain_rules Prerouting (concat (map (listener_rules little index udp) ls)) = map (tcp_redirect little index) ls"
  "chain_rules UdpPrerouting (concat (map (listener_rules little index udp) ls)) = map (udp_redirect little index udp) ls"
  "c = InputChain \<or> c = ForwardChain \<Longrightarrow> chain_rules c (concat (map (listener_rules little index udp) ls)) = []"
proof -
  have "ipproto_tcp \<noteq> ipproto_udp" by (simp add: ipproto_tcp_def ipproto_udp_def)
  then have one: "listener_rules little index udp l =
      [AddRule Prerouting (tcp_redirect little index l), AddRule UdpPrerouting (udp_redirect little index udp l)]" for l
    by (simp add: listener_rules_def redirect_rule_def tcp_redirect_def udp_redirect_def Let_def)
  show "chain_rules Prerouting (concat (map (listener_rules little index udp) ls)) = map (tcp_redirect little index) ls"
    "chain_rules UdpPrerouting (concat (map (listener_rules little index udp) ls)) = map (udp_redirect little index udp) ls"
    "c = InputChain \<or> c = ForwardChain \<Longrightarrow> chain_rules c (concat (map (listener_rules little index udp) ls)) = []"
    by (induction ls) (auto simp: one)
qed

lemma run_tcp_redirects:
  assumes "follows_nft little listening nft"
  shows "run_chain nft pk (map (tcp_redirect little index) ls)
    = (if pk_iif pk = index \<and> pk_proto pk = ipproto_tcp
       then map_option (\<lambda>l. Redirected (be_bytes 2 (lp_tcp l))) (find (\<lambda>l. lp_family l = pk_family pk) ls)
       else None, pk)"
  by (induction ls) (auto simp: tcp_redirect_def run_redirect [OF assms] simp del: One_nat_def)

lemma run_udp_redirects:
  assumes "follows_nft little listening nft"
  shows "run_chain nft pk (map (udp_redirect little index udp) ls)
    = (case if pk_iif pk = index \<and> pk_proto pk = ipproto_udp \<and> (udp \<or> sent_to 53 pk)
            then find (\<lambda>l. lp_family l = pk_family pk \<and> listening (lp_family l) (be_bytes 2 (lp_udp l))) ls
            else None of
         None \<Rightarrow> (None, pk)
       | Some l \<Rightarrow> (Some Accepted,
           pk\<lparr>pk_socket := Some (lp_family l, be_bytes 2 (lp_udp l)), pk_mark := routing_mark\<rparr>))"
  by (induction ls) (auto simp: udp_redirect_def run_tproxy [OF assms] simp del: One_nat_def)

lemma run_input_accepts:
  assumes "follows_nft little listening nft"
  shows "run_chain nft pk (chain_rules InputChain (map (input_accept little index) ls))
    = (if pk_iif pk = index \<and> pk_proto pk = ipproto_tcp \<and> bit (pk_ct_status pk) 5
          \<and> list_ex (\<lambda>l. lp_family l = pk_family pk \<and> sent_to (lp_tcp l) pk) ls
       then Some Accepted else None, pk)"
  by (induction ls) (auto simp: input_accept_def run_redirected [OF assms] simp del: One_nat_def)

lemma foreign_packets_pass:
  assumes "follows_nft little listening nft" and "pk_iif pk \<noteq> index"
    and "list_all (\<lambda>r. \<exists>rest. r = interface_match little index @ rest) rules"
  shows "run_chain nft pk rules = (None, pk)"
  using assms(3)
  by (induction rules) (auto simp: run_interface [OF assms(1)] assms(2))

lemma rules_on_interface:
  "list_all (\<lambda>r. \<exists>rest. r = interface_match little index @ rest)
     (chain_rules c (redirect_rules little index listeners udp))"
proof -
  have "list_all (\<lambda>r. \<exists>rest. r = interface_match little index @ rest)
      (chain_rules c (concat (map (listener_rules little index udp) listeners)))"
    by (induction listeners) (auto simp: listener_rules_def redirect_rule_def Let_def)
  moreover have "list_all (\<lambda>r. \<exists>rest. r = interface_match little index @ rest)
      (chain_rules c (map (input_accept little index) listeners))"
    by (induction listeners) (auto simp: input_accept_def)
  ultimately show ?thesis by (auto simp: redirect_rules_def)
qed

lemma input_chain:
  assumes "follows_nft little listening nft" and "pk_iif pk = index"
  shows "filtered nft (redirect_rules little index listeners udp) InputChain pk
    = (Some (if pk_proto pk = ipproto_udp \<and> pk_mark pk = routing_mark
             \<or> pk_proto pk = ipproto_icmp \<or> pk_proto pk = ipproto_icmpv6
             \<or> pk_proto pk = ipproto_tcp \<and> bit (pk_ct_status pk) 5
                 \<and> list_ex (\<lambda>l. lp_family l = pk_family pk \<and> sent_to (lp_tcp l) pk) listeners
           then Accepted else Rejected), pk)"
  by (simp add: filtered_def redirect_rules_def listener_chain_rules run_chain_append assms(2) run_marked [OF assms(1)]
      run_protocol [OF assms(1)] run_input_accepts [OF assms(1)] run_last [OF assms(1)] del: One_nat_def)

lemma other_chains:
  assumes "follows_nft little listening nft" and "pk_iif pk = index"
  shows "filtered nft (redirect_rules little index listeners udp) ForwardChain pk = (Some Dropped, pk)"
    and "filtered nft (redirect_rules little index listeners udp) Prerouting pk
      = (if pk_proto pk = ipproto_tcp
         then map_option (\<lambda>l. Redirected (be_bytes 2 (lp_tcp l))) (find (\<lambda>l. lp_family l = pk_family pk) listeners)
         else None, pk)"
    and "filtered nft (redirect_rules little index listeners udp) UdpPrerouting pk
      = (case if pk_proto pk = ipproto_udp \<and> (udp \<or> sent_to 53 pk)
              then find (\<lambda>l. lp_family l = pk_family pk \<and> listening (lp_family l) (be_bytes 2 (lp_udp l))) listeners
              else None of
           None \<Rightarrow> (None, pk\<lparr>pk_mark := 0\<rparr>)
         | Some l \<Rightarrow> (Some Accepted,
             pk\<lparr>pk_mark := routing_mark, pk_socket := Some (lp_family l, be_bytes 2 (lp_udp l))\<rparr>))"
proof -
  have accepts: "c \<noteq> InputChain \<Longrightarrow> chain_rules c (map (input_accept little index) ls) = []" for c ls
    by (induction ls) (auto simp: input_accept_def)
  have port: "sent_to port (pk\<lparr>pk_mark := 0\<rparr>) = sent_to port pk" for port by (simp add: sent_to_def)
  note eval = filtered_def redirect_rules_def listener_chain_rules accepts assms(2) run_last [OF assms(1)]
  show "filtered nft (redirect_rules little index listeners udp) ForwardChain pk = (Some Dropped, pk)"
    by (simp add: eval)
  show "filtered nft (redirect_rules little index listeners udp) Prerouting pk
      = (if pk_proto pk = ipproto_tcp
         then map_option (\<lambda>l. Redirected (be_bytes 2 (lp_tcp l))) (find (\<lambda>l. lp_family l = pk_family pk) listeners)
         else None, pk)"
    by (simp add: eval run_tcp_redirects [OF assms(1)])
  show "filtered nft (redirect_rules little index listeners udp) UdpPrerouting pk
      = (case if pk_proto pk = ipproto_udp \<and> (udp \<or> sent_to 53 pk)
              then find (\<lambda>l. lp_family l = pk_family pk \<and> listening (lp_family l) (be_bytes 2 (lp_udp l))) listeners
              else None of
           None \<Rightarrow> (None, pk\<lparr>pk_mark := 0\<rparr>)
         | Some l \<Rightarrow> (Some Accepted,
             pk\<lparr>pk_mark := routing_mark, pk_socket := Some (lp_family l, be_bytes 2 (lp_udp l))\<rparr>))"
    by (simp add: eval run_unmark [OF assms(1)] run_udp_redirects [OF assms(1)] port del: One_nat_def
        split: option.split)
qed

text \<open>
  C31. The nftables rules leave no way around the proxy. On a kernel that evaluates the expressions as
  documented, every packet fares like this. From another interface no chain of the table decides about it
  or changes it. From the ingress interface: nothing is forwarded; TCP is redirected to the TCP listener of
  its family; UDP, without the UDP option only UDP to port 53, goes to a transparent UDP listener of its
  family and is marked, and any mark it came with is erased otherwise; as input exactly marked UDP, ICMP,
  ICMPv6 and TCP to the port of a listener of its family whose destination was rewritten are accepted and
  everything else is rejected. So of UDP, whatever mark it came with, exactly what a listener took is
  accepted.
\<close>

theorem redirect_rules_confine:
  assumes "follows_nft little listening nft"
  shows "let outcome = filtered nft (redirect_rules little index listeners udp) in
    if pk_iif pk \<noteq> index then \<forall>c. outcome c pk = (None, pk)
    else outcome ForwardChain pk = (Some Dropped, pk)
      \<and> outcome Prerouting pk
          = (if pk_proto pk = ipproto_tcp
             then map_option (\<lambda>l. Redirected (be_bytes 2 (lp_tcp l))) (find (\<lambda>l. lp_family l = pk_family pk) listeners)
             else None, pk)
      \<and> outcome UdpPrerouting pk
          = (case if pk_proto pk = ipproto_udp \<and> (udp \<or> sent_to 53 pk)
                  then find (\<lambda>l. lp_family l = pk_family pk \<and> listening (lp_family l) (be_bytes 2 (lp_udp l))) listeners
                  else None of
               None \<Rightarrow> (None, pk\<lparr>pk_mark := 0\<rparr>)
             | Some l \<Rightarrow> (Some Accepted,
                 pk\<lparr>pk_mark := routing_mark, pk_socket := Some (lp_family l, be_bytes 2 (lp_udp l))\<rparr>))
      \<and> outcome InputChain pk
          = (Some (if pk_proto pk = ipproto_udp \<and> pk_mark pk = routing_mark
                   \<or> pk_proto pk = ipproto_icmp \<or> pk_proto pk = ipproto_icmpv6
                   \<or> pk_proto pk = ipproto_tcp \<and> bit (pk_ct_status pk) 5
                       \<and> list_ex (\<lambda>l. lp_family l = pk_family pk \<and> sent_to (lp_tcp l) pk) listeners
                 then Accepted else Rejected), pk)
      \<and> (pk_proto pk = ipproto_udp \<longrightarrow>
           (case outcome UdpPrerouting pk of
              (took, pk') \<Rightarrow> outcome InputChain pk' = (Some (if took = Some Accepted then Accepted else Rejected), pk')))"
proof (cases "pk_iif pk = index")
  case False
  then show ?thesis
    using foreign_packets_pass [OF assms False rules_on_interface] by (simp add: filtered_def)
next
  case True
  let ?outcome = "filtered nft (redirect_rules little index listeners udp)"
  have protos: "ipproto_udp \<noteq> ipproto_icmp" "ipproto_udp \<noteq> ipproto_icmpv6" "ipproto_udp \<noteq> ipproto_tcp"
    "routing_mark \<noteq> 0"
    by (simp_all add: ipproto_udp_def ipproto_icmp_def ipproto_icmpv6_def ipproto_tcp_def routing_mark_def)
  have "case ?outcome UdpPrerouting pk of
      (took, pk') \<Rightarrow> ?outcome InputChain pk' = (Some (if took = Some Accepted then Accepted else Rejected), pk')"
    if "pk_proto pk = ipproto_udp"
    using that protos True
    by (auto simp: other_chains(3) [OF assms True] input_chain [OF assms] split: option.split)
  with True other_chains [OF assms True] input_chain [OF assms True] show ?thesis
    by (simp add: Let_def)
qed

text \<open>A kernel that evaluates the expressions as documented, and packets of the guest.\<close>

fun documented_nft :: "bool \<Rightarrow> (u8 \<Rightarrow> bytes \<Rightarrow> bool) \<Rightarrow> nft_kernel" where
  "documented_nft little listening pk regs (MetaLoad key r) = Continue pk (regs(r := meta_value little pk key))"
| "documented_nft little listening pk regs (MetaStore key r) = Continue (pk\<lparr>pk_mark := read32 little (regs r)\<rparr>) regs"
| "documented_nft little listening pk regs (Cmp op r data) =
     (if (regs r = data) = (op = CmpEq) then Continue pk regs else NoMatch)"
| "documented_nft little listening pk regs (PayloadTransport r off n) =
     (if off + n \<le> length (pk_transport pk)
      then Continue pk (regs(r := take n (drop off (pk_transport pk)))) else NoMatch)"
| "documented_nft little listening pk regs (Immediate r data) = Continue pk (regs(r := data))"
| "documented_nft little listening pk regs (TProxy family r) =
     (if listening family (regs r) then Continue (pk\<lparr>pk_socket := Some (family, regs r)\<rparr>) regs else NoMatch)"
| "documented_nft little listening pk regs (Redir r) = Decide (Redirected (regs r))"
| "documented_nft little listening pk regs (CtStatus r) = Continue pk (regs(r := native32 little (pk_ct_status pk)))"
| "documented_nft little listening pk regs (Bitwise s d keep flips) = Continue pk (regs(d := register_masked (regs s) keep flips))"
| "documented_nft little listening pk regs (VerdictExpr v) =
     Decide (case v of VerdictAccept \<Rightarrow> Accepted | VerdictDrop \<Rightarrow> Dropped)"
| "documented_nft little listening pk regs (Reject kind code) = Decide Rejected"

lemma documented_follows: "follows_nft little listening (documented_nft little listening)"
  by (simp add: follows_nft_def)

definition sample_packet :: packet where
  "sample_packet =
     \<lparr>pk_iif = 2, pk_proto = 6, pk_family = 2, pk_mark = 0, pk_transport = be_bytes 2 (50000 :: u16) @ be_bytes 2 (40001 :: u16),
      pk_ct_status = 0, pk_socket = None\<rparr>"

text \<open>
  To the port of the listener: TCP that was not redirected, TCP that was, and UDP with a forged mark.
\<close>

theorem redirect_rules_confine_witness:
  "let outcome = filtered (documented_nft True (\<lambda>_ _. True))
         (redirect_rules True 2 [\<lparr>lp_family = 2, lp_tcp = 40001, lp_udp = 40002\<rparr>] False);
       forged = sample_packet\<lparr>pk_proto := 17, pk_mark := routing_mark\<rparr> in
     fst (outcome InputChain sample_packet) = Some Rejected
     \<and> fst (outcome InputChain (sample_packet\<lparr>pk_ct_status := 32\<rparr>)) = Some Accepted
     \<and> fst (outcome InputChain (snd (outcome UdpPrerouting forged))) = Some Rejected"
proof -
  let ?ls = "[\<lparr>lp_family = 2, lp_tcp = 40001, lp_udp = 40002\<rparr>]"
  note here = redirect_rules_confine [OF documented_follows, of True "\<lambda>_ _. True" 2 ?ls False]
  have fields: "pk_iif sample_packet = 2" "pk_proto sample_packet = 6" "pk_family sample_packet = 2"
    "pk_ct_status sample_packet = 0" "sent_to 40001 sample_packet" "\<not> sent_to 53 sample_packet"
    by (simp_all add: sample_packet_def sent_to_def)
  have same: "sent_to port (sample_packet\<lparr>pk_ct_status := c\<rparr>) = sent_to port sample_packet"
    "sent_to port (sample_packet\<lparr>pk_proto := p, pk_mark := m\<rparr>) = sent_to port sample_packet" for port c p m
    by (simp_all add: sent_to_def)
  note eval = fields same ipproto_tcp_def ipproto_udp_def ipproto_icmp_def ipproto_icmpv6_def Let_def
  have "fst (filtered (documented_nft True (\<lambda>_ _. True)) (redirect_rules True 2 ?ls False) InputChain sample_packet)
      = Some Rejected"
    using here [of sample_packet] by (simp add: eval)
  moreover have "fst (filtered (documented_nft True (\<lambda>_ _. True)) (redirect_rules True 2 ?ls False) InputChain
      (sample_packet\<lparr>pk_ct_status := 32\<rparr>)) = Some Accepted"
    using here [of "sample_packet\<lparr>pk_ct_status := 32\<rparr>"] by (simp add: eval)
  moreover have "fst (filtered (documented_nft True (\<lambda>_ _. True)) (redirect_rules True 2 ?ls False) InputChain
      (snd (filtered (documented_nft True (\<lambda>_ _. True)) (redirect_rules True 2 ?ls False) UdpPrerouting
        (sample_packet\<lparr>pk_proto := 17, pk_mark := routing_mark\<rparr>)))) = Some Rejected"
    using here [of "sample_packet\<lparr>pk_proto := 17, pk_mark := routing_mark\<rparr>"] by (auto simp: eval)
  ultimately show ?thesis by (simp add: Let_def)
qed

end
