(* ===== verification/Spec2Isabelle.thy ===== *)
theory Spec2Isabelle
  imports End_To_End DNS_Refinement Audit_Record Tunnel_Chain Udp_Session Qemu_Run Netns_Run Engine_Close Vsock Listener Boundary_Wire Datagram_Relay Client_Conn
    Tcp_Relay Commands Fixtures Packet_Filter
begin

text \<open>
  A verification library for agents.net.

  \<^bold>\<open>The program.\<close> agents.net confines an agent's network to one channel. Inside the sandbox an adapter
  terminates the guest's TCP and UDP (the engine behind a TUN device or a QEMU stream, or a namespace
  proxy behind nftables), answers DNS from a synthetic pool and turns each flow into an HTTP CONNECT or
  connect-udp tunnel that carries the name the guest asked for. Outside, a boundary reads those
  requests, decides each of them under a policy descriptor, resolves and checks addresses itself, dials
  and relays, and writes one audit record per decision. A launcher builds the device, drops the
  capability to change it and supervises the agent; an ingress channel delivers inbound streams to
  pinned loopback ports.

  \<^bold>\<open>The theories\<close>, bottom up, with the sources under src/ they model.

  \<^item> Prelude: words, results and the shared lemmas. Go_Strings, Net_Addr: what the program uses of Go's
    strings, strconv, net and net/netip, with their parse and print facts.
  \<^item> Stream_Codec, Name_Store, Admission: the interfaces, as locales. \<open>stream_codec\<close>: a frame written in
    front of any stream is read back and nothing else is consumed. \<open>name_store\<close>: what a resolver that
    hands out addresses promises to whoever dials by them later. \<open>admission\<close>: a bounded number of workers
    under any interleaving of arrivals and departures.
  \<^item> Refinement: a fourth interface, \<open>refinement\<close>: an abstract machine, a component and the abstraction
    between them; one law per operation gives equal outputs over every run.
  \<^item> Task_Group: a fifth interface, \<open>task_group\<close>: goroutines that end together, with the steps they
    take by themselves and those that need something from outside; every run that is told to stop ends,
    within a number of steps read off its state.
  \<^item> Policy, Policy_Load, Authorize, Descriptor_Semantics: sdk/cmd/connect-proxy/policy.go. Descriptors,
    their validation, rule selection, the special-purpose address table and \<open>authorize\<close>. Shown: the loader
    yields well-formed policies; a verdict has one of three shapes; every returned address is granted;
    and the loaded maps and lists decide exactly what the rules of the file say (two refinements).
  \<^item> Proxy_Status, Http_Head, Boundary, Boundary_Wire, Listener: sdk/cmd/connect-proxy/main.go. The bounded
    head reader and head checks, the targets, both wires' handlers as lists of effects, the bytes of a
    refusal, the accept loop and the idle watch. Shown: only granted addresses are dialed; one audit
    record per decision; refusals come from one table and are readable; handlers, head bytes and idle
    time are bounded.
  \<^item> Capsule, Datagram_Relay: sdk/pkg/tun2connect/capsule.go and the UDP loops of both ends; datagrams
    cross a tunnel unchanged (\<open>stream_codec\<close> interpreted on varints, capsules and datagrams).
  \<^item> Virtual_DNS, Forwarder, Engine: dns.go, forwarder.go, engine.go of sdk/pkg/tun2connect. The resolver
    interprets \<open>name_store\<close>, the engine \<open>admission\<close>. Shown: an address leads only ever to the name it was
    answered for; recent names stay; no handler leaks a slot. DNS_Refinement interprets \<open>refinement\<close> on
    the resolver: its maps, linked list and prefix tests are one bounded recency list of names and a
    counter of addresses.
  \<^item> Audit_Record: the JSON lines of the audit stream (\<open>audit\<close> of main.go with what it uses of
    encoding/json) and a reader for them: no request can add a line or a field.
  \<^item> Client, Client_Conn: connect.go, connect_h2.go, dialer.go. Requests, final responses, refusals, and
    what becomes of connection, session and stream. Shown: the boundary reads exactly the host and port
    asked for; its reason reaches the client; failed dials leave nothing open.
  \<^item> Tcp_Relay: the relays of relay.go, of the boundary and of the scenario programs, as a step relation of
    two copies, and between peers that hold their end of stream back until they have seen the other's;
    they are transparent, and end because they pass the end of a stream on (\<open>task_group\<close>).
    Tunnel_Chain: the relays of both ends of a tunnel taking their own steps at once; the two together
    are transparent, and without failures the guest gets the whole answer.
  \<^item> Udp_Session, Engine_Close, Netns_Run, Qemu_Run: how a UDP session, the engine, the namespace proxy and
    the QEMU proxy end, each an interpretation of \<open>task_group\<close>: the loops of a session and its context,
    the engine's workers and its stack, the listeners with their workers and \<open>Run\<close>, the reading and the
    writing loop.
  \<^item> Ingress, Launcher: sdk/cmd/tun2connect. Pinned ports and the ingress channel; the TUN device, dropping
    \<open>CAP_NET_ADMIN\<close>, the launcher as a sequence of events, the supervision of the agent.
  \<^item> Netns_Flows, Netns_Setup: sdk/pkg/netnsproxy. Original destinations, packet flows, the flow table with
    its slots in every interleaving (\<open>admission\<close> again); nftables rules, policy routes, set-up that is all
    or nothing.
  \<^item> Packet_Filter: what those rules do to every packet, over a kernel that is only assumed to evaluate each
    expression as documented.
  \<^item> Guest_Flows: the workers of engine and namespace proxy and the DNS service on their shared resolver, in
    any order; a flow is only carried for the name its address was answered for.
  \<^item> End_To_End: the workers, the clients and the boundary joined: the boundary's handlers on the client's
    requests take the place of the dialer. Shown: a carried flow has a tunnel that a rule of the
    descriptor permits, and what the descriptor permits is carried.
  \<^item> Qemu: sdk/pkg/qemuproxy. The frame codec (\<open>stream_codec\<close> again), the filter and both loops.
  \<^item> Commands: the start-up of connect-proxy, qemuproxy and netnsproxy.
  \<^item> Fixtures, Vsock: src/scenarios/cmd, the fixture boundary, the vsock forwarder and the target server;
    vsock addresses and sockets with the descriptors they leave open, and the forwarder's \<open>main\<close>.

  \<^bold>\<open>How the code is read.\<close> Structs are records, enumerations datatypes, fixed-width integers words; Go's \<open>int\<close>
  where it cannot overflow is \<open>int\<close>. An error is \<open>Inl\<close>, an early return a branch. A handler that only
  acts on the world is the list of its effects in order; a component with state is a function on that
  state; concurrent goroutines are an inductive step relation over the shared state, and properties are
  invariants of every reachable state. Locks make each modelled step atomic.

  \<^bold>\<open>Parameters.\<close> Code outside the repository is an argument: JSON decoding, the Unicode case and IDNA
  tables (\<open>text_env\<close>), DNS lookups and dials, net/textproto and HTTP message reading (\<open>http_lib\<close>), URL
  parsing, the dnsmessage codec, the gVisor stack, Ethernet header accessors, the kernel's answers to
  system calls, netlink and nftables. What a theorem needs of one is a named hypothesis.

  \<^bold>\<open>Termination and bounds.\<close> Loops over input are total functions with a measure (bytes left to read,
  responses left of nine). The only fuel is in the target server's stream loop, whose 64-bit arithmetic
  could wrap; enough fuel is shown to give the result. Bounds are the code's own: 65536 names per
  family, 65535 bytes per datagram, 64 KiB per head, 16 packets per flow, the connection limits.

  \<^bold>\<open>Not modelled.\<close> Log lines, flag parsing, timers other than the idle watch, the idle timeout of a UDP
  session and read deadlines, cancelled contexts other than as the closing of a tunnel, a session or a
  proxy from outside, and the gVisor stack: they are I/O or libraries. The Python demo, the conformance
  harness and the prose of the specification are not part of the Go implementation.
\<close>

section \<open>Properties across components\<close>

lemma show_ipv4_chars:
  "list_all (\<lambda>c. is_digit c \<or> c = CHR ''.'') (show_ipv4 w)"
proof -
  have "list_all (\<lambda>c. is_digit c \<or> c = CHR ''.'') (show_nat n)" for n
    using show_nat_digits [of n] by (auto simp: list_all_iff)
  then show ?thesis by (simp add: show_ipv4_def Let_def list_all_append)
qed

lemma to_lower_show_ipv4: "to_lower env (show_ipv4 w) = show_ipv4 w"
proof -
  have "byte_of c < 128 \<and> lower_byte c = c" if "is_digit c \<or> c = CHR ''.''" for c
    using that by (auto simp: is_digit_def lower_byte_def byte_of_def)
  with show_ipv4_chars [of w] have "list_all (\<lambda>c. byte_of c < 128 \<and> lower_byte c = c) (show_ipv4 w)"
    by (auto simp: list_all_iff)
  then show ?thesis
    by (auto simp: to_lower_def is_ascii_def list_all_iff intro: map_idI)
qed

lemma assignable_special: "assignable False a \<Longrightarrow> special_address a"
  by (simp add: assignable_def pool_of_def v4_pool_def special_address_def wire_special_ranges_def)

lemma uncovered_literal_denied:
  fixes port :: u16
  assumes "list_all (\<lambda>r. \<not> prefix_contains (rule_prefix r) (IP4 w)) (pol_literals p)" and "port \<noteq> 0"
  shows "v_reason (authorize env lookup p (show_addr (IP4 w)) (show_nat (unat port)) network)
    = ''ip-not-on-allowlist''"
proof -
  have "filter (\<lambda>r. prefix_contains (rule_prefix r) (IP4 w)) (pol_literals p) = []"
    using assms(1) by (simp add: filter_empty_conv list_all_iff)
  then show ?thesis
    by (simp add: authorize_def parse_port_show [OF iffD1 [OF word_neq_0_conv assms(2)]] to_lower_show_ipv4 parse_addr_show_ipv4
        authorize_literal_def select_rule_eq)
qed

lemma uncovered_literal_refused:
  fixes port :: u16
  assumes "bnd_current b = Some p" and "port \<noteq> 0"
    and "list_all (\<lambda>r. \<not> prefix_contains (rule_prefix r) (IP4 w)) (pol_literals p)"
  shows "\<exists>rec. open_tunnel b wire network (show_addr (IP4 w)) (show_nat (unat port)) s status
      = [Audit rec, Deny 403 (ar_reason rec)] \<and> ar_decision rec = ''block''
    \<and> ar_reason rec = (if network = ''udp'' \<and> \<not> pol_udp p then ''udp-disabled'' else ''ip-not-on-allowlist'')"
proof -
  let ?v = "authorize (bnd_env b) (bnd_lookup b) p (show_addr (IP4 w)) (show_nat (unat port)) network"
  have "v_reason ?v = ''ip-not-on-allowlist''" by (rule uncovered_literal_denied [OF assms(3,2)])
  moreover from this have "v_status ?v = 403"
    using parse_port_show [OF iffD1 [OF word_neq_0_conv assms(2)]] to_lower_show_ipv4 [of "bnd_env b" w]
    by (auto simp: authorize_def parse_addr_show_ipv4 authorize_literal_def deny_verdict_def Let_def
        split: prod.splits option.splits if_splits)
  ultimately show ?thesis
    using assms(1) by (simp add: open_tunnel_def connect_upstream_def audit_def Let_def)
qed

text \<open>
  C22. A stale synthetic address fails closed end to end: at any time after an IPv4 address was answered
  for a name, when the resolver has forgotten it, a flow to it reaches the boundary as the address
  literal; the address is special-purpose; and a boundary whose policy has no literal rule that covers
  it refuses every request for it on either wire and over either transport, without a dial, with
  \<open>ip-not-on-allowlist\<close>, or \<open>udp-disabled\<close> for UDP when that is off.
\<close>

theorem stale_address_denied:
  assumes "store_later (resolve env) reverse new_virtual_dns d"
    and "resolve env d name False = (Inr a, d1)" and "store_later (resolve env) reverse d1 d2"
    and "fst (reverse d2 a) = None" and "port \<noteq> 0" and "bnd_current b = Some p"
    and "list_all (\<lambda>r. \<not> prefix_contains (rule_prefix r) a) (pol_literals p)"
  shows "fst (target_host d2 \<lparr>ap_addr = a, ap_port = port\<rparr>) = Some (show_addr a)
    \<and> special_address a
    \<and> (\<exists>rec. open_tunnel b wire network (show_addr a) (show_nat (unat port)) s status
          = [Audit rec, Deny 403 (ar_reason rec)] \<and> ar_decision rec = ''block''
        \<and> ar_reason rec = (if network = ''udp'' \<and> \<not> pol_udp p then ''udp-disabled'' else ''ip-not-on-allowlist''))"
proof -
  have wf: "dns_wf d" using dns.later_valid [OF assms(1) new_virtual_dns_wf] .
  have ok: "assignable False a" using resolve_issued(1) [OF wf assms(2)] .
  then have a: "unmap a = a" "a \<noteq> IPInvalid" using assignable_not_invalid by auto
  obtain w where w: "a = IP4 w"
    using assignable_in_family [OF ok] by (cases a) (auto simp: in_family_def)
  have "fst (target_host d2 \<lparr>ap_addr = a, ap_port = port\<rparr>) = Some (show_addr a)"
    using a assms(4,5)
    by (auto simp: target_host_def target_host_of_def addr_port_valid_def Let_def split: prod.splits option.splits)
  with assignable_special [OF ok] uncovered_literal_refused [OF assms(6,5)] assms(7) w show ?thesis by simp
qed

text \<open>
  The address of the first name of a resolver, after 65536 other names: its length tells them apart.
\<close>

definition letter_name :: "nat \<Rightarrow> string" where
  "letter_name k = replicate (Suc k) CHR ''b''"

lemma letter_name_canonical: "canonical ascii_env (letter_name k) = letter_name k"
proof -
  have "CHR ''.'' \<notin> set (letter_name k)" by (simp add: letter_name_def)
  then have "\<not> has_suffix (letter_name k) ''.''" by (auto simp: has_suffix_iff)
  moreover have "map lower_byte (letter_name k) = letter_name k" "is_ascii (letter_name k)"
    by (simp_all add: letter_name_def lower_byte_def is_ascii_def list_all_iff byte_of_def)
  ultimately show ?thesis by (simp add: canonical_def trim_suffix_def to_lower_def)
qed

definition later_names :: "string list" where
  "later_names = map letter_name [0..<max_synthetic_names]"

lemma later_names_distinct: "distinct later_names"
  by (simp add: later_names_def distinct_map inj_on_def letter_name_def)

lemma first_name_forgotten:
  assumes "resolve ascii_env new_virtual_dns ''A.example.'' False = (Inr a, d1)"
  shows "fst (reverse (resolve_all ascii_env False later_names d1) a) = None"
proof -
  have d1: "d1 = snd (resolve ascii_env new_virtual_dns ''A.example.'' False)" using assms by simp
  have names: "names_of False d1 = [''a.example'']" by (simp add: d1 names_of_def dns_eval)
  have "CHR ''a'' \<in> set ''a.example''" by simp
  then have other: "''a.example'' \<notin> set later_names" by (auto simp: later_names_def letter_name_def)
  have "canonical ascii_env ''A.example.'' = ''a.example''" by (simp add: dns_eval)
  moreover have "lru_issued (abs_dns d1 False) + max_synthetic_names \<le> pool_size False"
    by (simp add: d1 abs_family_def pool_base_values pool_size_def dns_eval addr_index_def)
  moreover have "list_all (\<lambda>n. canonical ascii_env n = n \<and> n \<noteq> []) later_names"
    by (auto simp: later_names_def list_all_iff letter_name_canonical) (simp add: letter_name_def)
  ultimately show ?thesis
    using other names
    by (intro old_names_forgotten [OF new_virtual_dns_good assms later_names_distinct])
       (simp_all add: later_names_def)
qed

theorem stale_address_denied_witness:
  "\<exists>d1 d2. resolve ascii_env new_virtual_dns ''A.example.'' False = (Inr (IP4 0x64400001), d1)
    \<and> fst (target_host d2 \<lparr>ap_addr = IP4 0x64400001, ap_port = 443\<rparr>) = Some (show_addr (IP4 0x64400001))
    \<and> (\<exists>rec. open_tunnel sample_boundary ''h1'' ''tcp'' (show_addr (IP4 0x64400001)) (show_nat (unat (443 :: u16)))
          \<lparr>s_peer = [], s_id = ''1''\<rparr> 200 = [Audit rec, Deny 403 ''ip-not-on-allowlist''])"
proof -
  let ?d = "snd (resolve ascii_env new_virtual_dns ''A.example.'' False)"
  let ?d2 = "resolve_all ascii_env False later_names ?d"
  have new: "store_later (resolve ascii_env) reverse new_virtual_dns new_virtual_dns" by (simp add: store_later_def)
  have r: "resolve ascii_env new_virtual_dns ''A.example.'' False = (Inr (IP4 0x64400001), ?d)"
    using first_resolution by (metis prod.collapse)
  have uncovered: "list_all (\<lambda>r. \<not> prefix_contains (rule_prefix r) (IP4 0x64400001)) (pol_literals sample_policy)"
    "(443 :: u16) \<noteq> 0" "bnd_current sample_boundary = Some sample_policy"
    by (simp_all add: policy_eval sample_boundary_def)
  from stale_address_denied [OF new r resolve_all_later first_name_forgotten [OF r] uncovered(2,3,1),
      of "''h1''" "''tcp''" "\<lparr>s_peer = [], s_id = ''1''\<rparr>" 200] r
  show ?thesis by (intro exI [of _ ?d] exI [of _ ?d2]) auto
qed

end
